(* ===== verification/Prelude.thy ===== *)
theory Prelude
  imports Main "HOL-Library.List_Lexorder" "HOL-Library.Char_ord" "HOL-Library.Product_Lexorder"
    "HOL-Library.Monad_Syntax"
begin

text \<open>
  Shared vocabulary of the CloudNode development.

  \<^item> A \<open>std::string\<close> is a \<open>string\<close> (a list of 8-bit characters), and so are the bytes of a
    file or of a data-channel message. The library orders on \<open>char\<close>, lists and pairs are the
    orders \<open>std::set\<close> and \<open>std::map\<close> iterate in.
  \<^item> A \<open>std::map\<close> is a partial function; iterating it visits \<open>map_keys\<close>.
  \<^item> An operation that may violate a precondition of what it calls (a failed assertion, a use of
    freed memory) returns an \<open>option\<close>, \<open>None\<close> being that outcome; \<open>each\<close> is a range-for loop
    over such an operation.
  \<^item> \<open>reach\<close> is the set of states a component with nondeterministic steps can get to, and the
    locale \<open>invariant_system\<close> is the one rule by which invariants are lifted to it.
\<close>

type_synonym bytes = string
type_synonym ws = nat \<comment> \<open>the address of a \<open>WebSocket\<close>\<close>
type_synonym peer_room_key = "string \<times> string"

named_theorems frame_simps \<open>fields an operation leaves unchanged\<close>
named_theorems inv_intros \<open>operations that keep a component's invariant\<close>

section \<open>Ordered containers\<close>

definition map_keys :: "('k::linorder \<rightharpoonup> 'v) \<Rightarrow> 'k list" where
  "map_keys m = sorted_list_of_set (dom m)"

lemma set_map_keys [simp]: "finite (dom m) \<Longrightarrow> set (map_keys m) = dom m"
  by (simp add: map_keys_def)

lemma distinct_map_keys [simp]: "distinct (map_keys m)"
  by (simp add: map_keys_def)

lemma map_keys_empty [simp]: "map_keys Map.empty = []"
  by (simp add: map_keys_def)

section \<open>Loops over operations that may fail\<close>

fun each :: "('a \<Rightarrow> 's \<Rightarrow> 's option) \<Rightarrow> 'a list \<Rightarrow> 's \<Rightarrow> 's option" where
  "each f [] s = Some s"
| "each f (x # xs) s = (case f x s of None \<Rightarrow> None | Some t \<Rightarrow> each f xs t)"

lemma each_Some:
  assumes "P s" and "\<And>x t. x \<in> set xs \<Longrightarrow> P t \<Longrightarrow> \<exists>u. f x t = Some u \<and> P u"
  shows "\<exists>t. each f xs s = Some t \<and> P t"
  using assms
proof (induction xs arbitrary: s)
  case Nil
  then show ?case by simp
next
  case (Cons x xs)
  from Cons.prems(1) Cons.prems(2) [of x s] obtain u where "f x s = Some u" "P u" by auto
  with Cons.IH [of u] Cons.prems(2) show ?case by auto
qed

lemma each_inv:
  assumes "each f xs s = Some t" and "P s"
    and "\<And>x u v. x \<in> set xs \<Longrightarrow> P u \<Longrightarrow> f x u = Some v \<Longrightarrow> P v"
  shows "P t"
  using assms
proof (induction xs arbitrary: s)
  case Nil
  then show ?case by simp
next
  case (Cons x xs)
  then obtain u where "f x s = Some u" "each f xs u = Some t" by (auto split: option.splits)
  moreover from this(1) Cons.prems(2) Cons.prems(3) [of x s u] have "P u" by simp
  ultimately show ?case using Cons.IH [of u] Cons.prems(3) by auto
qed

lemma each_rel:
  assumes "each f xs s = Some t" and "\<And>x u v. f x u = Some v \<Longrightarrow> R u v" and "\<And>u. R u u"
    and "\<And>u v w. R u v \<Longrightarrow> R v w \<Longrightarrow> R u w"
  shows "R s t"
  by (rule each_inv [OF assms(1), where P = "R s"]) (use assms(2-4) in blast)+

lemma each_append:
  "each f (xs @ ys) s = (case each f xs s of None \<Rightarrow> None | Some t \<Rightarrow> each f ys t)"
  by (induction xs arbitrary: s) (auto split: option.splits)

section \<open>Reachable states and invariants\<close>

inductive reach :: "('s \<Rightarrow> bool) \<Rightarrow> ('s \<Rightarrow> 's \<Rightarrow> bool) \<Rightarrow> 's \<Rightarrow> bool"
  for initial :: "'s \<Rightarrow> bool" and step :: "'s \<Rightarrow> 's \<Rightarrow> bool" where
  reach_init: "initial s \<Longrightarrow> reach initial step s"
| reach_step: "reach initial step s \<Longrightarrow> step s t \<Longrightarrow> reach initial step t"

locale invariant_system =
  fixes initial :: "'s \<Rightarrow> bool" and step :: "'s \<Rightarrow> 's \<Rightarrow> bool" and inv :: "'s \<Rightarrow> bool"
  assumes inv_initial: "initial s \<Longrightarrow> inv s"
    and inv_step: "inv s \<Longrightarrow> step s t \<Longrightarrow> inv t"
begin

lemma inv_reach: "reach initial step s \<Longrightarrow> inv s"
  by (induction rule: reach.induct) (auto intro: inv_initial inv_step)

lemma inv_path: "inv s \<Longrightarrow> step\<^sup>*\<^sup>* s t \<Longrightarrow> inv t"
  by (rotate_tac, induction rule: rtranclp_induct) (auto intro: inv_step)

lemma inv_next: "reach initial step s \<Longrightarrow> step s t \<Longrightarrow> inv t"
  by (rule inv_step [OF inv_reach])

end

lemma reach_path: "reach initial step s \<Longrightarrow> step\<^sup>*\<^sup>* s t \<Longrightarrow> reach initial step t"
  by (rotate_tac, induction rule: rtranclp_induct) (auto intro: reach_step)

section \<open>Searching and slicing strings\<close>

text \<open>\<open>s.find(c, from)\<close>, \<open>None\<close> being \<open>npos\<close>, and \<open>s.substr(from, count)\<close>.\<close>

fun find_char :: "char \<Rightarrow> string \<Rightarrow> nat option" where
  "find_char c [] = None"
| "find_char c (x # xs) = (if x = c then Some 0 else map_option Suc (find_char c xs))"

definition str_find :: "string \<Rightarrow> char \<Rightarrow> nat \<Rightarrow> nat option" where
  "str_find s c from = map_option (\<lambda>i. from + i) (find_char c (drop from s))"

definition substr :: "string \<Rightarrow> nat \<Rightarrow> nat \<Rightarrow> string" where
  "substr s from count = take count (drop from s)"

lemma find_char_None: "find_char c s = None \<longleftrightarrow> c \<notin> set s"
  by (induction s) auto

lemma find_char_Some:
  "find_char c s = Some i \<longleftrightarrow> i < length s \<and> s ! i = c \<and> c \<notin> set (take i s)"
proof (induction s arbitrary: i)
  case Nil
  then show ?case by simp
next
  case (Cons x s)
  then show ?case by (cases i) auto
qed

lemma find_char_append: "c \<notin> set a \<Longrightarrow> find_char c (a @ c # b) = Some (length a)"
  by (induction a) auto

lemma find_char_append_None: "c \<notin> set a \<Longrightarrow> find_char c a = None"
  by (simp add: find_char_None)

lemma find_char_split:
  "find_char c s = Some i \<Longrightarrow> s = take i s @ c # drop (Suc i) s"
  by (metis find_char_Some id_take_nth_drop)

section \<open>Splitting and joining strings\<close>

fun split_on :: "char \<Rightarrow> string \<Rightarrow> string list" where
  "split_on c [] = [[]]"
| "split_on c (x # xs) = (if x = c then [] # split_on c xs
     else (case split_on c xs of [] \<Rightarrow> [[x]] | p # ps \<Rightarrow> (x # p) # ps))"

fun join_with :: "char \<Rightarrow> string list \<Rightarrow> string" where
  "join_with c [] = []"
| "join_with c [p] = p"
| "join_with c (p # q # ps) = p @ c # join_with c (q # ps)"

lemma split_on_not_Nil [simp]: "split_on c s \<noteq> []"
  by (induction s) (auto split: list.splits)

lemma split_on_no_sep: "c \<notin> set s \<Longrightarrow> split_on c s = [s]"
  by (induction s) auto

lemma split_on_append: "c \<notin> set p \<Longrightarrow> split_on c (p @ c # s) = p # split_on c s"
  by (induction p) auto

lemma split_on_pieces: "p \<in> set (split_on c s) \<Longrightarrow> c \<notin> set p"
  by (induction s arbitrary: p) (auto split: list.splits if_splits)

lemma join_split [simp]: "join_with c (split_on c s) = s"
proof (induction s)
  case (Cons x s)
  then show ?case
    by (cases "split_on c s") (auto, metis (no_types) append_Cons join_with.simps(2,3) list.exhaust)
qed simp

lemma split_join: "ps \<noteq> [] \<Longrightarrow> \<forall>p \<in> set ps. c \<notin> set p \<Longrightarrow> split_on c (join_with c ps) = ps"
  by (induction c ps rule: join_with.induct) (auto simp: split_on_no_sep split_on_append)

lemma join_with_append:
  "ps \<noteq> [] \<Longrightarrow> qs \<noteq> [] \<Longrightarrow> join_with c (ps @ qs) = join_with c ps @ c # join_with c qs"
  by (induction c ps rule: join_with.induct) (auto simp: neq_Nil_conv)

lemma split_on_Cons_sep: "split_on c (c # s) = [] # split_on c s"
  by simp

lemma split_on_last: "split_on c (s @ [c]) = split_on c s @ [[]]"
  by (induction s) (auto split: list.splits)

lemma split_on_concat: "split_on c (s @ c # t) = split_on c s @ split_on c t"
  by (induction s) (auto split: list.splits)

section \<open>Reading a stream in blocks\<close>

text \<open>
  \<open>while (file.read(buf, n) || file.gcount() > 0)\<close>: the blocks the loop body sees. With
  \<open>n = 0\<close> every read succeeds with nothing read, so the loop does not end: \<open>None\<close>.
\<close>

partial_function (option) read_blocks :: "nat \<Rightarrow> bytes \<Rightarrow> bytes list \<Rightarrow> bytes list option" where
  "read_blocks n s acc =
     (if n \<noteq> 0 \<and> s = [] then Some acc
      else read_blocks n (drop n s) (acc @ [take n s]))"

fun blocks :: "nat \<Rightarrow> bytes \<Rightarrow> bytes list" where
  "blocks n s = (if n = 0 \<or> s = [] then [] else take n s # blocks n (drop n s))"

declare blocks.simps [simp del]

lemma blocks_Nil [simp]: "blocks n [] = []"
  by (simp add: blocks.simps)

lemma read_blocks_eq: "0 < n \<Longrightarrow> read_blocks n s acc = Some (acc @ blocks n s)"
proof (induction n s arbitrary: acc rule: blocks.induct)
  case (1 n s)
  then show ?case
    by (subst read_blocks.simps) (auto simp: blocks.simps [of n s])
qed

lemma concat_blocks: "0 < n \<Longrightarrow> concat (blocks n s) = s"
proof (induction n s rule: blocks.induct)
  case (1 n s)
  then show ?case by (cases "s = []") (auto simp: blocks.simps [of n s])
qed

lemma blocks_bounds: "b \<in> set (blocks n s) \<Longrightarrow> b \<noteq> [] \<and> length b \<le> n"
proof (induction n s rule: blocks.induct)
  case (1 n s)
  then show ?case by (auto simp: blocks.simps [of n s] split: if_splits)
qed

text \<open>With a zero block size the loop never returns.\<close>

lemma read_blocks_zero: "read_blocks 0 s acc = None"
proof (rule ccontr)
  assume "read_blocks 0 s acc \<noteq> None"
  then obtain r where ret: "read_blocks 0 s acc = Some r" by auto
  have "(0::nat) \<noteq> 0"
  proof (rule read_blocks.raw_induct [where P = "\<lambda>n s acc r. n \<noteq> 0", OF _ ret])
    fix f :: "nat \<Rightarrow> bytes \<Rightarrow> bytes list \<Rightarrow> bytes list option" and n s acc r
    assume IH: "\<And>n s acc r. f n s acc = Some r \<Longrightarrow> n \<noteq> 0"
      and eq: "(if n \<noteq> 0 \<and> s = [] then Some acc else f n (drop n s) (acc @ [take n s])) = Some r"
    show "n \<noteq> 0" using IH eq by (auto split: if_splits)
  qed
  then show False by simp
qed

end
