(* ===== verification/Stop_Token.thy ===== *)
theory Stop_Token
  imports Prelude
begin

text \<open>
  \<open>src/StopToken.cpp\<close>: the stop token, a \<open>std::mutex\<close> that is locked while the program runs. The
  state is the thread that owns the mutex, if any. A call returns, blocks, or is undefined
  behaviour where the standard says so: locking or trying a mutex the caller already owns, and
  unlocking one it does not own. \<open>spurious\<close> is the freedom of \<open>try_lock\<close> to fail on a free mutex.
\<close>

type_synonym thread = nat
type_synonym stop_token = "thread option"

datatype 'a call = Done 'a | Blocks | Undefined

definition mutex_lock :: "thread \<Rightarrow> stop_token \<Rightarrow> stop_token call" where
  "mutex_lock t m = (case m of None \<Rightarrow> Done (Some t) | Some u \<Rightarrow> if u = t then Undefined else Blocks)"

definition mutex_unlock :: "thread \<Rightarrow> stop_token \<Rightarrow> stop_token call" where
  "mutex_unlock t m = (if m = Some t then Done None else Undefined)"

definition mutex_try_lock :: "bool \<Rightarrow> thread \<Rightarrow> stop_token \<Rightarrow> (bool \<times> stop_token) call" where
  "mutex_try_lock spurious t m = (case m of
       None \<Rightarrow> Done (if spurious then (False, m) else (True, Some t))
     | Some u \<Rightarrow> if u = t then Undefined else Done (False, m))"

definition CreateStopToken :: stop_token where
  "CreateStopToken = None"

definition Start :: "thread \<Rightarrow> stop_token \<Rightarrow> stop_token call" where
  "Start t m = mutex_lock t m"

definition RequestStop :: "thread \<Rightarrow> stop_token \<Rightarrow> stop_token call" where
  "RequestStop t m = mutex_unlock t m"

definition StopRequested :: "bool \<Rightarrow> thread \<Rightarrow> stop_token \<Rightarrow> (bool \<times> stop_token) call" where
  "StopRequested spurious t m = (case mutex_try_lock spurious t m of
       Done (True, m') \<Rightarrow>
         (case RequestStop t m' of Done m'' \<Rightarrow> Done (True, m'') | Blocks \<Rightarrow> Blocks | Undefined \<Rightarrow> Undefined)
     | Done (False, m') \<Rightarrow> Done (False, m')
     | Blocks \<Rightarrow> Blocks
     | Undefined \<Rightarrow> Undefined)"

lemmas stop_token_defs = mutex_lock_def mutex_unlock_def mutex_try_lock_def
  CreateStopToken_def Start_def RequestStop_def StopRequested_def

text \<open>
  The documented protocol works when one thread starts and stops the token and another one
  polls it: before \<open>Start\<close> a poll finds the token not running, after \<open>Start\<close> it answers false,
  after \<open>RequestStop\<close> true (a spurious \<open>try_lock\<close> failure aside), and no poll changes the token.
\<close>

theorem stop_token_protocol:
  assumes "t \<noteq> u"
  shows "StopRequested False u CreateStopToken = Done (True, CreateStopToken) \<and>
    (\<exists>m. Start t CreateStopToken = Done m \<and>
      StopRequested spurious u m = Done (False, m) \<and>
      (\<exists>m'. RequestStop t m = Done m' \<and> StopRequested False u m' = Done (True, m') \<and>
        StopRequested True u m' = Done (False, m')))"
  using assms by (simp add: stop_token_defs)

theorem stop_token_protocol_witness:
  "\<exists>m. Start 0 CreateStopToken = Done m \<and> StopRequested False 1 m = Done (False, m)"
  using stop_token_protocol [of 0 1 False] by auto

text \<open>
  The thread that started the token must not poll it, and a second stop request is as bad: in
  \<open>main\<close> the polling loop runs on the thread that called \<open>Start\<close>, so its first poll is undefined
  behaviour, and so is the unlock of a second interrupt signal.
\<close>

theorem stop_token_misuse:
  assumes "Start t m = Done m'"
  shows "StopRequested spurious t m' = Undefined \<and>
    (\<forall>m''. RequestStop t m' = Done m'' \<longrightarrow> RequestStop u m'' = Undefined)"
  using assms by (auto simp: stop_token_defs split: option.splits if_splits)

theorem stop_token_misuse_witness:
  "StopRequested False 0 (Some 0) = Undefined \<and> RequestStop 0 None = Undefined"
  using stop_token_misuse [of 0 None "Some 0" False 0] by (simp add: stop_token_defs)

end
