(* ===== verification/Message_Port.thy ===== *)
theory Message_Port
  imports Prelude
begin

text \<open>
  The transport: the base class of \<open>include/MessagePort.hpp\<close> and the listening endpoint of
  \<open>src/MessagePortServer.cpp\<close>. uWebSockets itself is not modelled: what the code relies on is that
  a socket, once upgraded, carries its \<open>PerSocketData\<close> until its close handler has run and is gone
  afterwards. \<open>ws_data\<close> is that memory, and sending on a socket that is not in it (a dangling
  \<open>Ws*\<close>) is undefined: \<open>None\<close>. \<open>outgoing\<close> is the history of the \<open>send\<close> calls. The locale
  \<open>live_sockets\<close> is the contract the signalling server relies on.
\<close>

record message_port =
  m_isRunning :: bool
  m_stopRequested :: bool
  m_serverThread :: bool \<comment> \<open>the thread is joinable\<close>

text \<open>\<open>None\<close>: the caller waits.\<close>

definition WaitUntilRunning :: "'a message_port_scheme \<Rightarrow> bool option" where
  "WaitUntilRunning mp = (if m_isRunning mp \<or> m_stopRequested mp then Some (m_isRunning mp) else None)"

record port_server = message_port +
  m_listenSocket :: bool
  ws_data :: "ws \<rightharpoonup> string"
  clients :: "string \<rightharpoonup> ws"
  outgoing :: "(ws \<times> string) list"

definition port_server_init :: port_server where
  "port_server_init = \<lparr>m_isRunning = False, m_stopRequested = False, m_serverThread = False,
     m_listenSocket = False, ws_data = Map.empty, clients = Map.empty, outgoing = []\<rparr>"

text \<open>Assigning a thread to a joinable \<open>std::thread\<close> terminates the program: \<open>None\<close>.\<close>

definition PortServer_Start :: "port_server \<Rightarrow> (bool \<times> port_server) option" where
  "PortServer_Start p =
     (if m_isRunning p then Some (False, p)
      else if m_serverThread p then None
      else Some (True, p\<lparr>m_stopRequested := False, m_serverThread := True\<rparr>))"

definition PortServer_listen :: "bool \<Rightarrow> port_server \<Rightarrow> port_server" where
  "PortServer_listen ok p =
     (if ok then p\<lparr>m_listenSocket := True, m_isRunning := True\<rparr>
      else p\<lparr>m_isRunning := False, m_stopRequested := True\<rparr>)"

definition PortServer_upgrade :: "ws \<Rightarrow> string \<Rightarrow> port_server \<Rightarrow> port_server" where
  "PortServer_upgrade w x_client_id p = p\<lparr>ws_data := (ws_data p)(w \<mapsto> x_client_id)\<rparr>"

definition PortServer_open :: "ws \<Rightarrow> port_server \<Rightarrow> port_server" where
  "PortServer_open w p = (case ws_data p w of None \<Rightarrow> p
     | Some cid \<Rightarrow> if clients p cid = None then p\<lparr>clients := (clients p)(cid \<mapsto> w)\<rparr> else p)"

definition PortServer_close :: "ws \<Rightarrow> port_server \<Rightarrow> port_server" where
  "PortServer_close w p = (case ws_data p w of None \<Rightarrow> p
     | Some cid \<Rightarrow> if clients p cid = Some w then p\<lparr>clients := (clients p)(cid := None)\<rparr> else p)"

definition PortServer_free :: "ws \<Rightarrow> port_server \<Rightarrow> port_server" where
  "PortServer_free w p = p\<lparr>ws_data := (ws_data p)(w := None)\<rparr>"

text \<open>The server endpoint never sends by itself: \<open>Send\<close> is a placeholder.\<close>

definition PortServer_Send :: "string \<Rightarrow> port_server \<Rightarrow> bool" where
  "PortServer_Send message p = False"

definition PortServer_IsRunning :: "port_server \<Rightarrow> bool" where
  "PortServer_IsRunning p = m_isRunning p"

definition ws_send :: "ws \<Rightarrow> string \<Rightarrow> port_server \<Rightarrow> port_server option" where
  "ws_send w msg p =
     (if ws_data p w = None then None else Some (p\<lparr>outgoing := outgoing p @ [(w, msg)]\<rparr>))"

text \<open>
  \<open>Stop\<close>: the flags at once, then (unless it was already stopped) the deferred task that closes
  the listener and ends every tracked socket, whose close handlers run; the join follows.
\<close>

definition PortServer_Stop_flags :: "port_server \<Rightarrow> bool \<times> port_server" where
  "PortServer_Stop_flags p =
     (\<not> m_isRunning p \<and> \<not> m_serverThread p, p\<lparr>m_isRunning := False, m_stopRequested := True\<rparr>)"

definition PortServer_end :: "ws \<Rightarrow> port_server \<Rightarrow> port_server" where
  "PortServer_end w p = PortServer_free w (PortServer_close w p)"

definition PortServer_Stop_deferred :: "port_server \<Rightarrow> port_server" where
  "PortServer_Stop_deferred p =
     (let connected = clients p in
      (fold (\<lambda>cid. PortServer_end (the (connected cid))) (map_keys connected)
         (p\<lparr>m_listenSocket := False\<rparr>)))"

lemmas port_server_defs = PortServer_Start_def PortServer_listen_def PortServer_upgrade_def
  PortServer_open_def PortServer_close_def PortServer_free_def PortServer_Stop_flags_def
  PortServer_end_def

section \<open>The contract of live sockets\<close>

locale live_sockets =
  fixes live :: "'p \<Rightarrow> ws \<rightharpoonup> string" and send :: "ws \<Rightarrow> string \<Rightarrow> 'p \<Rightarrow> 'p option"
    and sent :: "'p \<Rightarrow> (ws \<times> string) list"
  assumes send_dead: "live p w = None \<Longrightarrow> send w m p = None"
    and send_live: "live p w = Some i \<Longrightarrow> \<exists>q. send w m p = Some q"
    and live_send: "send w m p = Some q \<Longrightarrow> live q = live p"
    and sent_send: "send w m p = Some q \<Longrightarrow> sent q = sent p @ [(w, m)]"
begin

lemma send_defined: "(\<exists>q. send w m p = Some q) \<longleftrightarrow> live p w \<noteq> None"
  using send_dead send_live by fastforce

lemma broadcast:
  assumes "\<And>w. w \<in> set ws \<Longrightarrow> live p w \<noteq> None"
  shows "\<exists>q. each (\<lambda>w. send w (f w)) ws p = Some q \<and> live q = live p \<and>
    sent q = sent p @ map (\<lambda>w. (w, f w)) ws"
  using assms
proof (induction ws arbitrary: p)
  case Nil
  then show ?case by simp
next
  case (Cons w ws)
  from Cons.prems [of w] obtain p' where p': "send w (f w) p = Some p'"
    using send_defined by fastforce
  then have "live p' = live p" "sent p' = sent p @ [(w, f w)]"
    by (simp_all add: live_send sent_send)
  with Cons.IH [of p'] Cons.prems p' show ?case by simp
qed

end

interpretation port: live_sockets ws_data ws_send outgoing
  by unfold_locales (auto simp: ws_send_def split: if_splits)

section \<open>Which sockets the listener tracks\<close>

definition port_inv :: "port_server \<Rightarrow> bool" where
  "port_inv p \<longleftrightarrow> finite (dom (clients p)) \<and>
     (\<forall>cid w. clients p cid = Some w \<longrightarrow> ws_data p w = Some cid)"

lemma port_inv_init [inv_intros]: "port_inv port_server_init"
  by (simp add: port_inv_def port_server_init_def)

lemma port_inv_open [inv_intros]:
  "port_inv p \<Longrightarrow> ws_data p w = None \<Longrightarrow> port_inv (PortServer_open w (PortServer_upgrade w cid p))"
  by (auto simp: port_inv_def PortServer_open_def PortServer_upgrade_def)

lemma port_inv_close [inv_intros]: "port_inv p \<Longrightarrow> port_inv (PortServer_close w p)"
  by (auto simp: port_inv_def PortServer_close_def split: option.splits)

lemma port_inv_end [inv_intros]: "port_inv p \<Longrightarrow> port_inv (PortServer_end w p)"
  by (auto simp: port_inv_def PortServer_end_def PortServer_close_def PortServer_free_def
      split: option.splits) (metis option.inject)+

lemma port_inv_send [inv_intros]: "port_inv p \<Longrightarrow> ws_send w m p = Some q \<Longrightarrow> port_inv q"
  by (auto simp: port_inv_def ws_send_def split: if_splits)

lemma ws_data_end: "ws_data (PortServer_end w p) = (ws_data p)(w := None)"
  by (simp add: PortServer_end_def PortServer_close_def PortServer_free_def split: option.splits)

lemma clients_end:
  "port_inv p \<Longrightarrow> clients p cid = Some w \<Longrightarrow> clients (PortServer_end w p) = (clients p)(cid := None)"
  by (simp add: port_inv_def PortServer_end_def PortServer_close_def PortServer_free_def)

lemma ws_data_fold_end:
  "ws_data (fold (\<lambda>c. PortServer_end (f c)) cs p) = (\<lambda>w. if w \<in> f ` set cs then None else ws_data p w)"
  by (induction cs arbitrary: p) (auto simp: ws_data_end fun_eq_iff)

text \<open>
  Stopping the listener ends exactly the sockets it tracks, so the loop is left with the live
  sockets that were never tracked: those of a client id that was already connected when they opened.
\<close>

theorem port_stop_ends_tracked:
  assumes "port_inv p"
  shows "ws_data (PortServer_Stop_deferred p) =
    (\<lambda>w. if w \<in> ran (clients p) then None else ws_data p w)"
proof -
  have "(\<lambda>cid. the (clients p cid)) ` dom (clients p) = ran (clients p)"
    by (force simp: ran_def dom_def)
  with assms show ?thesis
    by (simp add: PortServer_Stop_deferred_def Let_def ws_data_fold_end port_inv_def fun_eq_iff)
qed

text \<open>Two connections of one client: only the first is tracked.\<close>

definition two_of_one :: port_server where
  "two_of_one = PortServer_open 2 (PortServer_upgrade 2 ''bob''
     (PortServer_open 1 (PortServer_upgrade 1 ''bob'' port_server_init)))"

lemma port_inv_two_of_one: "port_inv two_of_one"
  unfolding two_of_one_def
  by (intro port_inv_open port_inv_init) (simp_all add: port_server_init_def port_server_defs)

theorem port_stop_ends_tracked_witness:
  "ws_data (PortServer_Stop_deferred two_of_one) 1 = None \<and>
   ws_data (PortServer_Stop_deferred two_of_one) 2 = Some ''bob''"
proof -
  have "ran (clients two_of_one) = {1}" and "ws_data two_of_one 2 = Some ''bob''"
    by (auto simp: two_of_one_def port_server_init_def port_server_defs ran_def)
  then show ?thesis
    using port_stop_ends_tracked [OF port_inv_two_of_one] by simp
qed

end
