(* ===== verification/Port_Client.thy ===== *)
theory Port_Client
  imports Message_Port
begin

text \<open>
  \<open>src/MessagePortClient.cpp\<close>: the connecting endpoint, whose thread makes one socket after another
  until \<open>Stop\<close>. IXWebSocket is not modelled; what the code relies on is the order of a socket's events
  (a started socket opens or fails, an open one closes, nothing happens to it after \<open>stop()\<close>, which
  closes it if it is open), and \<open>sockets\<close> is that phase of every socket made so far. The thread is a
  program counter over the locked sections of its loop, so callbacks and callers run between them.
  Time is in seconds.
\<close>

datatype ix_phase = Ix_made | Ix_connecting | Ix_open | Ix_down | Ix_stopped

datatype thread_pc =
    No_thread
  | At_make
  | At_install nat
  | At_start
  | At_wait
  | At_stop
  | At_check
  | At_backoff
  | At_exit

record port_client = message_port +
  m_socket :: "nat option"
  m_disconnected :: bool
  m_reconnectDelay :: int
  sockets :: "ix_phase list"
  at :: thread_pc

definition port_client_init :: port_client where
  "port_client_init = \<lparr>m_isRunning = False, m_stopRequested = False, m_serverThread = False,
     m_socket = None, m_disconnected = False, m_reconnectDelay = 0, sockets = [], at = No_thread\<rparr>"

text \<open>\<open>MessagePort::Create\<close> (\<open>src/MessagePortFactory.cpp\<close>).\<close>

datatype port_type = Server | Client

definition MessagePort_Create :: "port_type \<Rightarrow> port_server + port_client" where
  "MessagePort_Create type = (if type = Server then Inl port_server_init else Inr port_client_init)"

definition PortClient_SetReconnectDelay :: "int \<Rightarrow> port_client \<Rightarrow> port_client" where
  "PortClient_SetReconnectDelay delay p = p\<lparr>m_reconnectDelay := delay\<rparr>"

definition reconnect_delay :: "port_client \<Rightarrow> int" where
  "reconnect_delay p = max (m_reconnectDelay p) 1"

text \<open>Assigning a thread to a joinable \<open>std::thread\<close> terminates the program: \<open>None\<close>.\<close>

definition PortClient_Start :: "port_client \<Rightarrow> (bool \<times> port_client) option" where
  "PortClient_Start p =
     (if m_isRunning p then Some (False, p)
      else if m_serverThread p then None
      else Some (True, p\<lparr>m_stopRequested := False, m_serverThread := True, at := At_make\<rparr>))"

definition set_phase :: "ix_phase \<Rightarrow> port_client \<Rightarrow> port_client" where
  "set_phase ph p = (case m_socket p of None \<Rightarrow> p | Some n \<Rightarrow> p\<lparr>sockets := (sockets p)[n := ph]\<rparr>)"

definition phase :: "port_client \<Rightarrow> ix_phase option" where
  "phase p = (case m_socket p of None \<Rightarrow> None | Some n \<Rightarrow> if n < length (sockets p) then Some (sockets p ! n) else None)"

text \<open>
  One locked section of the thread. \<open>waited\<close> is the time since the wait began, which only the wait
  between two attempts looks at; \<open>None\<close> when the thread stays blocked.
\<close>

definition thread_step :: "int \<Rightarrow> port_client \<Rightarrow> port_client option" where
  "thread_step waited p = (case at p of
     No_thread \<Rightarrow> None
   | At_make \<Rightarrow> Some (p\<lparr>sockets := sockets p @ [Ix_made], at := At_install (length (sockets p))\<rparr>)
   | At_install n \<Rightarrow> Some (if m_stopRequested p then p\<lparr>sockets := (sockets p)[n := Ix_stopped], at := At_exit\<rparr>
       else p\<lparr>m_disconnected := False, m_socket := Some n, at := At_start\<rparr>)
   | At_start \<Rightarrow> Some ((set_phase Ix_connecting p)\<lparr>at := At_wait\<rparr>)
   | At_wait \<Rightarrow> if m_disconnected p \<or> m_stopRequested p then Some (p\<lparr>at := At_stop\<rparr>) else None
   | At_stop \<Rightarrow> Some ((set_phase Ix_stopped (if phase p = Some Ix_open
         then p\<lparr>m_isRunning := False, m_disconnected := True\<rparr> else p))\<lparr>at := At_check\<rparr>)
   | At_check \<Rightarrow> Some (p\<lparr>at := if m_stopRequested p then At_exit else At_backoff\<rparr>)
   | At_backoff \<Rightarrow> if m_stopRequested p then Some (p\<lparr>at := At_exit\<rparr>)
       else if reconnect_delay p \<le> waited then Some (p\<lparr>at := At_make\<rparr>) else None
   | At_exit \<Rightarrow> None)"

text \<open>The events of the socket in use, as the callback of \<open>MakeSocket\<close> handles them.\<close>

definition on_ix_open :: "port_client \<Rightarrow> port_client" where
  "on_ix_open p = (set_phase Ix_open p)\<lparr>m_isRunning := \<not> m_stopRequested p\<rparr>"

definition on_ix_close :: "port_client \<Rightarrow> port_client" where
  "on_ix_close p = (set_phase Ix_down p)\<lparr>m_isRunning := False, m_disconnected := True\<rparr>"

definition on_ix_error :: "port_client \<Rightarrow> port_client" where
  "on_ix_error p = (set_phase Ix_down p)\<lparr>m_isRunning := False, m_disconnected := True\<rparr>"

definition PortClient_Send :: "(string \<Rightarrow> bool) \<Rightarrow> string \<Rightarrow> port_client \<Rightarrow> bool" where
  "PortClient_Send ix_send message p = (m_socket p \<noteq> None \<and> m_isRunning p \<and> ix_send message)"

definition PortClient_IsRunning :: "port_client \<Rightarrow> bool" where
  "PortClient_IsRunning p = m_isRunning p"

text \<open>\<open>Stop\<close>: the flags, and the join, which waits for the thread to have exited.\<close>

definition PortClient_Stop_flags :: "port_client \<Rightarrow> port_client" where
  "PortClient_Stop_flags p = p\<lparr>m_isRunning := False, m_stopRequested := True\<rparr>"

definition PortClient_Stop_join :: "port_client \<Rightarrow> port_client option" where
  "PortClient_Stop_join p =
     (if \<not> m_serverThread p then Some p
      else if at p = At_exit then Some (p\<lparr>m_serverThread := False, at := No_thread\<rparr>) else None)"

lemmas port_client_defs = PortClient_SetReconnectDelay_def PortClient_Start_def set_phase_def phase_def
  thread_step_def on_ix_open_def on_ix_close_def on_ix_error_def PortClient_Stop_flags_def
  PortClient_Stop_join_def

inductive port_client_step :: "port_client \<Rightarrow> port_client \<Rightarrow> bool" where
  pc_thread: "thread_step waited p = Some q \<Longrightarrow> port_client_step p q"
| pc_open: "phase p = Some Ix_connecting \<Longrightarrow> port_client_step p (on_ix_open p)"
| pc_error: "phase p = Some Ix_connecting \<Longrightarrow> port_client_step p (on_ix_error p)"
| pc_close: "phase p = Some Ix_open \<Longrightarrow> port_client_step p (on_ix_close p)"
| pc_start: "PortClient_Start p = Some (b, q) \<Longrightarrow> port_client_step p q"
| pc_delay: "port_client_step p (PortClient_SetReconnectDelay d p)"
| pc_stop: "port_client_step p (PortClient_Stop_flags p)"
| pc_join: "m_stopRequested p \<Longrightarrow> PortClient_Stop_join p = Some q \<Longrightarrow> port_client_step p q"

section \<open>Invariant\<close>

text \<open>The socket the thread is working with; every other one is stopped.\<close>

definition in_use :: "port_client \<Rightarrow> nat option" where
  "in_use p = (case at p of At_install k \<Rightarrow> Some k | At_start \<Rightarrow> m_socket p | At_wait \<Rightarrow> m_socket p
     | At_stop \<Rightarrow> m_socket p | _ \<Rightarrow> None)"

definition phases_at :: "thread_pc \<Rightarrow> ix_phase set" where
  "phases_at c = (case c of At_install k \<Rightarrow> {Ix_made} | At_start \<Rightarrow> {Ix_made}
     | At_wait \<Rightarrow> {Ix_connecting, Ix_open, Ix_down} | At_stop \<Rightarrow> {Ix_connecting, Ix_open, Ix_down} | _ \<Rightarrow> {})"

definition port_client_inv :: "port_client \<Rightarrow> bool" where
  "port_client_inv p \<longleftrightarrow>
     (m_stopRequested p \<longrightarrow> \<not> m_isRunning p) \<and>
     (m_isRunning p \<longrightarrow> phase p = Some Ix_open) \<and>
     (m_serverThread p \<longleftrightarrow> at p \<noteq> No_thread) \<and>
     (phase p = Some Ix_down \<longrightarrow> m_disconnected p) \<and>
     (at p = At_start \<longrightarrow> \<not> m_disconnected p) \<and>
     (at p = At_wait \<and> m_disconnected p \<longrightarrow> phase p = Some Ix_down) \<and>
     (at p = At_stop \<and> \<not> m_stopRequested p \<longrightarrow> phase p = Some Ix_down) \<and>
     (at p = At_exit \<longrightarrow> m_stopRequested p) \<and>
     (\<forall>n. m_socket p = Some n \<longrightarrow> n < length (sockets p)) \<and>
     (at p = At_start \<or> at p = At_wait \<or> at p = At_stop \<longrightarrow> m_socket p \<noteq> None) \<and>
     (\<forall>n. in_use p = Some n \<longrightarrow> n < length (sockets p) \<and> sockets p ! n \<in> phases_at (at p)) \<and>
     (\<forall>i < length (sockets p). in_use p \<noteq> Some i \<longrightarrow> sockets p ! i = Ix_stopped)"

lemma port_client_inv_init: "p = port_client_init \<Longrightarrow> port_client_inv p"
  by (simp add: port_client_inv_def port_client_init_def phase_def phases_at_def in_use_def)

lemma set_phase_simps [simp]:
  "at (set_phase ph p) = at p" "m_socket (set_phase ph p) = m_socket p"
  "m_stopRequested (set_phase ph p) = m_stopRequested p" "m_isRunning (set_phase ph p) = m_isRunning p"
  "m_serverThread (set_phase ph p) = m_serverThread p" "m_disconnected (set_phase ph p) = m_disconnected p"
  "length (sockets (set_phase ph p)) = length (sockets p)"
  by (simp_all add: set_phase_def split: option.splits)

lemma sockets_set_phase:
  "i < length (sockets p) \<Longrightarrow> sockets (set_phase ph p) ! i = (if m_socket p = Some i then ph else sockets p ! i)"
  by (auto simp: set_phase_def nth_list_update split: option.splits)

lemma in_use_flags [simp]:
  "in_use (p\<lparr>m_isRunning := a, m_stopRequested := b\<rparr>) = in_use p" "in_use (p\<lparr>m_isRunning := a\<rparr>) = in_use p"
  "in_use (p\<lparr>m_isRunning := a, m_disconnected := b\<rparr>) = in_use p" "in_use (p\<lparr>m_reconnectDelay := d\<rparr>) = in_use p"
  "in_use (set_phase ph p) = in_use p"
  by (simp_all add: in_use_def set_phase_def split: option.splits thread_pc.splits)

lemma phase_flags [simp]:
  "phase (p\<lparr>m_isRunning := a, m_stopRequested := b\<rparr>) = phase p" "phase (p\<lparr>m_isRunning := a\<rparr>) = phase p"
  "phase (p\<lparr>m_isRunning := a, m_disconnected := b\<rparr>) = phase p" "phase (p\<lparr>m_reconnectDelay := d\<rparr>) = phase p"
  "phase (p\<lparr>at := c\<rparr>) = phase p"
  by (simp_all add: phase_def split: option.splits)

lemma phase_set [simp]: "phase (set_phase ph p) = (if phase p = None then None else Some ph)"
  by (auto simp: phase_def set_phase_def split: option.splits)

lemma phase_Some: "phase p = Some ph \<longleftrightarrow> (\<exists>n < length (sockets p). m_socket p = Some n \<and> sockets p ! n = ph)"
  by (auto simp: phase_def split: option.splits)

lemma inv_phase:
  "port_client_inv p \<Longrightarrow> phase p = Some ph \<Longrightarrow> ph \<in> {Ix_connecting, Ix_open, Ix_down} \<Longrightarrow>
   at p = At_wait \<or> at p = At_stop"
  by (cases "at p") (auto simp: port_client_inv_def phase_Some in_use_def phases_at_def)

lemma inv_thread:
  assumes "port_client_inv p" and "thread_step t p = Some q"
  shows "port_client_inv q"
proof (cases "at p")
  case (At_install k)
  then have u: "in_use p = Some k" by (simp add: in_use_def)
  have i: "k < length (sockets p)" "sockets p ! k = Ix_made" "m_serverThread p" "m_stopRequested p \<longrightarrow> \<not> m_isRunning p"
    "\<And>n. m_socket p = Some n \<Longrightarrow> n < length (sockets p)"
    "\<And>i. i < length (sockets p) \<Longrightarrow> i \<noteq> k \<Longrightarrow> sockets p ! i = Ix_stopped"
    "m_isRunning p \<Longrightarrow> phase p = Some Ix_open"
    using assms(1) u At_install by (auto simp: port_client_inv_def phases_at_def)
  then have "\<not> m_isRunning p" by (fastforce simp: phase_Some)
  show ?thesis
  proof (cases "m_stopRequested p")
    case True
    with assms(2) At_install have "q = p\<lparr>sockets := (sockets p)[k := Ix_stopped], at := At_exit\<rparr>"
      by (simp add: thread_step_def)
    with i True \<open>\<not> m_isRunning p\<close> show ?thesis
      by (auto simp: port_client_inv_def in_use_def phases_at_def phase_Some nth_list_update)
  next
    case False
    with assms(2) At_install have "q = p\<lparr>m_disconnected := False, m_socket := Some k, at := At_start\<rparr>"
      by (simp add: thread_step_def)
    with i False \<open>\<not> m_isRunning p\<close> show ?thesis
      by (auto simp: port_client_inv_def in_use_def phases_at_def phase_Some)
  qed
next
  case At_make
  then have q: "q = p\<lparr>sockets := sockets p @ [Ix_made], at := At_install (length (sockets p))\<rparr>"
    using assms(2) by (simp add: thread_step_def)
  have i: "m_serverThread p" "\<And>n. m_socket p = Some n \<Longrightarrow> n < length (sockets p)"
    "\<And>i. i < length (sockets p) \<Longrightarrow> sockets p ! i = Ix_stopped" "m_stopRequested p \<longrightarrow> \<not> m_isRunning p"
    "m_isRunning p \<Longrightarrow> phase p = Some Ix_open"
    using assms(1) At_make by (auto simp: port_client_inv_def in_use_def)
  then have "\<not> m_isRunning p" by (fastforce simp: phase_Some)
  with i show ?thesis
    by (auto simp: q port_client_inv_def in_use_def phases_at_def phase_Some nth_append less_Suc_eq)
next
  case At_start
  then obtain n where n: "m_socket p = Some n" "n < length (sockets p)" "in_use p = Some n" "sockets p ! n = Ix_made"
    using assms(1) by (auto simp: port_client_inv_def in_use_def phases_at_def)
  have q: "q = (set_phase Ix_connecting p)\<lparr>at := At_wait\<rparr>"
    using assms(2) At_start by (simp add: thread_step_def)
  have i: "m_serverThread p" "\<not> m_disconnected p" "m_isRunning p \<longrightarrow> phase p = Some Ix_open"
    "\<And>i. i < length (sockets p) \<Longrightarrow> i \<noteq> n \<Longrightarrow> sockets p ! i = Ix_stopped"
    using assms(1) At_start n(3) by (auto simp: port_client_inv_def)
  have ph: "phase p = Some Ix_made" using n by (simp add: phase_def)
  have "in_use q = Some n" using n(1) by (simp add: q in_use_def)
  with i n ph show ?thesis
    by (simp add: q port_client_inv_def phases_at_def sockets_set_phase)
next
  case At_wait
  then have "q = p\<lparr>at := At_stop\<rparr>" "m_disconnected p \<or> m_stopRequested p"
    using assms(2) by (auto simp: thread_step_def split: if_splits)
  moreover have "in_use (p\<lparr>at := At_stop\<rparr>) = in_use p" using At_wait by (simp add: in_use_def)
  ultimately show ?thesis
    using assms(1) At_wait by (auto simp: port_client_inv_def phases_at_def)
next
  case At_stop
  then have u: "in_use p = m_socket p" by (simp add: in_use_def)
  obtain n where n: "m_socket p = Some n" "n < length (sockets p)"
    using assms(1) At_stop by (auto simp: port_client_inv_def)
  define r where "r = (if phase p = Some Ix_open then p\<lparr>m_isRunning := False, m_disconnected := True\<rparr> else p)"
  have q: "q = (set_phase Ix_stopped r)\<lparr>at := At_check\<rparr>"
    using assms(2) At_stop by (simp add: thread_step_def r_def)
  have r: "m_socket r = Some n" "length (sockets r) = length (sockets p)" "m_serverThread r" "\<not> m_isRunning r"
    "\<And>i. i < length (sockets p) \<Longrightarrow> i \<noteq> n \<Longrightarrow> sockets r ! i = Ix_stopped"
    using assms(1) At_stop n u by (auto simp: port_client_inv_def r_def)
  then have a: "sockets (set_phase Ix_stopped r) ! i = Ix_stopped" if "i < length (sockets p)" for i
    using that by (simp add: sockets_set_phase)
  show ?thesis
    unfolding q port_client_inv_def using r n a by (simp add: in_use_def phases_at_def phase_Some)
next
  case At_check
  then have "q = p\<lparr>at := if m_stopRequested p then At_exit else At_backoff\<rparr>"
    using assms(2) by (simp add: thread_step_def)
  moreover have "in_use p = None" "in_use (p\<lparr>at := At_exit\<rparr>) = None" "in_use (p\<lparr>at := At_backoff\<rparr>) = None"
    using At_check by (simp_all add: in_use_def)
  ultimately show ?thesis
    using assms(1) At_check by (cases "m_stopRequested p") (simp_all add: port_client_inv_def phases_at_def)
next
  case At_backoff
  then have "q = p\<lparr>at := At_make\<rparr> \<and> \<not> m_stopRequested p \<or> q = p\<lparr>at := At_exit\<rparr> \<and> m_stopRequested p"
    using assms(2) by (auto simp: thread_step_def split: if_splits)
  moreover have "in_use p = None" "in_use (p\<lparr>at := At_exit\<rparr>) = None" "in_use (p\<lparr>at := At_make\<rparr>) = None"
    using At_backoff by (simp_all add: in_use_def)
  ultimately show ?thesis
    using assms(1) At_backoff by (auto simp: port_client_inv_def phases_at_def)
qed (use assms in \<open>simp_all add: thread_step_def\<close>)

lemma inv_event:
  assumes "port_client_inv p" and "phase p = Some x" and "x = Ix_connecting \<or> x = Ix_open" and "r \<longrightarrow> \<not> m_stopRequested p"
  shows "port_client_inv ((set_phase Ix_down p)\<lparr>m_isRunning := False, m_disconnected := True\<rparr>)"
    and "port_client_inv ((set_phase Ix_open p)\<lparr>m_isRunning := r\<rparr>)"
proof -
  obtain n where n: "n < length (sockets p)" "m_socket p = Some n" "sockets p ! n = x"
    using assms(2) by (auto simp: phase_Some)
  have c: "at p = At_wait \<or> at p = At_stop" using inv_phase [OF assms(1,2)] assms(3) by auto
  then have u: "in_use p = Some n" using n by (auto simp: in_use_def)
  have o: "sockets p ! i = Ix_stopped" if "i < length (sockets p)" "i \<noteq> n" for i
    using assms(1) u that by (auto simp: port_client_inv_def)
  have th: "m_serverThread p" using assms(1) c by (auto simp: port_client_inv_def)
  have sr: "m_stopRequested p \<longrightarrow> \<not> m_isRunning p" using assms(1) by (simp add: port_client_inv_def)
  show "port_client_inv ((set_phase Ix_down p)\<lparr>m_isRunning := False, m_disconnected := True\<rparr>)"
    unfolding port_client_inv_def using c n u o th sr assms(2)
    by (auto simp: sockets_set_phase phases_at_def)
  have st: "at p = At_stop \<longrightarrow> m_stopRequested p" "at p = At_wait \<longrightarrow> \<not> m_disconnected p"
    using assms by (auto simp: port_client_inv_def)
  show "port_client_inv ((set_phase Ix_open p)\<lparr>m_isRunning := r\<rparr>)"
    unfolding port_client_inv_def using c n u o th st assms(2,4)
    by (auto simp: sockets_set_phase phases_at_def)
qed

lemma port_client_inv_step: "port_client_inv p \<Longrightarrow> port_client_step p q \<Longrightarrow> port_client_inv q"
proof (rotate_tac, induction rule: port_client_step.induct)
  case (pc_thread t p q)
  then show ?case by (auto intro: inv_thread)
next
  case (pc_start p b q)
  then show ?case
    by (auto simp: port_client_inv_def PortClient_Start_def phase_Some in_use_def phases_at_def split: if_splits)
next
  case (pc_join p q)
  then show ?case
    by (auto simp: port_client_inv_def PortClient_Stop_join_def phase_Some in_use_def phases_at_def split: if_splits)
next
  case (pc_stop p)
  then show ?case by (simp add: port_client_inv_def PortClient_Stop_flags_def phase_Some)
next
  case (pc_delay p)
  then show ?case by (simp add: port_client_inv_def PortClient_SetReconnectDelay_def phase_Some)
next
  case (pc_open p)
  then show ?case unfolding on_ix_open_def by (auto intro: inv_event(2))
next
  case (pc_error p)
  then show ?case
    using inv_event(1) [OF pc_error(2,1), of False] by (simp add: on_ix_error_def)
next
  case (pc_close p)
  then show ?case using inv_event(1) [OF pc_close(2,1), of False] by (simp add: on_ix_close_def)
qed

interpretation pcl: invariant_system "\<lambda>p. p = port_client_init" port_client_step port_client_inv
  by unfold_locales (auto intro: port_client_inv_init port_client_inv_step)

section \<open>What the endpoint guarantees\<close>

lemma card_le_one: "(\<And>i. i \<in> S \<Longrightarrow> u = Some i) \<Longrightarrow> card S \<le> 1" for S :: "nat set"
proof -
  assume "\<And>i. i \<in> S \<Longrightarrow> u = Some i"
  then have "S \<subseteq> set_option u" by auto
  then have "card S \<le> card (set_option u)" by (intro card_mono) auto
  then show "card S \<le> 1" by (cases u) auto
qed

text \<open>
  C26: at any moment at most one socket of the client is alive, a message is only handed to a socket
  that is open, after a stop request the client never counts as running again (an opening that was
  under way included), and once the thread is gone every socket has been stopped.
\<close>

theorem one_live_socket:
  assumes "reach (\<lambda>p. p = port_client_init) port_client_step p"
  shows "card {i. i < length (sockets p) \<and> sockets p ! i \<noteq> Ix_stopped} \<le> 1 \<and>
    (PortClient_Send ix_send m p \<longrightarrow> phase p = Some Ix_open) \<and>
    (m_stopRequested p \<longrightarrow> \<not> PortClient_IsRunning p) \<and>
    (m_serverThread p \<or> (\<forall>i < length (sockets p). sockets p ! i = Ix_stopped))"
proof -
  have i: "port_client_inv p" by (rule pcl.inv_reach [OF assms])
  then have s: "i < length (sockets p) \<and> sockets p ! i \<noteq> Ix_stopped \<Longrightarrow> in_use p = Some i" for i
    unfolding port_client_inv_def by blast
  have "card {i. i < length (sockets p) \<and> sockets p ! i \<noteq> Ix_stopped} \<le> 1"
    by (rule card_le_one [of _ "in_use p"]) (use s in auto)
  moreover have "m_isRunning p \<longrightarrow> phase p = Some Ix_open" "m_stopRequested p \<longrightarrow> \<not> m_isRunning p"
    using i by (simp_all add: port_client_inv_def)
  moreover have "m_serverThread p \<or> in_use p = None"
    using i by (simp add: port_client_inv_def in_use_def)
  moreover have "i < length (sockets p) \<Longrightarrow> in_use p = None \<Longrightarrow> sockets p ! i = Ix_stopped" for i
    using i by (simp add: port_client_inv_def)
  ultimately show ?thesis by (auto simp: PortClient_Send_def PortClient_IsRunning_def)
qed

fun thread_run :: "nat \<Rightarrow> int \<Rightarrow> port_client \<Rightarrow> port_client option" where
  "thread_run 0 t p = Some p"
| "thread_run (Suc n) t p = (case thread_step t p of None \<Rightarrow> None | Some q \<Rightarrow> thread_run n t q)"

lemma thread_run_reach:
  "reach I port_client_step p \<Longrightarrow> thread_run n t p = Some q \<Longrightarrow> reach I port_client_step q"
proof (induction n arbitrary: p)
  case (Suc n)
  then obtain r where r: "thread_step t p = Some r" "thread_run n t r = Some q" by (auto split: option.splits)
  with Suc show ?case using reach_step [OF Suc.prems(1) pc_thread [OF r(1)]] by blast
qed simp

lemma port_thread_exits:
  assumes "port_client_inv p" and "m_serverThread p" and "m_stopRequested p"
  shows "\<exists>n q. n \<le> 4 \<and> thread_run n t p = Some q \<and> at q = At_exit"
proof -
  note i = assms(1) and st = thread_step_def assms(3)
  show ?thesis
  proof (cases "at p")
    case No_thread
    with i assms(2) show ?thesis by (simp add: port_client_inv_def)
  next
    case At_make
    then have "thread_run 2 t p \<noteq> None \<and> at (the (thread_run 2 t p)) = At_exit" by (simp add: st eval_nat_numeral)
    then show ?thesis by (intro exI [of _ 2]) auto
  next
    case At_install
    then have "thread_run 1 t p \<noteq> None \<and> at (the (thread_run 1 t p)) = At_exit" by (simp add: st)
    then show ?thesis by (intro exI [of _ 1]) auto
  next
    case At_start
    then have "thread_run 4 t p \<noteq> None \<and> at (the (thread_run 4 t p)) = At_exit" by (simp add: st eval_nat_numeral)
    then show ?thesis by (intro exI [of _ 4]) auto
  next
    case At_wait
    then have "thread_run 3 t p \<noteq> None \<and> at (the (thread_run 3 t p)) = At_exit" by (simp add: st eval_nat_numeral)
    then show ?thesis by (intro exI [of _ 3]) auto
  next
    case At_stop
    then have "thread_run 2 t p \<noteq> None \<and> at (the (thread_run 2 t p)) = At_exit" by (simp add: st eval_nat_numeral)
    then show ?thesis by (intro exI [of _ 2]) auto
  next
    case At_check
    then have "thread_run 1 t p \<noteq> None \<and> at (the (thread_run 1 t p)) = At_exit" by (simp add: st)
    then show ?thesis by (intro exI [of _ 1]) auto
  next
    case At_backoff
    then have "thread_run 1 t p \<noteq> None \<and> at (the (thread_run 1 t p)) = At_exit" by (simp add: st)
    then show ?thesis by (intro exI [of _ 1]) auto
  next
    case At_exit
    then show ?thesis by (intro exI [of _ 0]) auto
  qed
qed

text \<open>
  C27: a stop request ends the thread: from any state it takes at most four more steps of its loop,
  none of which waits, and leaves every socket stopped.
\<close>

theorem port_client_stops:
  assumes "reach (\<lambda>p. p = port_client_init) port_client_step p" and "m_serverThread p" and "m_stopRequested p"
  shows "\<exists>n q. n \<le> 4 \<and> thread_run n t p = Some q \<and> PortClient_Stop_join q \<noteq> None \<and>
    (\<forall>i < length (sockets q). sockets q ! i = Ix_stopped)"
proof -
  have i: "port_client_inv p" by (rule pcl.inv_reach [OF assms(1)])
  obtain n q where q: "n \<le> 4" "thread_run n t p = Some q" "at q = At_exit"
    using port_thread_exits [OF i assms(2,3)] by blast
  have "port_client_inv q" by (rule pcl.inv_reach [OF thread_run_reach [OF assms(1) q(2)]])
  with q(3) have "\<forall>i < length (sockets q). sockets q ! i = Ix_stopped"
    by (simp add: port_client_inv_def in_use_def)
  with q show ?thesis by (fastforce simp: PortClient_Stop_join_def)
qed

text \<open>
  C28: a lost or refused connection is retried: after the configured delay (at least one second) the
  thread has stopped the old socket and is connecting with a fresh one.
\<close>

theorem port_client_reconnects:
  assumes "reach (\<lambda>p. p = port_client_init) port_client_step p" and "at p = At_wait"
    and "m_disconnected p" and "\<not> m_stopRequested p" and "reconnect_delay p \<le> t"
  shows "thread_run 4 (reconnect_delay p - 1) p = None \<and>
    (\<exists>q. thread_run 7 t p = Some q \<and> at q = At_wait \<and> phase q = Some Ix_connecting \<and> \<not> m_disconnected q \<and>
      length (sockets q) = Suc (length (sockets p)) \<and> (\<forall>i < length (sockets p). sockets q ! i = Ix_stopped))"
proof -
  have i: "port_client_inv p" by (rule pcl.inv_reach [OF assms(1)])
  then obtain n where n: "m_socket p = Some n" "n < length (sockets p)" "phase p = Some Ix_down"
    using assms(2,3) by (auto simp: port_client_inv_def)
  let ?q = "p\<lparr>sockets := (sockets p)[n := Ix_stopped] @ [Ix_connecting], m_disconnected := False,
    m_socket := Some (length (sockets p)), at := At_wait\<rparr>"
  have run: "thread_run 7 t p = Some ?q"
    using assms n by (simp add: thread_step_def set_phase_def reconnect_delay_def eval_nat_numeral list_update_append)
  have "thread_run 4 (reconnect_delay p - 1) p = None"
    using assms n by (simp add: thread_step_def set_phase_def reconnect_delay_def eval_nat_numeral)
  moreover have "\<forall>i < length (sockets p). sockets ?q ! i = Ix_stopped"
    using i n assms(2) by (auto simp: port_client_inv_def in_use_def nth_append nth_list_update)
  ultimately show ?thesis using run by (simp add: phase_def nth_append)
qed

text \<open>A connection that is refused, and the stop request that follows.\<close>

definition refused :: port_client where
  "refused = port_client_init\<lparr>m_serverThread := True, m_disconnected := True, m_socket := Some 0,
     sockets := [Ix_down], at := At_wait\<rparr>"

lemma reach_refused: "reach (\<lambda>p. p = port_client_init) port_client_step refused"
proof -
  let ?R = "reach (\<lambda>p. p = port_client_init) port_client_step"
  have "?R (port_client_init\<lparr>m_serverThread := True, at := At_make\<rparr>)"
    by (rule reach_step [where s = port_client_init], rule reach_init, simp, rule pc_start [where b = True])
      (simp add: PortClient_Start_def port_client_init_def)
  then have "?R (port_client_init\<lparr>m_serverThread := True, m_socket := Some 0, sockets := [Ix_connecting], at := At_wait\<rparr>)"
    by (rule thread_run_reach [where n = 3 and t = 0])
      (simp add: eval_nat_numeral thread_step_def set_phase_def port_client_init_def)
  from reach_step [OF this pc_error] show ?thesis
    by (simp add: refused_def on_ix_error_def set_phase_def phase_def port_client_init_def)
qed

lemma refused_simps: "at refused = At_wait" "m_disconnected refused" "\<not> m_stopRequested refused"
  "reconnect_delay refused = 1" "m_serverThread refused" "sockets refused = [Ix_down]" "\<not> m_isRunning refused"
  by (simp_all add: refused_def port_client_init_def reconnect_delay_def)

theorem one_live_socket_witness: "card {i. i < length (sockets refused) \<and> sockets refused ! i \<noteq> Ix_stopped} \<le> 1"
  using one_live_socket [OF reach_refused] by blast

theorem port_client_stops_witness:
  "\<exists>n q. n \<le> 4 \<and> thread_run n 0 (PortClient_Stop_flags refused) = Some q \<and> PortClient_Stop_join q \<noteq> None"
  using port_client_stops [OF reach_step [OF reach_refused pc_stop], of 0]
  by (auto simp: PortClient_Stop_flags_def refused_simps)

theorem port_client_reconnects_witness:
  "\<exists>q. thread_run 7 1 refused = Some q \<and> phase q = Some Ix_connecting \<and> length (sockets q) = 2"
  using port_client_reconnects [OF reach_refused, of 1] by (auto simp: refused_simps)

end
