(* ===== verification/Channel_Wait.thy ===== *)
theory Channel_Wait
  imports Prelude
begin

text \<open>
  The flow control of a sending thread (\<open>MakeDataChannel\<close>, the lambda of \<open>onOpen\<close>): how the thread that
  sends files over a channel waits for the channel's buffer to drain (\<open>waitForCapacity\<close>), and the two
  callbacks that wake it, \<open>onBufferedAmountLow\<close> and \<open>onClosed\<close>. \<open>n\<close> is \<open>maxMessageSize\<close>, the low
  threshold is its half. The wait on the condition variable is split where it can be interleaved: the
  predicate is tested under \<open>transfer->mutex\<close>, then the thread goes to sleep. \<open>onClosed\<close> sets its two flags in one
  step here, since no thread waits on the second. The contents of the files
  are in \<open>File_Transfer\<close>; here a block is its length. What the library does with a \<open>send\<close> on a channel it
  has closed is not a step.
\<close>

datatype sender_pc =
    At_queue \<comment> \<open>in \<open>GetItem(fileQ)\<close>\<close>
  | Sending \<comment> \<open>in the read loop\<close>
  | Must_wait \<comment> \<open>about to test the predicate in \<open>waitForCapacity\<close>\<close>
  | Tested \<comment> \<open>holds the mutex, has found the predicate false\<close>
  | Sleeping \<comment> \<open>on the condition variable\<close>
  | Finished

datatype close_pc = Not_closed | Close_due | Close_marked | Close_done

record transfer_sys =
  transfer_closed :: bool
  decision_closed :: bool
  is_open :: bool
  bufferedAmount :: nat
  low_due :: bool \<comment> \<open>\<open>onBufferedAmountLow\<close> is to be called\<close>
  closing :: close_pc \<comment> \<open>how far \<open>onClosed\<close> has got\<close>
  items :: nat \<comment> \<open>in the file queue\<close>
  sender :: sender_pc

definition transfer_init :: "transfer_sys \<Rightarrow> bool" where
  "transfer_init s \<longleftrightarrow> s = \<lparr>transfer_closed = False, decision_closed = False, is_open = True, bufferedAmount = 0,
     low_due = False, closing = Not_closed, items = 0, sender = At_queue\<rparr>"

text \<open>The predicate of the wait.\<close>

definition capacity_pred :: "nat \<Rightarrow> transfer_sys \<Rightarrow> bool" where
  "capacity_pred n s \<longleftrightarrow> transfer_closed s \<or> \<not> is_open s \<or> bufferedAmount s \<le> n div 2"

text \<open>\<open>changed.notify_one()\<close> reaches the thread only when it sleeps.\<close>

definition notify_sender :: "transfer_sys \<Rightarrow> transfer_sys" where
  "notify_sender s = (if sender s = Sleeping then s\<lparr>sender := Must_wait\<rparr> else s)"

inductive sender_step :: "nat \<Rightarrow> transfer_sys \<Rightarrow> transfer_sys \<Rightarrow> bool" for n :: nat where
  ts_add: "sender_step n s (s\<lparr>items := items s + 1\<rparr>)"
| ts_get: "sender s = At_queue \<Longrightarrow> 0 < items s \<Longrightarrow>
     sender_step n s (s\<lparr>items := items s - 1, sender := if is_open s then Sending else Finished\<rparr>)"
| ts_send: "sender s = Sending \<Longrightarrow> is_open s \<Longrightarrow> bufferedAmount s \<le> n \<Longrightarrow> k \<le> n \<Longrightarrow>
     sender_step n s (s\<lparr>bufferedAmount := bufferedAmount s + k, sender := if sent_now then Sending else Must_wait\<rparr>)"
| ts_full: "sender s = Sending \<Longrightarrow> n < bufferedAmount s \<Longrightarrow> sender_step n s (s\<lparr>sender := Must_wait\<rparr>)"
| ts_file_end: "sender s = Sending \<Longrightarrow> sender_step n s (s\<lparr>sender := if is_open s then At_queue else Finished\<rparr>)"
| ts_test_true: "sender s = Must_wait \<Longrightarrow> capacity_pred n s \<Longrightarrow>
     sender_step n s (s\<lparr>sender := if \<not> transfer_closed s \<and> is_open s then Sending else Finished\<rparr>)"
| ts_test_false: "sender s = Must_wait \<Longrightarrow> \<not> capacity_pred n s \<Longrightarrow> sender_step n s (s\<lparr>sender := Tested\<rparr>)"
| ts_sleep: "sender s = Tested \<Longrightarrow> sender_step n s (s\<lparr>sender := Sleeping\<rparr>)"
| ts_spurious: "sender s = Sleeping \<Longrightarrow> sender_step n s (s\<lparr>sender := Must_wait\<rparr>)"
| ts_drain: "b < bufferedAmount s \<Longrightarrow>
     sender_step n s (s\<lparr>bufferedAmount := b, low_due := low_due s \<or> b \<le> n div 2 \<and> n div 2 < bufferedAmount s\<rparr>)"
| ts_low: "low_due s \<Longrightarrow> sender_step n s (notify_sender (s\<lparr>low_due := False\<rparr>))"
| ts_close: "is_open s \<Longrightarrow> sender_step n s (s\<lparr>is_open := False, closing := Close_due\<rparr>)"
| ts_closed_mark: "closing s = Close_due \<Longrightarrow> sender s \<noteq> Tested \<Longrightarrow>
     sender_step n s (s\<lparr>transfer_closed := True, decision_closed := True, closing := Close_marked\<rparr>)"
| ts_closed_notify: "closing s = Close_marked \<Longrightarrow> sender_step n s (notify_sender (s\<lparr>closing := Close_done\<rparr>))"

section \<open>Invariant\<close>

definition transfer_inv :: "transfer_sys \<Rightarrow> bool" where
  "transfer_inv s \<longleftrightarrow> (is_open s \<longleftrightarrow> closing s = Not_closed) \<and>
     (transfer_closed s \<longleftrightarrow> closing s = Close_marked \<or> closing s = Close_done) \<and>
     decision_closed s = transfer_closed s \<and>
     (transfer_closed s \<longrightarrow> sender s \<noteq> Tested) \<and> (closing s = Close_done \<longrightarrow> sender s \<noteq> Sleeping)"

lemma transfer_inv_step: "transfer_inv s \<Longrightarrow> sender_step n s t \<Longrightarrow> transfer_inv t"
  by (rotate_tac, induction rule: sender_step.induct)
    (auto simp: transfer_inv_def notify_sender_def capacity_pred_def split: if_splits)

interpretation chan: invariant_system transfer_init "sender_step n" transfer_inv for n
proof (unfold_locales, goal_cases)
  case (1 s)
  then show ?case by (simp add: transfer_init_def transfer_inv_def)
qed (rule transfer_inv_step)

section \<open>What wakes the thread\<close>

text \<open>
  A closed channel releases its sending thread: once \<open>onClosed\<close> has run, the thread does not sleep
  and is not about to, in any interleaving, because the flag is set under the mutex the predicate is
  tested under; if it is in the wait, its next test ends it, and the decision of the transfer is closed.
\<close>

theorem close_wakes_sender:
  assumes "reach transfer_init (sender_step n) s" and "closing s = Close_done"
  shows "sender s \<noteq> Sleeping \<and> sender s \<noteq> Tested \<and> decision_closed s \<and>
    (sender s = Must_wait \<longrightarrow>
      sender_step n s (s\<lparr>sender := Finished\<rparr>) \<and> (\<forall>t. sender_step n s t \<longrightarrow> sender t \<in> {Must_wait, Finished}))"
proof -
  have i: "transfer_inv s" by (rule chan.inv_reach [OF assms(1)])
  have p: "capacity_pred n s" "transfer_closed s" using i assms(2) by (simp_all add: transfer_inv_def capacity_pred_def)
  have "sender_step n s (s\<lparr>sender := Finished\<rparr>)" if "sender s = Must_wait"
    using ts_test_true [OF that p(1)] p(2) by simp
  moreover have "sender t \<in> {Must_wait, Finished}" if "sender s = Must_wait" "sender_step n s t" for t
    using that(2,1) p by (cases rule: sender_step.cases) (simp_all add: notify_sender_def)
  ultimately show ?thesis using i assms(2) by (simp add: transfer_inv_def)
qed

definition closed_waiter :: transfer_sys where
  "closed_waiter = \<lparr>transfer_closed = True, decision_closed = True, is_open = False, bufferedAmount = 16,
     low_due = False, closing = Close_done, items = 0, sender = Must_wait\<rparr>"

lemma reach_closed_waiter: "reach transfer_init (sender_step 16) closed_waiter"
proof -
  let ?R = "reach transfer_init (sender_step 16)"
  define s0 where "s0 = \<lparr>transfer_closed = False, decision_closed = False, is_open = True, bufferedAmount = 0,
     low_due = False, closing = Not_closed, items = 0, sender = At_queue\<rparr>"
  let ?w = "s0\<lparr>bufferedAmount := 16, sender := Must_wait\<rparr>"
  have "?R s0" by (rule reach_init) (simp add: transfer_init_def s0_def)
  then have "?R (s0\<lparr>items := 1\<rparr>)" using ts_add [of 16 s0] by (auto intro: reach_step simp: s0_def)
  then have "?R (s0\<lparr>sender := Sending\<rparr>)"
    using ts_get [of "s0\<lparr>items := 1\<rparr>" 16] by (auto intro: reach_step simp: s0_def)
  then have "?R ?w"
    using ts_send [of "s0\<lparr>sender := Sending\<rparr>" 16 16 False] by (auto intro: reach_step simp: s0_def)
  then have "?R (?w\<lparr>is_open := False, closing := Close_due\<rparr>)"
    using ts_close [of ?w 16] by (auto intro: reach_step simp: s0_def)
  then have "?R (closed_waiter\<lparr>closing := Close_marked\<rparr>)"
    using ts_closed_mark [of "?w\<lparr>is_open := False, closing := Close_due\<rparr>" 16]
    by (auto intro: reach_step simp: s0_def closed_waiter_def)
  then show ?thesis
    using ts_closed_notify [of "closed_waiter\<lparr>closing := Close_marked\<rparr>" 16]
    by (auto intro: reach_step simp: closed_waiter_def notify_sender_def)
qed

theorem close_wakes_sender_witness: "sender_step 16 closed_waiter (closed_waiter\<lparr>sender := Finished\<rparr>)"
  using close_wakes_sender [OF reach_closed_waiter] by (simp add: closed_waiter_def)

text \<open>
  C39: a drained buffer may fail to: \<open>onBufferedAmountLow\<close> notifies without the mutex, so a call that comes
  between the thread's test and its sleep is lost. One block is enough: from the start there is a run to a
  state in which the channel is open, its buffer is empty, no callback is due, and the thread sleeps; only
  a spurious wake-up or the end of the channel gets it on, another queued file does not.
\<close>

theorem capacity_wakeup_lost:
  assumes "0 < n"
  shows "\<exists>s. reach transfer_init (sender_step n) s \<and> sender s = Sleeping \<and> is_open s \<and> bufferedAmount s = 0 \<and>
    \<not> low_due s \<and>
    (\<forall>t. sender_step n s t \<longrightarrow> t = s\<lparr>sender := Must_wait\<rparr> \<or> \<not> is_open t \<or> t = s\<lparr>items := items s + 1\<rparr>)"
proof -
  define s0 where "s0 = \<lparr>transfer_closed = False, decision_closed = False, is_open = True, bufferedAmount = 0,
     low_due = False, closing = Not_closed, items = 0, sender = At_queue\<rparr>"
  let ?R = "reach transfer_init (sender_step n)"
  have "?R s0" by (rule reach_init) (simp add: transfer_init_def s0_def)
  then have "?R (s0\<lparr>items := 1\<rparr>)"
    using ts_add [of n s0] by (auto intro: reach_step simp: s0_def)
  then have "?R (s0\<lparr>sender := Sending\<rparr>)"
    using ts_get [of "s0\<lparr>items := 1\<rparr>" n] by (auto intro: reach_step simp: s0_def)
  then have "?R (s0\<lparr>bufferedAmount := n, sender := Must_wait\<rparr>)"
    using ts_send [of "s0\<lparr>sender := Sending\<rparr>" n n False] by (auto intro: reach_step simp: s0_def)
  then have "?R (s0\<lparr>bufferedAmount := n, sender := Tested\<rparr>)"
    using ts_test_false [of "s0\<lparr>bufferedAmount := n, sender := Must_wait\<rparr>" n] assms
    by (auto intro: reach_step simp: s0_def capacity_pred_def)
  then have "?R (s0\<lparr>low_due := True, sender := Tested\<rparr>)"
    using ts_drain [of 0 "s0\<lparr>bufferedAmount := n, sender := Tested\<rparr>" n] assms by (auto intro: reach_step simp: s0_def)
  then have "?R (s0\<lparr>sender := Tested\<rparr>)"
    using ts_low [of "s0\<lparr>low_due := True, sender := Tested\<rparr>" n] by (auto intro: reach_step simp: s0_def notify_sender_def)
  then have r: "?R (s0\<lparr>sender := Sleeping\<rparr>)"
    using ts_sleep [of "s0\<lparr>sender := Tested\<rparr>" n] by (auto intro: reach_step simp: s0_def)
  have "t = s0\<lparr>sender := Must_wait\<rparr> \<or> \<not> is_open t \<or> t = s0\<lparr>sender := Sleeping, items := 1\<rparr>"
    if "sender_step n (s0\<lparr>sender := Sleeping\<rparr>) t" for t
    using that by (cases rule: sender_step.cases) (simp_all add: s0_def)
  with r show ?thesis by (intro exI [of _ "s0\<lparr>sender := Sleeping\<rparr>"]) (auto simp: s0_def)
qed

text \<open>
  An idle thread outlives its channel: a thread that waits for the next file when the channel closes is not
  woken by \<open>onClosed\<close>, which does not touch the queue; it stays until another file is queued.
\<close>

theorem idle_sender_outlives_channel:
  assumes "sender s = At_queue" and "items s = 0" and "sender_step n s t"
  shows "sender t = At_queue \<and> (items t = 0 \<or> t = s\<lparr>items := 1\<rparr>)"
  using assms(3,1,2) by (cases rule: sender_step.cases) (simp_all add: notify_sender_def)

definition closed_idle :: transfer_sys where
  "closed_idle = \<lparr>transfer_closed = True, decision_closed = True, is_open = False, bufferedAmount = 0,
     low_due = False, closing = Close_marked, items = 0, sender = At_queue\<rparr>"

theorem idle_sender_outlives_channel_witness:
  "sender_step 16 closed_idle (closed_idle\<lparr>closing := Close_done\<rparr>) \<and>
   sender (closed_idle\<lparr>closing := Close_done\<rparr>) = At_queue"
proof -
  have s: "sender_step 16 closed_idle (closed_idle\<lparr>closing := Close_done\<rparr>)"
    using ts_closed_notify [of closed_idle 16] by (simp add: closed_idle_def notify_sender_def)
  with idle_sender_outlives_channel [OF _ _ s] show ?thesis by (simp add: closed_idle_def)
qed

theorem capacity_wakeup_lost_witness:
  "\<exists>s. reach transfer_init (sender_step 16384) s \<and> sender s = Sleeping \<and> bufferedAmount s = 0 \<and> is_open s"
  using capacity_wakeup_lost [of 16384] by auto

end
