(* ===== verification/Log_Lines.thy ===== *)
theory Log_Lines
  imports Prelude
begin

text \<open>
  \<open>include/Logger.hpp\<close>: a log line is a temporary \<open>LogStream\<close> that collects its text and writes it, with
  a newline, to standard output or, for errors, to standard error when it is destroyed, under a mutex all
  lines share. Threads build their lines concurrently; \<open>log_step\<close> interleaves them. The local time of a
  line, already formatted, is an argument. \<open>finished\<close> is the history of the lines written, each with its
  level, its time and what was put into it.
\<close>

datatype log_level = Info | Warning | Error | Success

record log_stream =
  m_stream :: string
  m_out_cerr :: bool

fun level_prefix :: "log_level \<Rightarrow> string" where
  "level_prefix Info = CHR 0x1B # ''[36m[INFO] '' @ CHR 0x1B # ''[0m''"
| "level_prefix Warning = CHR 0x1B # ''[33m[WARNING] '' @ CHR 0x1B # ''[0m''"
| "level_prefix Error = CHR 0x1B # ''[31m[ERROR] '' @ CHR 0x1B # ''[0m''"
| "level_prefix Success = CHR 0x1B # ''[32m[SUCCESS] '' @ CHR 0x1B # ''[0m''"

definition LogStream :: "log_level \<Rightarrow> string \<Rightarrow> log_stream" where
  "LogStream level timestamp =
     \<lparr>m_stream = ''['' @ timestamp @ ''] '' @ level_prefix level, m_out_cerr = (level = Error)\<rparr>"

definition log_put :: "string \<Rightarrow> log_stream \<Rightarrow> log_stream" where
  "log_put value l = l\<lparr>m_stream := m_stream l @ value\<rparr>"

record log_sys =
  open_lines :: "nat \<rightharpoonup> log_stream \<times> (log_level \<times> string \<times> string list)"
  std_out :: string
  std_err :: string
  finished :: "(log_level \<times> string \<times> string list) list"

definition end_line :: "log_stream \<Rightarrow> log_sys \<Rightarrow> log_sys" where
  "end_line l s = (let text = m_stream l @ [CHR 0x0A] in
     if m_out_cerr l then s\<lparr>std_err := std_err s @ text\<rparr> else s\<lparr>std_out := std_out s @ text\<rparr>)"

inductive log_step :: "log_sys \<Rightarrow> log_sys \<Rightarrow> bool" where
  log_begin: "open_lines s i = None \<Longrightarrow>
     log_step s (s\<lparr>open_lines := (open_lines s)(i \<mapsto> (LogStream level time, (level, time, [])))\<rparr>)"
| log_append: "open_lines s i = Some (l, (level, time, parts)) \<Longrightarrow>
     log_step s (s\<lparr>open_lines := (open_lines s)(i \<mapsto> (log_put value l, (level, time, parts @ [value])))\<rparr>)"
| log_end: "open_lines s i = Some (l, h) \<Longrightarrow>
     log_step s (end_line l (s\<lparr>open_lines := (open_lines s)(i := None), finished := finished s @ [h]\<rparr>))"

definition log_init :: "log_sys \<Rightarrow> bool" where
  "log_init s \<longleftrightarrow> s = \<lparr>open_lines = Map.empty, std_out = [], std_err = [], finished = []\<rparr>"

text \<open>A line as it should appear.\<close>

fun log_text :: "log_level \<times> string \<times> string list \<Rightarrow> string" where
  "log_text (level, time, parts) = ''['' @ time @ ''] '' @ level_prefix level @ concat parts"

definition log_inv :: "log_sys \<Rightarrow> bool" where
  "log_inv s \<longleftrightarrow>
     (\<forall>i l h. open_lines s i = Some (l, h) \<longrightarrow> m_stream l = log_text h \<and> (m_out_cerr l \<longleftrightarrow> fst h = Error)) \<and>
     std_out s = concat (map (\<lambda>h. log_text h @ [CHR 0x0A]) (filter (\<lambda>h. fst h \<noteq> Error) (finished s))) \<and>
     std_err s = concat (map (\<lambda>h. log_text h @ [CHR 0x0A]) (filter (\<lambda>h. fst h = Error) (finished s)))"

lemma log_inv_step: "log_inv s \<Longrightarrow> log_step s t \<Longrightarrow> log_inv t"
proof (rotate_tac, induction rule: log_step.induct)
  case (log_end s i l h)
  then have "m_stream l = log_text h" "m_out_cerr l \<longleftrightarrow> fst h = Error" unfolding log_inv_def by blast+
  with log_end show ?case by (auto simp: log_inv_def end_line_def Let_def)
qed (auto simp: log_inv_def LogStream_def log_put_def split: if_splits)

interpretation logger: invariant_system log_init log_step log_inv
proof (unfold_locales, goal_cases)
  case (1 s)
  then show ?case by (simp add: log_init_def log_inv_def)
qed (rule log_inv_step)

text \<open>
  Lines never mix: however threads interleave the building of their lines, standard output is the
  concatenation of the finished lines that are no errors, in the order they were finished, each whole and
  ending in a newline, and standard error that of the errors.
\<close>

theorem log_lines_whole:
  assumes "reach log_init log_step s"
  shows "std_out s = concat (map (\<lambda>h. log_text h @ [CHR 0x0A]) (filter (\<lambda>h. fst h \<noteq> Error) (finished s))) \<and>
    std_err s = concat (map (\<lambda>h. log_text h @ [CHR 0x0A]) (filter (\<lambda>h. fst h = Error) (finished s)))"
  using logger.inv_reach [OF assms] by (simp add: log_inv_def)

theorem log_lines_whole_witness:
  "\<exists>s. reach log_init log_step s \<and> std_out s = log_text (Info, ''t'', []) @ [CHR 0x0A]"
proof -
  let ?s0 = "\<lparr>open_lines = Map.empty, std_out = [], std_err = [], finished = []\<rparr>"
  let ?s1 = "?s0\<lparr>open_lines := [0 \<mapsto> (LogStream Info ''t'', (Info, ''t'', []))]\<rparr>"
  let ?s2 = "end_line (LogStream Info ''t'') (?s1\<lparr>open_lines := (open_lines ?s1)(0 := None), finished := [(Info, ''t'', [])]\<rparr>)"
  have "reach log_init log_step ?s0" by (rule reach_init) (simp add: log_init_def)
  moreover have "log_step ?s0 ?s1" using log_begin [of ?s0 0 Info "''t''"] by simp
  moreover have "log_step ?s1 ?s2" using log_end [of ?s1 0 "LogStream Info ''t''" "(Info, ''t'', [])"] by simp
  ultimately have r: "reach log_init log_step ?s2" by (meson reach_step)
  have "finished ?s2 = [(Info, ''t'', [])]" by (simp add: end_line_def Let_def)
  with log_lines_whole [OF r] show ?thesis by (intro exI [of _ ?s2] conjI r) (simp del: log_text.simps)
qed

end
