(* ===== verification/Rooms.thy ===== *)
theory Rooms
  imports Prelude
begin

text \<open>
  \<open>src/WebRTC.cpp\<close>: the state every endpoint inherits from the base class, and its room table.
  \<open>GetPeers\<close> fills its output vector in the order of the \<open>std::set\<close>. The locale \<open>room_table\<close> is the
  contract the signalling server and the clients use: what the members of each room are after a
  join, a leave, an update, a clear.
\<close>

record webrtc =
  m_rooms :: "string \<rightharpoonup> string set"
  m_currentWebSocket :: "ws option"

definition webrtc_init :: webrtc where
  "webrtc_init = \<lparr>m_rooms = Map.empty, m_currentWebSocket = None\<rparr>"

definition GetPeers :: "string \<Rightarrow> string list \<Rightarrow> 'a webrtc_scheme \<Rightarrow> bool \<times> string list" where
  "GetPeers room peers st = (case m_rooms st room of
     None \<Rightarrow> (False, peers) | Some S \<Rightarrow> (True, sorted_list_of_set S))"

definition ClearRooms :: "'a webrtc_scheme \<Rightarrow> 'a webrtc_scheme" where
  "ClearRooms st = st\<lparr>m_rooms := Map.empty\<rparr>"

definition UpdatePeers :: "string \<Rightarrow> string set \<Rightarrow> 'a webrtc_scheme \<Rightarrow> 'a webrtc_scheme" where
  "UpdatePeers room peers st = st\<lparr>m_rooms := (m_rooms st)(room \<mapsto> peers)\<rparr>"

text \<open>\<open>m_rooms[room]\<close>, which creates an empty room when there is none.\<close>

definition room_index :: "string \<Rightarrow> 'a webrtc_scheme \<Rightarrow> string set \<times> 'a webrtc_scheme" where
  "room_index room st = (case m_rooms st room of
     None \<Rightarrow> ({}, st\<lparr>m_rooms := (m_rooms st)(room \<mapsto> {})\<rparr>) | Some S \<Rightarrow> (S, st))"

definition Join :: "string \<Rightarrow> string \<Rightarrow> 'a webrtc_scheme \<Rightarrow> bool \<times> 'a webrtc_scheme" where
  "Join peer room st = (case room_index room st of (peers, st') \<Rightarrow>
     (peer \<notin> peers, st'\<lparr>m_rooms := (m_rooms st')(room \<mapsto> insert peer peers)\<rparr>))"

definition Leave :: "string \<Rightarrow> string \<Rightarrow> 'a webrtc_scheme \<Rightarrow> bool \<times> 'a webrtc_scheme" where
  "Leave peer room st = (case m_rooms st room of
     None \<Rightarrow> (False, st)
   | Some peers \<Rightarrow> if peer \<notin> peers then (False, st)
       else (True, st\<lparr>m_rooms := (m_rooms st)(room \<mapsto> peers - {peer})\<rparr>))"

definition members :: "'a webrtc_scheme \<Rightarrow> string \<Rightarrow> string set" where
  "members st room = (case m_rooms st room of None \<Rightarrow> {} | Some S \<Rightarrow> S)"

lemmas room_defs = GetPeers_def ClearRooms_def UpdatePeers_def room_index_def Join_def Leave_def

section \<open>The contract of the room table\<close>

datatype room_op = RJoin string string | RLeave string string

locale room_table =
  fixes mem :: "'s \<Rightarrow> string \<Rightarrow> string set"
    and join :: "string \<Rightarrow> string \<Rightarrow> 's \<Rightarrow> bool \<times> 's" and leave :: "string \<Rightarrow> string \<Rightarrow> 's \<Rightarrow> bool \<times> 's"
    and update :: "string \<Rightarrow> string set \<Rightarrow> 's \<Rightarrow> 's" and clear :: "'s \<Rightarrow> 's"
  assumes fst_join: "fst (join p r s) \<longleftrightarrow> p \<notin> mem s r"
    and mem_join: "mem (snd (join p r s)) = (mem s)(r := insert p (mem s r))"
    and fst_leave: "fst (leave p r s) \<longleftrightarrow> p \<in> mem s r"
    and mem_leave: "mem (snd (leave p r s)) = (mem s)(r := mem s r - {p})"
    and mem_update: "mem (update r S s) = (mem s)(r := S)"
    and mem_clear: "mem (clear s) = (\<lambda>_. {})"
begin

lemma join_twice: "\<not> fst (join p r (snd (join p r s)))"
  by (simp add: fst_join mem_join)

lemma leave_join: "p \<notin> mem s r \<Longrightarrow> mem (snd (leave p r (snd (join p r s)))) = mem s"
  by (simp add: mem_join mem_leave fun_eq_iff)

lemma rejoin: "fst (join p r (snd (leave p r s)))"
  by (simp add: fst_join mem_leave)

end

interpretation rooms: room_table members Join Leave UpdatePeers ClearRooms
  by unfold_locales
    (auto simp: members_def room_defs fun_eq_iff split: option.splits)

lemma members_room_index [simp]: "members (snd (room_index r st)) = members st"
  by (auto simp: members_def room_index_def fun_eq_iff split: option.splits)

lemma fst_room_index [simp]: "fst (room_index r st) = members st r"
  by (auto simp: members_def room_index_def split: option.splits)

lemma GetPeers_members:
  "m_rooms st r \<noteq> None \<Longrightarrow> GetPeers r ps st = (True, sorted_list_of_set (members st r))"
  by (auto simp: GetPeers_def members_def)

text \<open>The room operations as a run, and the operation that decides a membership.\<close>

fun run_op :: "room_op \<Rightarrow> 'a webrtc_scheme \<Rightarrow> 'a webrtc_scheme" where
  "run_op (RJoin p r) st = snd (Join p r st)"
| "run_op (RLeave p r) st = snd (Leave p r st)"

fun last_op :: "string \<Rightarrow> string \<Rightarrow> room_op list \<Rightarrow> bool option" where
  "last_op p r [] = None"
| "last_op p r (RJoin q t # ops) =
     (case last_op p r ops of Some b \<Rightarrow> Some b | None \<Rightarrow> if q = p \<and> t = r then Some True else None)"
| "last_op p r (RLeave q t # ops) =
     (case last_op p r ops of Some b \<Rightarrow> Some b | None \<Rightarrow> if q = p \<and> t = r then Some False else None)"

text \<open>
  After any sequence of joins and leaves a peer is in a room exactly when the last operation
  that named the two was a join (or none did and it was there before), and \<open>GetPeers\<close> reports an
  unknown room without touching its output.
\<close>

theorem room_membership:
  "(p \<in> members (fold run_op ops st) r \<longleftrightarrow>
     (case last_op p r ops of Some b \<Rightarrow> b | None \<Rightarrow> p \<in> members st r)) \<and>
   (m_rooms st r = None \<longleftrightarrow> GetPeers r peers st = (False, peers))"
proof
  show "p \<in> members (fold run_op ops st) r \<longleftrightarrow>
     (case last_op p r ops of Some b \<Rightarrow> b | None \<Rightarrow> p \<in> members st r)"
  proof (induction ops arbitrary: st)
    case Nil
    then show ?case by simp
  next
    case (Cons x ops)
    then show ?case
      by (cases x) (auto simp: rooms.mem_join rooms.mem_leave split: option.splits if_splits)
  qed
next
  show "m_rooms st r = None \<longleftrightarrow> GetPeers r peers st = (False, peers)"
    by (simp add: GetPeers_def split: option.splits)
qed

end
