(* ===== verification/Json_Doc.thy ===== *)
theory Json_Doc
  imports Prelude "HOL-Library.Countable"
begin

text \<open>
  The documents the signalling handlers read and rewrite, as data: a JSON value with members in
  order and duplicates kept. RapidJSON's parser and writer are not modelled; they are the
  parameters \<open>parse\<close> and \<open>writer\<close> of the definitions that use them, and \<open>json_codec\<close> is the one
  hypothesis made of them (a written document parses back to itself).

  A handler sees an object, as its list of members. \<open>string_at d n\<close> is \<open>doc[n].GetString()\<close>: it is
  \<open>None\<close> when the member is missing or no string, which is what the guards
  \<open>!doc.HasMember(n) || !doc[n].IsString()\<close> test, and what makes an unguarded call fail its
  assertion. \<open>GetString\<close> yields a C string, so a string read this way ends at its first NUL.
\<close>

datatype json =
    JNull
  | JBool bool
  | JInt int
  | JDouble string
  | JStr string
  | JArr "json list"
  | JObj "(string \<times> json) list"

instance json :: countable by countable_datatype

type_synonym doc = "(string \<times> json) list"

definition c_str :: "string \<Rightarrow> string" where
  "c_str s = takeWhile (\<lambda>c. c \<noteq> CHR 0x00) s"

definition nul_free :: "string \<Rightarrow> bool" where
  "nul_free s \<longleftrightarrow> CHR 0x00 \<notin> set s"

lemma c_str_id [simp]: "nul_free s \<Longrightarrow> c_str s = s"
  by (auto simp: c_str_def nul_free_def intro!: takeWhile_eq_all_conv [THEN iffD2])

lemma nul_free_c_str [simp]: "nul_free (c_str s)"
  by (auto simp: c_str_def nul_free_def dest: set_takeWhileD)

definition get_string :: "json \<Rightarrow> string option" where
  "get_string v = (case v of JStr s \<Rightarrow> Some (c_str s) | _ \<Rightarrow> None)"

definition string_at :: "doc \<Rightarrow> string \<Rightarrow> string option" where
  "string_at d n = (case map_of d n of None \<Rightarrow> None | Some v \<Rightarrow> get_string v)"

definition array_at :: "doc \<Rightarrow> string \<Rightarrow> json list option" where
  "array_at d n = (case map_of d n of Some (JArr vs) \<Rightarrow> Some vs | _ \<Rightarrow> None)"

definition object_at :: "doc \<Rightarrow> string \<Rightarrow> doc option" where
  "object_at d n = (case map_of d n of Some (JObj ms) \<Rightarrow> Some ms | _ \<Rightarrow> None)"

definition int64_at :: "doc \<Rightarrow> string \<Rightarrow> int option" where
  "int64_at d n = (case map_of d n of
     Some (JInt i) \<Rightarrow> if - (2 ^ 63) \<le> i \<and> i < 2 ^ 63 then Some i else None | _ \<Rightarrow> None)"

definition uint64_at :: "doc \<Rightarrow> string \<Rightarrow> int option" where
  "uint64_at d n = (case map_of d n of
     Some (JInt i) \<Rightarrow> if 0 \<le> i \<and> i < 2 ^ 64 then Some i else None | _ \<Rightarrow> None)"

text \<open>\<open>doc[n].SetString(s, size)\<close>, \<open>EraseMember\<close> (the first member of the name) and \<open>AddMember\<close>.\<close>

fun set_string :: "string \<Rightarrow> string \<Rightarrow> doc \<Rightarrow> doc" where
  "set_string n s [] = []"
| "set_string n s ((k, v) # d) = (if k = n then (k, JStr s) # d else (k, v) # set_string n s d)"

fun erase_member :: "string \<Rightarrow> doc \<Rightarrow> doc" where
  "erase_member n [] = []"
| "erase_member n ((k, v) # d) = (if k = n then d else (k, v) # erase_member n d)"

definition add_member :: "string \<Rightarrow> json \<Rightarrow> doc \<Rightarrow> doc" where
  "add_member n v d = d @ [(n, v)]"

text \<open>A \<open>rapidjson::Value\<close> built from \<open>s.c_str()\<close>.\<close>

definition JCstr :: "string \<Rightarrow> json" where
  "JCstr s = JStr (c_str s)"

lemma get_string_JCstr [simp]: "get_string (JCstr s) = Some (c_str s)"
  by (simp add: get_string_def JCstr_def)

lemma get_string_JStr [simp]: "get_string (JStr s) = Some (c_str s)"
  by (simp add: get_string_def)

lemma string_at_Cons:
  "string_at ((k, v) # d) n = (if k = n then get_string v else string_at d n)"
  by (simp add: string_at_def)

lemma string_at_nul_free: "string_at d n = Some s \<Longrightarrow> nul_free s"
  by (auto simp: string_at_def get_string_def split: option.splits json.splits)

lemma map_of_set_string:
  "map_of (set_string n s d) k =
     (if k = n \<and> map_of d n \<noteq> None then Some (JStr s) else map_of d k)"
  by (induction d) auto

lemma string_at_set_string [simp]:
  "string_at d n \<noteq> None \<Longrightarrow> string_at (set_string n s d) n = Some (c_str s)"
  by (auto simp: string_at_def map_of_set_string split: option.splits)

lemma string_at_set_string_other [simp]:
  "k \<noteq> n \<Longrightarrow> string_at (set_string n s d) k = string_at d k"
  by (simp add: string_at_def map_of_set_string)

lemma object_at_set_string_other [simp]:
  "k \<noteq> n \<Longrightarrow> object_at (set_string n s d) k = object_at d k"
  by (simp add: object_at_def map_of_set_string)

lemma map_of_erase_member_other: "k \<noteq> n \<Longrightarrow> map_of (erase_member n d) k = map_of d k"
  by (induction d) auto

lemma map_of_erase_member_distinct:
  "distinct (map fst d) \<Longrightarrow> map_of (erase_member n d) n = None"
  by (induction d) (force simp: map_of_eq_None_iff split: if_splits)+

lemma map_of_add_member:
  "map_of (add_member n v d) k = (case map_of d k of None \<Rightarrow> if k = n then Some v else None | Some w \<Rightarrow> Some w)"
  by (auto simp: add_member_def map_add_def split: option.splits)

definition json_codec :: "(string \<Rightarrow> json option) \<Rightarrow> (json \<Rightarrow> string) \<Rightarrow> bool" where
  "json_codec parse writer \<longleftrightarrow> (\<forall>v. parse (writer v) = Some v)"

lemma json_codecD [simp]: "json_codec parse writer \<Longrightarrow> parse (writer v) = Some v"
  by (simp add: json_codec_def)

text \<open>A codec exists: documents numbered and written in unary.\<close>

definition unary_write :: "json \<Rightarrow> string" where
  "unary_write v = replicate (to_nat v) CHR ''1''"

definition unary_parse :: "string \<Rightarrow> json option" where
  "unary_parse s = Some (from_nat (length s))"

lemma unary_codec: "json_codec unary_parse unary_write"
  by (simp add: json_codec_def unary_parse_def unary_write_def)

end
