(* ===== verification/Property_Bag.thy ===== *)
theory Property_Bag
  imports Prelude
begin

text \<open>
  \<open>include/PropertyBag.hpp\<close>: the typed settings every endpoint is configured from. A value is a
  \<open>std::variant\<close>; \<open>Get\<close> throws \<open>out_of_range\<close> for a missing key and \<open>bad_variant_access\<close> for a
  value of another type. The locale \<open>typed_store\<close> is the contract the other components use.
\<close>

datatype Value = VString string | VInt int | VBool bool

type_synonym PropertyBag = "string \<rightharpoonup> Value"

datatype get_error = out_of_range | bad_variant_access

definition Set_value :: "string \<Rightarrow> Value \<Rightarrow> PropertyBag \<Rightarrow> PropertyBag" where
  "Set_value key v b = b(key \<mapsto> v)"

definition Contains :: "PropertyBag \<Rightarrow> string \<Rightarrow> bool" where
  "Contains b key \<longleftrightarrow> b key \<noteq> None"

definition Get_string :: "PropertyBag \<Rightarrow> string \<Rightarrow> get_error + string" where
  "Get_string b key = (case b key of None \<Rightarrow> Inl out_of_range
     | Some (VString s) \<Rightarrow> Inr s | Some _ \<Rightarrow> Inl bad_variant_access)"

definition Get_int :: "PropertyBag \<Rightarrow> string \<Rightarrow> get_error + int" where
  "Get_int b key = (case b key of None \<Rightarrow> Inl out_of_range
     | Some (VInt i) \<Rightarrow> Inr i | Some _ \<Rightarrow> Inl bad_variant_access)"

definition Get_bool :: "PropertyBag \<Rightarrow> string \<Rightarrow> get_error + bool" where
  "Get_bool b key = (case b key of None \<Rightarrow> Inl out_of_range
     | Some (VBool v) \<Rightarrow> Inr v | Some _ \<Rightarrow> Inl bad_variant_access)"

locale typed_store =
  fixes put :: "'k \<Rightarrow> 'w \<Rightarrow> 's \<Rightarrow> 's" and has :: "'s \<Rightarrow> 'k \<Rightarrow> bool"
    and get :: "'s \<Rightarrow> 'k \<Rightarrow> 'e + 'v" and inject :: "'v \<Rightarrow> 'w"
  assumes get_put: "get (put k (inject v) s) k = Inr v"
    and get_put_other: "k \<noteq> k' \<Longrightarrow> get (put k w s) k' = get s k'"
    and has_put: "has (put k w s) k' \<longleftrightarrow> k = k' \<or> has s k'"
    and get_has: "get s k = Inr v \<Longrightarrow> has s k"
begin

lemma get_fold:
  "k \<notin> set (map fst kvs) \<Longrightarrow> get (fold (\<lambda>(k, w). put k w) kvs s) k = get s k"
  by (induction kvs arbitrary: s) (auto simp: get_put_other)

lemma has_fold: "has (fold (\<lambda>(k, w). put k w) kvs s) k \<longleftrightarrow> k \<in> set (map fst kvs) \<or> has s k"
  by (induction kvs arbitrary: s) (auto simp: has_put)

end

interpretation str_store: typed_store Set_value Contains Get_string VString
  by unfold_locales
    (auto simp: Set_value_def Contains_def Get_string_def split: option.splits Value.splits)

interpretation int_store: typed_store Set_value Contains Get_int VInt
  by unfold_locales
    (auto simp: Set_value_def Contains_def Get_int_def split: option.splits Value.splits)

interpretation bool_store: typed_store Set_value Contains Get_bool VBool
  by unfold_locales
    (auto simp: Set_value_def Contains_def Get_bool_def split: option.splits Value.splits)

text \<open>
  A stored value is read back at its own type, read at another type it is a
  \<open>bad_variant_access\<close>, and after any sequence of stores a key reads as \<open>out_of_range\<close> exactly
  when no store named it and it was absent before.
\<close>

theorem property_bag_get:
  "Get_int (Set_value k (VInt i) b) k = Inr i \<and>
   Get_string (Set_value k (VInt i) b) k = Inl bad_variant_access \<and>
   (Get_string (fold (\<lambda>(k, w). Set_value k w) kvs b) k = Inl out_of_range \<longleftrightarrow>
      \<not> (k \<in> set (map fst kvs) \<or> Contains b k))"
proof -
  have "Get_string b' k = Inl out_of_range \<longleftrightarrow> \<not> Contains b' k" for b'
    by (auto simp: Get_string_def Contains_def split: option.splits Value.splits)
  then show ?thesis
    by (simp add: int_store.get_put str_store.has_fold)
      (simp add: Get_string_def Set_value_def)
qed

end
