(* ===== verification/Work_Queue.thy ===== *)
theory Work_Queue
  imports Prelude
begin

text \<open>
  \<open>src/Queue.cpp\<close>: the blocking queue. \<open>QueueBase\<close> is the protected list; \<open>queue_sys\<close> adds the
  threads the condition variable holds, with the two histories the FIFO claim is about. The locale
  \<open>fifo\<close> is the contract its users (the data-channel worker) rely on.
\<close>

record 'a QueueBase =
  m_Items :: "'a list"

definition CreateQueue :: "'a QueueBase" where
  "CreateQueue = \<lparr>m_Items = []\<rparr>"

text \<open>\<open>None\<close> is the null pointer, which is ignored.\<close>

definition AddItem :: "'a option \<Rightarrow> 'a QueueBase \<Rightarrow> 'a QueueBase" where
  "AddItem item q = (case item of None \<Rightarrow> q | Some x \<Rightarrow> q\<lparr>m_Items := m_Items q @ [x]\<rparr>)"

text \<open>\<open>None\<close>: the caller waits on the condition variable.\<close>

definition GetItem :: "'a QueueBase \<Rightarrow> ('a \<times> 'a QueueBase) option" where
  "GetItem q = (case m_Items q of [] \<Rightarrow> None | x # xs \<Rightarrow> Some (x, q\<lparr>m_Items := xs\<rparr>))"

definition GetSize :: "'a QueueBase \<Rightarrow> nat" where
  "GetSize q = length (m_Items q)"

section \<open>The first-in first-out contract\<close>

fun get_n :: "('q \<Rightarrow> ('a \<times> 'q) option) \<Rightarrow> nat \<Rightarrow> 'q \<Rightarrow> ('a list \<times> 'q) option" where
  "get_n deq 0 q = Some ([], q)"
| "get_n deq (Suc n) q =
     (case deq q of None \<Rightarrow> None
      | Some (x, q') \<Rightarrow> (case get_n deq n q' of None \<Rightarrow> None
          | Some (xs, q'') \<Rightarrow> Some (x # xs, q'')))"

locale fifo =
  fixes items :: "'q \<Rightarrow> 'a list" and empty :: 'q and enq :: "'a \<Rightarrow> 'q \<Rightarrow> 'q"
    and deq :: "'q \<Rightarrow> ('a \<times> 'q) option"
  assumes items_empty: "items empty = []"
    and items_enq: "items (enq x q) = items q @ [x]"
    and deq_None: "deq q = None \<longleftrightarrow> items q = []"
    and deq_Some: "deq q = Some (x, q') \<Longrightarrow> items q = x # items q'"
begin

lemma items_enq_all: "items (fold enq xs q) = items q @ xs"
  by (induction xs arbitrary: q) (auto simp: items_enq)

lemma get_all: "n = length (items q) \<Longrightarrow> \<exists>q'. get_n deq n q = Some (items q, q') \<and> items q' = []"
proof (induction n arbitrary: q)
  case 0
  then show ?case by simp
next
  case (Suc n)
  then have "deq q \<noteq> None" by (auto simp: deq_None)
  then obtain x q' where d: "deq q = Some (x, q')" by auto
  then have "items q = x # items q'" by (rule deq_Some)
  with Suc obtain q'' where "get_n deq n q' = Some (items q', q'')" "items q'' = []" by auto
  with d \<open>items q = x # items q'\<close> show ?case by simp
qed

lemma enq_all_get_all: "\<exists>q'. get_n deq (length xs) (fold enq xs empty) = Some (xs, q') \<and> items q' = []"
  using get_all [of "length xs" "fold enq xs empty"] by (simp add: items_enq_all items_empty)

end

interpretation wq: fifo m_Items CreateQueue "\<lambda>x. AddItem (Some x)" GetItem
  by unfold_locales
    (auto simp: CreateQueue_def AddItem_def GetItem_def split: list.splits)

lemma GetSize_AddItem: "GetSize (AddItem i q) = GetSize q + (if i = None then 0 else 1)"
  by (auto simp: GetSize_def AddItem_def split: option.splits)

section \<open>Threads on the condition variable\<close>

text \<open>
  \<open>cv_waiting\<close>: threads blocked in \<open>wait\<close>; \<open>cv_woken\<close>: threads notified that have not yet
  reacquired the mutex to test the predicate. \<open>added\<close> and \<open>taken\<close> are histories. Every rule is one
  critical section of \<open>m_Mutex\<close>, or a notification.
\<close>

record 'a queue_sys =
  queue :: "'a QueueBase"
  cv_waiting :: "nat set"
  cv_woken :: "nat set"
  added :: "'a list"
  taken :: "'a list"

definition queue_init :: "'a queue_sys \<Rightarrow> bool" where
  "queue_init s \<longleftrightarrow> s = \<lparr>queue = CreateQueue, cv_waiting = {}, cv_woken = {}, added = [], taken = []\<rparr>"

inductive queue_step :: "'a queue_sys \<Rightarrow> 'a queue_sys \<Rightarrow> bool" where
  add_null: "queue_step s (s\<lparr>queue := AddItem None (queue s)\<rparr>)"
| add_quiet: "cv_waiting s = {} \<Longrightarrow>
     queue_step s (s\<lparr>queue := AddItem (Some x) (queue s), added := added s @ [x]\<rparr>)"
| add_notify: "t \<in> cv_waiting s \<Longrightarrow>
     queue_step s (s\<lparr>queue := AddItem (Some x) (queue s), added := added s @ [x],
       cv_waiting := cv_waiting s - {t}, cv_woken := insert t (cv_woken s)\<rparr>)"
| get_take: "t \<notin> cv_waiting s \<union> cv_woken s \<Longrightarrow> GetItem (queue s) = Some (x, q) \<Longrightarrow>
     queue_step s (s\<lparr>queue := q, taken := taken s @ [x]\<rparr>)"
| get_wait: "t \<notin> cv_waiting s \<union> cv_woken s \<Longrightarrow> GetItem (queue s) = None \<Longrightarrow>
     queue_step s (s\<lparr>cv_waiting := insert t (cv_waiting s)\<rparr>)"
| wake_take: "t \<in> cv_woken s \<Longrightarrow> GetItem (queue s) = Some (x, q) \<Longrightarrow>
     queue_step s (s\<lparr>queue := q, taken := taken s @ [x], cv_woken := cv_woken s - {t}\<rparr>)"
| wake_wait: "t \<in> cv_woken s \<Longrightarrow> GetItem (queue s) = None \<Longrightarrow>
     queue_step s (s\<lparr>cv_woken := cv_woken s - {t}, cv_waiting := insert t (cv_waiting s)\<rparr>)"
| spurious: "t \<in> cv_waiting s \<Longrightarrow>
     queue_step s (s\<lparr>cv_waiting := cv_waiting s - {t}, cv_woken := insert t (cv_woken s)\<rparr>)"
| notify_all: "queue_step s (s\<lparr>cv_waiting := {}, cv_woken := cv_woken s \<union> cv_waiting s\<rparr>)"

definition queue_inv :: "'a queue_sys \<Rightarrow> bool" where
  "queue_inv s \<longleftrightarrow> finite (cv_waiting s) \<and> finite (cv_woken s) \<and> cv_waiting s \<inter> cv_woken s = {} \<and>
     (cv_waiting s = {} \<or> length (m_Items (queue s)) \<le> card (cv_woken s)) \<and>
     added s = taken s @ m_Items (queue s)"

lemma queue_inv_init: "queue_init s \<Longrightarrow> queue_inv s"
  by (simp add: queue_init_def queue_inv_def CreateQueue_def)

lemma card_insert_disjoint': "finite A \<Longrightarrow> t \<notin> A \<Longrightarrow> card (insert t A) = Suc (card A)"
  by simp

lemma queue_inv_step: "queue_inv s \<Longrightarrow> queue_step s t \<Longrightarrow> queue_inv t"
proof (rotate_tac, induction rule: queue_step.induct)
  case (add_notify t s x)
  then have "t \<notin> cv_woken s" by (auto simp: queue_inv_def)
  with add_notify show ?case
    by (auto simp: queue_inv_def AddItem_def card_insert_disjoint')
next
  case (spurious t s)
  then have "t \<notin> cv_woken s" by (auto simp: queue_inv_def)
  with spurious show ?case by (auto simp: queue_inv_def card_insert_disjoint')
next
  case (wake_take t s x q)
  then show ?case
    by (auto simp: queue_inv_def GetItem_def card_Diff_singleton split: list.splits)
qed (auto simp: queue_inv_def AddItem_def GetItem_def split: list.splits)

interpretation qs: invariant_system queue_init queue_step queue_inv
  by unfold_locales (auto intro: queue_inv_init queue_inv_step)

section \<open>What the queue guarantees\<close>

text \<open>
  C22: in every interleaving of producers and consumers, the items handed out so far followed by
  the items still queued are exactly the items added, in the order they were added: nothing is
  lost, duplicated or reordered.
\<close>

theorem queue_fifo:
  assumes "reach queue_init queue_step s"
  shows "added s = taken s @ m_Items (queue s)"
  using qs.inv_reach [OF assms] by (simp add: queue_inv_def)

text \<open>A run in which two consumers wait before the producer adds one item.\<close>

definition two_waiters :: "string queue_sys" where
  "two_waiters = \<lparr>queue = \<lparr>m_Items = []\<rparr>, cv_waiting = {1, 2}, cv_woken = {}, added = [], taken = []\<rparr>"

definition one_woken :: "string queue_sys" where
  "one_woken = \<lparr>queue = \<lparr>m_Items = [''a'']\<rparr>, cv_waiting = {2}, cv_woken = {1}, added = [''a''], taken = []\<rparr>"

lemma reach_two_waiters: "reach queue_init queue_step two_waiters"
proof -
  let ?s0 = "\<lparr>queue = CreateQueue, cv_waiting = {}, cv_woken = {}, added = [], taken = []\<rparr> :: string queue_sys"
  let ?s1 = "?s0\<lparr>cv_waiting := {2::nat}\<rparr>"
  have "reach queue_init queue_step ?s0" by (rule reach_init) (simp add: queue_init_def)
  moreover have "queue_step ?s0 ?s1"
    using queue_step.get_wait [of 2 ?s0] by (simp add: GetItem_def CreateQueue_def)
  ultimately have "reach queue_init queue_step ?s1" by (rule reach_step)
  moreover have "queue_step ?s1 two_waiters"
    using queue_step.get_wait [of 1 ?s1] by (simp add: GetItem_def CreateQueue_def two_waiters_def)
  ultimately show ?thesis by (rule reach_step)
qed

lemma reach_one_woken: "reach queue_init queue_step one_woken"
proof -
  have "queue_step two_waiters one_woken"
    using queue_step.add_notify [of 1 two_waiters "''a''"]
    by (simp add: two_waiters_def one_woken_def AddItem_def insert_Diff_if)
  with reach_two_waiters show ?thesis by (rule reach_step)
qed

theorem queue_fifo_witness: "added one_woken = taken one_woken @ m_Items (queue one_woken)"
  by (rule queue_fifo [OF reach_one_woken])

text \<open>
  C23: no wake-up is lost although only one thread is notified per item: whenever a thread is
  blocked, at least as many threads are already woken as there are items, so if an item is queued
  some woken thread can take it as the next step of the queue.
\<close>

theorem queue_no_lost_wakeup:
  assumes "reach queue_init queue_step s" and "cv_waiting s \<noteq> {}"
  shows "length (m_Items (queue s)) \<le> card (cv_woken s) \<and>
    (m_Items (queue s) = [] \<or>
      (\<exists>s'. queue_step s s' \<and> taken s' = taken s @ [hd (m_Items (queue s))] \<and>
        m_Items (queue s') = tl (m_Items (queue s))))"
proof -
  have len: "length (m_Items (queue s)) \<le> card (cv_woken s)"
    using qs.inv_reach [OF assms(1)] assms(2) by (simp add: queue_inv_def)
  show ?thesis
  proof (cases "m_Items (queue s)")
    case Nil
    then show ?thesis by simp
  next
    case (Cons x xs)
    with len have "cv_woken s \<noteq> {}" by auto
    then obtain t where "t \<in> cv_woken s" by auto
    with Cons have "queue_step s (s\<lparr>queue := (queue s)\<lparr>m_Items := xs\<rparr>, taken := taken s @ [x],
        cv_woken := cv_woken s - {t}\<rparr>)"
      by (intro queue_step.wake_take) (simp_all add: GetItem_def)
    with len Cons show ?thesis by fastforce
  qed
qed

theorem queue_no_lost_wakeup_witness:
  "\<exists>s'. queue_step one_woken s' \<and> taken s' = [''a''] \<and> m_Items (queue s') = []"
  using queue_no_lost_wakeup [OF reach_one_woken] by (simp add: one_woken_def)

end
