(* ===== verification/Local_Description.thy ===== *)
theory Local_Description
  imports Json_Doc "HOL-Library.Word"
begin

text \<open>
  \<open>src/LocalDescription.cpp\<close>: UUIDs, the Base64 wrappers and the JSON form of a local description. The
  random bytes of a UUID are an argument; libb64's encoder and decoder are the parameters \<open>enc\<close> and
  \<open>dec\<close>, the JSON parser is \<open>parse\<close>. \<open>json_text\<close> is the compact text of a document as RFC 8259 writes
  it when no character needs an escape.
\<close>

unbundle bit_operations_syntax

section \<open>UUIDs\<close>

definition hex_digit :: "nat \<Rightarrow> char" where
  "hex_digit n = ''0123456789ABCDEF'' ! n"

definition hex_byte :: "8 word \<Rightarrow> string" where
  "hex_byte b = [hex_digit (unat b div 16), hex_digit (unat b mod 16)]"

definition set_version :: "8 word list \<Rightarrow> 8 word list" where
  "set_version bs = bs[6 := (bs ! 6 AND 0x0F) OR 0x40, 8 := (bs ! 8 AND 0x3F) OR 0x80]"

definition generateUUID :: "8 word list \<Rightarrow> string" where
  "generateUUID random = (let bs = set_version random in
     concat (map (\<lambda>i. (if i \<in> {4, 6, 8, 10} then ''-'' else []) @ hex_byte (bs ! i)) [0..<16]))"

lemma hex_digit_set: "n < 16 \<Longrightarrow> hex_digit n \<in> set ''0123456789ABCDEF''"
  unfolding hex_digit_def by (rule nth_mem) simp

lemma hex_digit_inj: "m < 16 \<Longrightarrow> n < 16 \<Longrightarrow> hex_digit m = hex_digit n \<longleftrightarrow> m = n"
  unfolding hex_digit_def by (subst nth_eq_iff_index_eq) simp_all

lemma unat_byte: "unat (b :: 8 word) < 256"
  using unsigned_less [of b] by simp

lemma hex_byte_inj: "hex_byte a = hex_byte b \<longleftrightarrow> a = b"
proof
  assume "hex_byte a = hex_byte b"
  then have "unat a div 16 = unat b div 16" "unat a mod 16 = unat b mod 16"
    using unat_byte [of a] unat_byte [of b] by (auto simp: hex_byte_def hex_digit_inj)
  then have "unat a = unat b" by (metis div_mult_mod_eq)
  then show "a = b" by (rule word_unat_eq_iff [THEN iffD2])
qed simp

lemma version_byte: "unat ((b AND 0x0F) OR 0x40 :: 8 word) div 16 = 4"
proof -
  have "drop_bit 4 ((b AND 0x0F) OR 0x40) = (4 :: 8 word)"
    by (rule bit_word_eqI) (auto simp: bit_simps bit_numeral_rec less_Suc_eq numeral_eq_Suc)
  then have "unat (drop_bit 4 ((b AND 0x0F) OR 0x40) :: 8 word) = 4" by simp
  then show ?thesis by (simp add: drop_bit_eq_div unat_div_distrib)
qed

lemma variant_byte: "unat ((b AND 0x3F) OR 0x80 :: 8 word) div 16 \<in> {8, 9, 10, 11}"
proof -
  have "drop_bit 6 ((b AND 0x3F) OR 0x80) = (2 :: 8 word)"
    by (rule bit_word_eqI) (auto simp: bit_simps bit_numeral_rec less_Suc_eq numeral_eq_Suc)
  then have "unat (drop_bit 6 ((b AND 0x3F) OR 0x80) :: 8 word) = 2" by simp
  then have "unat ((b AND 0x3F) OR 0x80 :: 8 word) div 64 = 2"
    by (simp add: drop_bit_eq_div unat_div_distrib)
  then show ?thesis by auto
qed

lemma upt_uuid:
  "[0..<16] = [0, 1, 2, 3, 4, 5, 6, 7, 8, 9, 10, 11, 12, 13, 14, 15 :: nat]"
  by code_simp

lemma generateUUID_bytes:
  "generateUUID r = (let b = (\<lambda>i. hex_byte (set_version r ! i)) in
     b 0 @ b 1 @ b 2 @ b 3 @ ''-'' @ b 4 @ b 5 @ ''-'' @ b 6 @ b 7 @ ''-'' @ b 8 @ b 9 @ ''-'' @
     b 10 @ b 11 @ b 12 @ b 13 @ b 14 @ b 15)"
  by (simp add: generateUUID_def Let_def upt_uuid)

lemma nth_16: "length xs = 16 \<Longrightarrow> length ys = 16 \<Longrightarrow> \<forall>i \<in> set [0..<16]. xs ! i = ys ! i \<Longrightarrow> xs = ys"
  by (rule nth_equalityI) auto

lemma length_hex_byte [simp]: "length (hex_byte b) = 2"
  by (simp add: hex_byte_def)

lemma generateUUID_chars: "set (generateUUID r) \<subseteq> set ''-0123456789ABCDEF''"
proof -
  have "set (hex_byte b) \<subseteq> set ''-0123456789ABCDEF''" for b
    using hex_digit_set [of "unat b div 16"] hex_digit_set [of "unat b mod 16"] unat_byte [of b]
    by (auto simp: hex_byte_def)
  then show ?thesis unfolding generateUUID_def Let_def by fastforce
qed



section \<open>Base64\<close>

definition base64Encode :: "(string \<Rightarrow> string) \<Rightarrow> string \<Rightarrow> string option" where
  "base64Encode enc input = (if input = [] then None
     else Some (filter (\<lambda>c. c \<noteq> CHR 0x0A \<and> c \<noteq> CHR 0x0D) (enc input)))"

text \<open>The decoder writes into a buffer of \<open>strlen\<close> bytes: \<open>None\<close> is a write past its end.\<close>

definition base64Decode :: "(string \<Rightarrow> string) \<Rightarrow> string \<Rightarrow> (bool \<times> string) option" where
  "base64Decode dec input = (if input = [] then Some (False, [])
     else if length (dec input) \<le> length (c_str input) then Some (True, dec input) else None)"

text \<open>
  What is relied on of libb64: decoding ignores the line breaks of the encoder's output, gives the
  input back, and yields no more characters than it reads; encoded text is printable.
\<close>

definition b64_codec :: "(string \<Rightarrow> string) \<Rightarrow> (string \<Rightarrow> string) \<Rightarrow> bool" where
  "b64_codec enc dec \<longleftrightarrow> (\<forall>s. dec (filter (\<lambda>c. c \<noteq> CHR 0x0A \<and> c \<noteq> CHR 0x0D) (enc s)) = s \<and>
     (s = [] \<longleftrightarrow> filter (\<lambda>c. c \<noteq> CHR 0x0A \<and> c \<noteq> CHR 0x0D) (enc s) = []) \<and>
     nul_free (enc s)) \<and> (\<forall>s. length (dec s) \<le> length s)"

lemma base64_roundtrip:
  assumes "b64_codec enc dec" and "base64Encode enc s = Some e"
  shows "base64Decode dec e = Some (True, s)" and "e \<noteq> []" and "nul_free e"
proof -
  let ?e = "filter (\<lambda>c. c \<noteq> CHR 0x0A \<and> c \<noteq> CHR 0x0D) (enc s)"
  have c: "dec ?e = s" "s = [] \<longleftrightarrow> ?e = []" "nul_free (enc s)" "length (dec ?e) \<le> length ?e"
    using assms(1) unfolding b64_codec_def by blast+
  have e: "e = ?e" "s \<noteq> []" using assms(2) by (auto simp only: base64Encode_def split: if_splits)
  with c(2) show ne: "e \<noteq> []" by metis
  show nf: "nul_free e" using c(3) by (simp add: e(1) nul_free_def)
  show "base64Decode dec e = Some (True, s)"
    using c(1,4) ne nf unfolding e(1) [symmetric] by (simp add: base64Decode_def)
qed

text \<open>A codec: two hexadecimal digits per character.\<close>

definition hex_enc :: "string \<Rightarrow> string" where
  "hex_enc s = concat (map (\<lambda>c. [char_of (65 + (of_char c :: nat) div 16), char_of (65 + (of_char c :: nat) mod 16)]) s)"

fun hex_dec :: "string \<Rightarrow> string" where
  "hex_dec (a # b # s) = char_of (((of_char a :: nat) - 65) * 16 + ((of_char b :: nat) - 65)) # hex_dec s"
| "hex_dec _ = []"

lemma hex_pair:
  "n < 256 \<Longrightarrow> char_of (65 + n div 16) \<notin> {CHR 0x0A, CHR 0x0D, CHR 0x00} \<and>
    char_of (65 + n mod 16) \<notin> {CHR 0x0A, CHR 0x0D, CHR 0x00} \<and>
    (of_char (char_of (65 + n div 16)) :: nat) = 65 + n div 16 \<and>
    (of_char (char_of (65 + n mod 16)) :: nat) = 65 + n mod 16"
proof -
  assume n: "n < 256"
  have *: "char_of m \<notin> {CHR 0x0A, CHR 0x0D, CHR 0x00} \<and> (of_char (char_of m) :: nat) = m"
    if "65 \<le> m" "m < 256" for m :: nat
  proof -
    have e: "(of_char (char_of m) :: nat) = m" using that by simp
    have "char_of m \<noteq> c" if "(of_char c :: nat) < 65" for c using that e \<open>65 \<le> m\<close> by auto
    from this [of "CHR 0x0A"] this [of "CHR 0x0D"] this [of "CHR 0x00"] e show ?thesis by simp
  qed
  have "n div 16 < 16" "n mod 16 < 16" using n by auto
  then show ?thesis using * [of "65 + n div 16"] * [of "65 + n mod 16"] by simp
qed

lemma hex_filter: "filter (\<lambda>c. c \<noteq> CHR 0x0A \<and> c \<noteq> CHR 0x0D) (hex_enc s) = hex_enc s"
  and hex_nul_free: "nul_free (hex_enc s)"
proof -
  have "c \<notin> {CHR 0x0A, CHR 0x0D, CHR 0x00}" if "c \<in> set (hex_enc s)" for c
    using that hex_pair [of "of_char d" for d] by (auto simp: hex_enc_def)
  then show "filter (\<lambda>c. c \<noteq> CHR 0x0A \<and> c \<noteq> CHR 0x0D) (hex_enc s) = hex_enc s" and "nul_free (hex_enc s)"
    by (auto simp: nul_free_def filter_id_conv)
qed

lemma hex_dec_enc: "hex_dec (hex_enc s) = s"
proof (induction s)
  case (Cons c s)
  then show ?case using hex_pair [of "of_char c"] by (simp add: hex_enc_def)
qed (simp add: hex_enc_def)

lemma hex_codec: "b64_codec hex_enc hex_dec"
proof -
  have "length (hex_dec s) \<le> length s" for s by (induction s rule: hex_dec.induct) auto
  moreover have "s = [] \<longleftrightarrow> hex_enc s = []" for s by (cases s) (simp_all add: hex_enc_def)
  ultimately show ?thesis
    by (simp add: b64_codec_def hex_filter hex_dec_enc hex_nul_free)
qed

section \<open>The JSON form\<close>

record local_description =
  UUID :: string
  descriptions :: "string list"
  candidates :: "string list"

definition LocalDescription :: "8 word list \<Rightarrow> local_description" where
  "LocalDescription random_bytes = \<lparr>UUID = generateUUID random_bytes, descriptions = [], candidates = []\<rparr>"

text \<open>
  The callbacks \<open>obtainInitialDescription\<close> installs, over the object they share: the gathering state
  changes (to \<open>Complete\<close> or another one), a description or a candidate of this side is known.
\<close>

datatype gather_event =
    GatheringStateChange bool
  | OnLocalDescription string
  | OnLocalCandidate string

record GatheredDescription =
  gather_complete :: bool
  gather_description :: local_description

fun on_gather :: "gather_event \<Rightarrow> GatheredDescription \<Rightarrow> GatheredDescription" where
  "on_gather (GatheringStateChange final) g = (if final then g\<lparr>gather_complete := True\<rparr> else g)"
| "on_gather (OnLocalDescription s) g = g\<lparr>gather_description :=
     (gather_description g)\<lparr>descriptions := descriptions (gather_description g) @ [s]\<rparr>\<rparr>"
| "on_gather (OnLocalCandidate s) g = g\<lparr>gather_description :=
     (gather_description g)\<lparr>candidates := candidates (gather_description g) @ [s]\<rparr>\<rparr>"

definition reported_descriptions :: "gather_event list \<Rightarrow> string list" where
  "reported_descriptions evs = concat (map (\<lambda>e. case e of OnLocalDescription s \<Rightarrow> [s] | _ \<Rightarrow> []) evs)"

definition reported_candidates :: "gather_event list \<Rightarrow> string list" where
  "reported_candidates evs = concat (map (\<lambda>e. case e of OnLocalCandidate s \<Rightarrow> [s] | _ \<Rightarrow> []) evs)"

lemma fold_on_gather:
  "gather_complete (fold on_gather evs g) \<longleftrightarrow> gather_complete g \<or> GatheringStateChange True \<in> set evs"
  "descriptions (gather_description (fold on_gather evs g)) =
     descriptions (gather_description g) @ reported_descriptions evs"
  "candidates (gather_description (fold on_gather evs g)) =
     candidates (gather_description g) @ reported_candidates evs"
  "UUID (gather_description (fold on_gather evs g)) = UUID (gather_description g)"
proof (induction evs arbitrary: g)
  case Nil
  { case 1 show ?case by simp }
  { case 2 show ?case by (simp add: reported_descriptions_def) }
  { case 3 show ?case by (simp add: reported_candidates_def) }
  { case 4 show ?case by simp }
next
  case (Cons e evs)
  { case 1 show ?case using Cons(1) by (cases e) auto }
  { case 2 show ?case using Cons(2) by (cases e) (auto simp: reported_descriptions_def) }
  { case 3 show ?case using Cons(3) by (cases e) (auto simp: reported_candidates_def) }
  { case 4 show ?case using Cons(4) by (cases e) auto }
qed

text \<open>\<open>if (i > 0) oss << ","; if (base64Encode(items[i], encoded)) oss << "\"" << encoded << "\""\<close>.\<close>

definition encoded_item :: "(string \<Rightarrow> string) \<Rightarrow> string \<Rightarrow> string" where
  "encoded_item enc x = (case base64Encode enc x of None \<Rightarrow> [] | Some e \<Rightarrow> ''\"'' @ e @ ''\"'')"

definition encoded_items :: "(string \<Rightarrow> string) \<Rightarrow> string list \<Rightarrow> string" where
  "encoded_items enc items = concat (map (\<lambda>i. (if i > 0 then '','' else []) @ encoded_item enc (items ! i))
     [0..<length items])"

definition GetDescriptionsJson :: "(string \<Rightarrow> string) \<Rightarrow> local_description \<Rightarrow> string" where
  "GetDescriptionsJson enc d = ''\"descriptions\" :['' @ encoded_items enc (descriptions d) @ '']''"

definition GetCandidatesJson :: "(string \<Rightarrow> string) \<Rightarrow> local_description \<Rightarrow> string" where
  "GetCandidatesJson enc d = ''\"candidates\" :['' @ encoded_items enc (candidates d) @ '']''"

definition toJson :: "(string \<Rightarrow> string) \<Rightarrow> local_description \<Rightarrow> string" where
  "toJson enc d = ''{\"UUID\":\"'' @ UUID d @ ''\"'' @
     '','' @ ''\"descriptions\"'' @ '':['' @ encoded_items enc (descriptions d) @ '']'' @
     '','' @ ''\"candidates\"'' @ '':['' @ encoded_items enc (candidates d) @ '']'' @ ''}''"

text \<open>\<open>processArrays\<close>: the strings of the array that decode, in order.\<close>

fun decode_items :: "(string \<Rightarrow> string) \<Rightarrow> json list \<Rightarrow> string list \<Rightarrow> string list option" where
  "decode_items dec [] target = Some target"
| "decode_items dec (v # vs) target =
     (case get_string v of None \<Rightarrow> decode_items dec vs target
      | Some s \<Rightarrow>
         (case base64Decode dec s of None \<Rightarrow> None
          | Some (ok, out) \<Rightarrow> decode_items dec vs (if ok then target @ [out] else target)))"

definition process_array :: "(string \<Rightarrow> string) \<Rightarrow> doc \<Rightarrow> string \<Rightarrow> string list option" where
  "process_array dec doc name =
     (case array_at doc name of None \<Rightarrow> Some [] | Some vs \<Rightarrow> decode_items dec vs [])"

definition parse_description ::
    "(string \<Rightarrow> string) \<Rightarrow> (string \<Rightarrow> json option) \<Rightarrow> string \<Rightarrow> local_description option" where
  "parse_description dec parse jsonStr =
     (case parse jsonStr of
        None \<Rightarrow> Some \<lparr>UUID = [], descriptions = [], candidates = []\<rparr>
      | Some (JObj doc) \<Rightarrow> do {
          ds \<leftarrow> process_array dec doc ''descriptions'';
          cs \<leftarrow> process_array dec doc ''candidates'';
          Some \<lparr>UUID = (case string_at doc ''UUID'' of None \<Rightarrow> [] | Some u \<Rightarrow> u), descriptions = ds, candidates = cs\<rparr> }
      | Some v \<Rightarrow> None)"

text \<open>The compact JSON text of a document whose strings need no escapes.\<close>

fun json_text :: "json \<Rightarrow> string" where
  "json_text (JStr s) = ''\"'' @ s @ ''\"''"
| "json_text (JArr vs) = ''['' @ join_with CHR '','' (map json_text vs) @ '']''"
| "json_text (JObj ms) = ''{'' @ join_with CHR '','' (map (\<lambda>(n, v). ''\"'' @ n @ ''\":'' @ json_text v) ms) @ ''}''"
| "json_text _ = ''null''"

definition description_doc :: "(string \<Rightarrow> string) \<Rightarrow> local_description \<Rightarrow> json" where
  "description_doc enc d = JObj [(''UUID'', JStr (UUID d)),
     (''descriptions'', JArr (map (\<lambda>x. JStr (the (base64Encode enc x))) (descriptions d))),
     (''candidates'', JArr (map (\<lambda>x. JStr (the (base64Encode enc x))) (candidates d)))]"

lemma encoded_items_snoc:
  "encoded_items enc (zs @ [z]) =
     encoded_items enc zs @ (if zs \<noteq> [] then '','' else []) @ encoded_item enc z"
proof -
  have "map (\<lambda>i. (if i > 0 then '','' else []) @ encoded_item enc ((zs @ [z]) ! i)) [0..<length zs] =
      map (\<lambda>i. (if i > 0 then '','' else []) @ encoded_item enc (zs ! i)) [0..<length zs]"
    by (rule map_cong) (auto simp: nth_append)
  then show ?thesis unfolding encoded_items_def by (simp add: nth_append del: map_eq_conv)
qed

lemma encoded_items_join:
  "encoded_items enc items = join_with CHR '','' (map (encoded_item enc) items)"
proof (induction items rule: rev_induct)
  case Nil
  then show ?case by (simp add: encoded_items_def)
next
  case (snoc z zs)
  then show ?case
    using join_with_append [of "map (encoded_item enc) zs" "[encoded_item enc z]" "CHR '',''"]
    by (cases "zs = []") (use encoded_items_snoc [of enc "[]" z] in \<open>simp_all add: encoded_items_snoc\<close>)
qed

lemma toJson_text:
  assumes "[] \<notin> set (descriptions d)" and "[] \<notin> set (candidates d)"
  shows "toJson enc d = json_text (description_doc enc d)"
proof -
  have "map (encoded_item enc) xs = map (\<lambda>x. json_text (JStr (the (base64Encode enc x)))) xs"
    if "[] \<notin> set xs" for xs
    using that by (auto simp: encoded_item_def base64Encode_def)
  from this [OF assms(1)] this [OF assms(2)] show ?thesis
    by (simp add: toJson_def description_doc_def encoded_items_join o_def del: map_eq_conv)
qed

lemma decode_items_encoded:
  assumes "b64_codec enc dec" and "[] \<notin> set xs"
  shows "decode_items dec (map (\<lambda>x. JStr (the (base64Encode enc x))) xs) target = Some (target @ xs)"
  using assms(2)
proof (induction xs arbitrary: target)
  case (Cons x xs)
  then obtain e where "base64Encode enc x = Some e" by (auto simp: base64Encode_def)
  with Cons base64_roundtrip [OF assms(1) this] show ?case by simp
qed simp

text \<open>
  C30: a local description survives its JSON form: when no gathered string is empty, \<open>toJson\<close> is the
  compact JSON text of the document with the encoded strings, and the constructor that reads such a
  text back yields the description that was written.
\<close>

theorem description_roundtrip:
  assumes "b64_codec enc dec" and "parse (json_text (description_doc enc d)) = Some (description_doc enc d)"
    and "[] \<notin> set (descriptions d)" and "[] \<notin> set (candidates d)" and "nul_free (UUID d)"
  shows "toJson enc d = json_text (description_doc enc d) \<and>
    parse_description dec parse (toJson enc d) = Some d"
  using toJson_text [OF assms(3,4), of enc] assms(2,5)
    decode_items_encoded [OF assms(1,3), of "[]"] decode_items_encoded [OF assms(1,4), of "[]"]
  by (simp add: parse_description_def description_doc_def process_array_def array_at_def string_at_def)

definition demo_description :: local_description where
  "demo_description = \<lparr>UUID = ''u'', descriptions = [''v=0''], candidates = [''a'', ''b'']\<rparr>"

theorem description_roundtrip_witness:
  "parse_description hex_dec (\<lambda>s. Some (description_doc hex_enc demo_description)) (toJson hex_enc demo_description) =
     Some demo_description"
  by (rule description_roundtrip [THEN conjunct2, OF hex_codec])
    (simp_all add: demo_description_def nul_free_def)

text \<open>
  An empty gathered string breaks the text: it is written as nothing between its commas, so the
  candidates fragment of two empty strings is the single comma no JSON parser accepts.
\<close>

theorem empty_string_breaks_json:
  "GetCandidatesJson enc (d\<lparr>candidates := [[], []]\<rparr>) = ''\"candidates\" :[,]'' \<and>
   GetDescriptionsJson enc (d\<lparr>descriptions := [[], []]\<rparr>) = ''\"descriptions\" :[,]''"
  by (simp add: GetCandidatesJson_def GetDescriptionsJson_def encoded_items_join encoded_item_def base64Encode_def)

end
