(* ===== verification/Mime_Crc.thy ===== *)
theory Mime_Crc
  imports Prelude "HOL-Library.Word"
begin

text \<open>
  \<open>include/MimeDetector.hpp\<close>: the streamed, table-driven CRC-32, the MIME type and the metadata of an offer.
  A file is its bytes, \<open>None\<close> when it cannot be opened, the same at each of the detector's reads; what
  libmagic answers is a \<open>magic_lib\<close>. Words are 32 bits wide, as \<open>std::uint32_t\<close>.
\<close>

unbundle bit_operations_syntax

type_synonym u32 = "32 word"

definition crc_bit :: "u32 \<Rightarrow> u32" where
  "crc_bit c = (if c AND 1 \<noteq> 0 then 0xEDB88320 XOR drop_bit 1 c else drop_bit 1 c)"

definition crc_entry :: "u32 \<Rightarrow> u32" where
  "crc_entry i = (crc_bit ^^ 8) i"

definition crc_table :: "u32 list" where
  "crc_table = map (\<lambda>i. crc_entry (word_of_nat i)) [0..<256]"

definition byte_word :: "char \<Rightarrow> u32" where
  "byte_word b = word_of_nat (of_char b)"

definition crc_byte :: "u32 \<Rightarrow> char \<Rightarrow> u32" where
  "crc_byte crc b = crc_table ! unat ((crc XOR byte_word b) AND 0xFF) XOR drop_bit 8 crc"

text \<open>\<open>get_crc\<close>: the read loop over blocks of 65536 bytes; \<open>None\<close> is the exception on a file that does not open.\<close>

definition crc_blocks :: "bytes list \<Rightarrow> u32 \<Rightarrow> u32" where
  "crc_blocks bs crc = foldl (\<lambda>c blk. foldl crc_byte c blk) crc bs"

definition get_crc :: "bytes option \<Rightarrow> u32 option" where
  "get_crc f = (case f of None \<Rightarrow> None
     | Some content \<Rightarrow> map_option (\<lambda>bs. crc_blocks bs 0xFFFFFFFF XOR 0xFFFFFFFF) (read_blocks 65536 content []))"

section \<open>Metadata\<close>

definition digit_char :: "nat \<Rightarrow> char" where
  "digit_char d = char_of (48 + d)"

fun to_string :: "nat \<Rightarrow> string" where
  "to_string n = (if n < 10 then [digit_char n] else to_string (n div 10) @ [digit_char (n mod 10)])"

declare to_string.simps [simp del]

definition file_text :: "string \<Rightarrow> bytes \<Rightarrow> string \<Rightarrow> string" where
  "file_text name content mime =
     ''{\"name\": \"'' @ name @ ''\", \"size\": '' @ to_string (length content) @ '', \"mimeType\": \"'' @ mime @
     ''\", \"crc\": '' @ to_string (unat (the (get_crc (Some content)))) @ ''}''"

text \<open>
  libmagic: whether a cookie can be had, whether its database loads, and the type of a buffer, \<open>None\<close> being
  the null pointer it documents for an error.
\<close>

record magic_lib =
  magic_open :: bool
  magic_load :: bool
  magic_buffer :: "bytes \<Rightarrow> string option"

text \<open>
  \<open>get_mime_type\<close>, \<open>Inl\<close> the message of the exception. The result of \<open>magic_buffer\<close> is turned into a string
  unchecked: of a null pointer libstdc++ makes the \<open>logic_error\<close> below; the C++ standard promises nothing.
\<close>

definition null_string_error :: string where
  "null_string_error = ''basic_string: construction from null is not valid''"

definition get_mime_type :: "magic_lib \<Rightarrow> bytes option \<Rightarrow> string \<Rightarrow> string + string" where
  "get_mime_type M f filename =
     (if \<not> magic_open M then Inl ''Failed to initialize libmagic''
      else if \<not> magic_load M then Inl ''Failed to load libmagic database''
      else case f of None \<Rightarrow> Inl (''Failed to open file: '' @ filename)
        | Some content \<Rightarrow> (case magic_buffer M content of None \<Rightarrow> Inl null_string_error | Some mime \<Rightarrow> Inr mime))"

definition error_text :: "string \<Rightarrow> string" where
  "error_text e = ''{\"error\": \"'' @ e @ ''\"}''"

definition get_file_info :: "magic_lib \<Rightarrow> bytes option \<Rightarrow> string \<Rightarrow> string \<Rightarrow> bool \<times> string" where
  "get_file_info M f filename displayName =
     (case get_mime_type M f filename of
        Inl e \<Rightarrow> (False, error_text e)
      | Inr mime \<Rightarrow> (case f of
            None \<Rightarrow> (False, error_text (''Failed to open file: '' @ filename))
          | Some content \<Rightarrow> (True, file_text (if displayName = [] then filename else displayName) content mime)))"

text \<open>Metadata is had exactly of a file that opens and that libmagic can tell the type of.\<close>

lemma get_file_info_True:
  "fst (get_file_info M f filename displayName) \<longleftrightarrow>
     magic_open M \<and> magic_load M \<and> (\<exists>content. f = Some content \<and> magic_buffer M content \<noteq> None)"
  by (auto simp: get_file_info_def get_mime_type_def split: option.splits)

lemma get_mime_type_Inr:
  "get_mime_type M f filename = Inr mime \<longleftrightarrow>
     magic_open M \<and> magic_load M \<and> (\<exists>content. f = Some content \<and> magic_buffer M content = Some mime)"
  by (auto simp: get_mime_type_def split: option.splits)

section \<open>The bitwise reference\<close>

text \<open>The CRC-32 of IEEE 802.3 one bit at a time: add the byte, then shift it out.\<close>

definition crc_byte_ref :: "u32 \<Rightarrow> char \<Rightarrow> u32" where
  "crc_byte_ref crc b = (crc_bit ^^ 8) (crc XOR byte_word b)"

definition crc32_ref :: "bytes \<Rightarrow> u32" where
  "crc32_ref content = foldl crc_byte_ref 0xFFFFFFFF content XOR 0xFFFFFFFF"

text \<open>The step of the shift register is linear over exclusive or.\<close>

lemma crc_bit_xor: "crc_bit (a XOR b) = crc_bit a XOR crc_bit b"
proof -
  have odd: "x AND 1 \<noteq> 0 \<longleftrightarrow> bit x 0" for x :: u32
    by (simp add: and_one_eq odd_iff_mod_2_eq_one bit_0 flip: odd_iff_mod_2_eq_one)
  show ?thesis
    unfolding crc_bit_def odd
    by (auto simp: bit_xor_iff drop_bit_xor xor.assoc xor.left_commute)
qed

lemma crc_bits_xor: "(crc_bit ^^ n) (a XOR b) = (crc_bit ^^ n) a XOR (crc_bit ^^ n) b"
  by (induction n) (simp_all add: crc_bit_xor)

lemma crc_bit_even: "\<not> bit c 0 \<Longrightarrow> crc_bit c = drop_bit 1 c"
  by (simp add: crc_bit_def and_one_eq bit_0 odd_iff_mod_2_eq_one [symmetric])

lemma crc_bits_high:
  "(\<forall>i < n. \<not> bit c i) \<Longrightarrow> (crc_bit ^^ n) c = drop_bit n c"
proof (induction n arbitrary: c)
  case 0
  then show ?case by simp
next
  case (Suc n)
  have "crc_bit c = drop_bit 1 c" using Suc.prems by (intro crc_bit_even) simp
  moreover have "\<forall>i < n. \<not> bit (drop_bit 1 c) i" using Suc.prems by (simp add: bit_drop_bit_eq)
  ultimately show ?case
    using Suc.IH [of "drop_bit 1 c"] by (simp add: funpow_Suc_right del: funpow.simps)
qed

lemma crc_byte_eq: "crc_byte crc b = crc_byte_ref crc b"
proof -
  let ?x = "crc XOR byte_word b"
  let ?low = "?x AND mask 8" and ?high = "?x AND NOT (mask 8)"
  have m: "(0xFF :: u32) = mask 8" by (simp add: mask_eq_exp_minus_1)
  have "unat ?low < 256"
    by (rule order.strict_trans1 [OF word_le_nat_alt [THEN iffD1, OF word_and_le1]])
      (simp add: m [symmetric])
  then have tab: "crc_table ! unat ?low = (crc_bit ^^ 8) ?low"
    by (simp add: crc_table_def crc_entry_def)
  have "?x = ?low XOR ?high"
    by (rule bit_word_eqI) (auto simp: bit_simps)
  then have "(crc_bit ^^ 8) ?x = (crc_bit ^^ 8) ?low XOR (crc_bit ^^ 8) ?high"
    by (metis crc_bits_xor)
  moreover have "(crc_bit ^^ 8) ?high = drop_bit 8 ?high"
    by (rule crc_bits_high) (auto simp: bit_simps)
  moreover have "drop_bit 8 ?high = drop_bit 8 crc"
  proof (rule bit_word_eqI)
    fix n assume "n < LENGTH(32)"
    have "byte_word b = take_bit 8 (byte_word b)"
      by (simp only: byte_word_def take_bit_of_nat) (simp add: take_bit_eq_mod of_char_mod_256)
    then have "\<not> bit (byte_word b) (8 + n)"
      by (metis bit_take_bit_iff not_add_less1)
    then show "bit (drop_bit 8 ?high) n = bit (drop_bit 8 crc) n"
      using bit_imp_le_length [of crc "8 + n"] by (auto simp: bit_simps)
  qed
  ultimately show ?thesis by (simp add: crc_byte_def crc_byte_ref_def tab m)
qed

lemma crc_blocks_concat: "crc_blocks bs crc = foldl crc_byte crc (concat bs)"
  by (induction bs arbitrary: crc) (simp_all add: crc_blocks_def)

lemma crc_byte_ref_steps:
  "crc_byte_ref c b = crc_bit (crc_bit (crc_bit (crc_bit (crc_bit (crc_bit (crc_bit (crc_bit
     (c XOR byte_word b))))))))"
  by (simp add: crc_byte_ref_def eval_nat_numeral)

text \<open>
  C32: \<open>get_crc\<close> returns for every file that opens, and what it returns is the CRC-32 computed one bit
  at a time over the whole contents, whatever the blocks the file is read in; it fails only on a file
  that does not open. The check value of the standard comes out.
\<close>

theorem get_crc_correct:
  "get_crc f = map_option crc32_ref f \<and> get_crc (Some ''123456789'') = Some 0xCBF43926"
proof -
  have crc: "get_crc f = map_option crc32_ref f" for f
    by (simp add: get_crc_def crc32_ref_def crc_blocks_concat read_blocks_eq concat_blocks
        crc_byte_eq [abs_def] split: option.splits)
  have "crc32_ref ''123456789'' = 0xCBF43926"
    by (simp add: crc32_ref_def crc_byte_ref_steps byte_word_def crc_bit_def)
  with crc show ?thesis by simp
qed

end
