(* ===== verification/File_Specs.thy ===== *)
theory File_Specs
  imports Prelude
begin

text \<open>
  The \<open>--file\<close> option (\<open>src/WebRTCClient.cpp\<close>): \<open>ParseFileSpecs\<close>, the scan of \<open>peer:room:path\<close> entries,
  and the scan of a plain path list that \<open>StartClient\<close> makes when \<open>--peer\<close> is given. Both loops are
  kept as they are written, over positions found by \<open>find\<close> and cut by \<open>substr\<close>; the specifications
  they are shown to refine split the input at the commas.
\<close>

record FileSpec =
  fs_peer :: string
  fs_room :: string
  fs_path :: string

text \<open>One entry: \<open>None\<close> is the early \<open>return false\<close>.\<close>

definition parse_entry :: "string \<Rightarrow> FileSpec option" where
  "parse_entry entry =
     (case str_find entry CHR '':'' 0 of None \<Rightarrow> None
      | Some first \<Rightarrow>
         (case str_find entry CHR '':'' (first + 1) of None \<Rightarrow> None
          | Some second \<Rightarrow>
              let p = substr entry 0 first;
                  r = substr entry (first + 1) (second - first - 1);
                  f = drop (second + 1) entry
              in if p = [] \<or> r = [] \<or> f = [] then None
                 else Some \<lparr>fs_peer = p, fs_room = r, fs_path = f\<rparr>))"

definition entry_end :: "string \<Rightarrow> nat \<Rightarrow> nat" where
  "entry_end input start = (case str_find input CHR '','' start of None \<Rightarrow> length input | Some e \<Rightarrow> e)"

lemma entry_end_ge: "start \<le> length input \<Longrightarrow> start \<le> entry_end input start"
  by (auto simp: entry_end_def str_find_def split: option.splits)

function ParseFileSpecs_from :: "string \<Rightarrow> nat \<Rightarrow> FileSpec list \<Rightarrow> bool \<times> FileSpec list" where
  "ParseFileSpecs_from input start specs =
     (if start \<le> length input then
        let e = entry_end input start;
            entry = substr input start (e - start)
        in if entry = [] then ParseFileSpecs_from input (e + 1) specs
           else (case parse_entry entry of None \<Rightarrow> (False, specs)
                 | Some spec \<Rightarrow> ParseFileSpecs_from input (e + 1) (specs @ [spec]))
      else (True, specs))"
  by pat_completeness auto
termination
  by (relation "measure (\<lambda>(input, start, specs). length input + 1 - start)")
    (use entry_end_ge in \<open>force+\<close>)

declare ParseFileSpecs_from.simps [simp del]

definition ParseFileSpecs :: "string \<Rightarrow> FileSpec list \<Rightarrow> bool \<times> FileSpec list" where
  "ParseFileSpecs input specs = ParseFileSpecs_from input 0 specs"

function path_list_from :: "string \<Rightarrow> string \<Rightarrow> string \<Rightarrow> nat \<Rightarrow> FileSpec list \<Rightarrow> FileSpec list" where
  "path_list_from peerName roomName paths start specs =
     (if start \<le> length paths then
        let e = entry_end paths start in
        path_list_from peerName roomName paths (e + 1)
          (if start < e
           then specs @ [\<lparr>fs_peer = peerName, fs_room = roomName, fs_path = substr paths start (e - start)\<rparr>]
           else specs)
      else specs)"
  by pat_completeness auto
termination
  by (relation "measure (\<lambda>(p, r, paths, start, specs). length paths + 1 - start)")
    (use entry_end_ge in \<open>force+\<close>)

declare path_list_from.simps [simp del]

definition path_list :: "string \<Rightarrow> string \<Rightarrow> string \<Rightarrow> FileSpec list" where
  "path_list peerName roomName paths = path_list_from peerName roomName paths 0 []"

section \<open>The entries of the input\<close>

lemma entry_end_split:
  assumes "start \<le> length input"
  shows "split_on CHR '','' (drop start input) =
    substr input start (entry_end input start - start) #
      (if entry_end input start < length input then split_on CHR '','' (drop (entry_end input start + 1) input) else [])"
proof (cases "find_char CHR '','' (drop start input)")
  case None
  then show ?thesis
    by (simp add: entry_end_def str_find_def substr_def) (simp add: split_on_no_sep find_char_None)
next
  case (Some i)
  then have i: "i < length (drop start input)" "CHR '','' \<notin> set (take i (drop start input))"
    and d: "drop start input = take i (drop start input) @ CHR '','' # drop (Suc i) (drop start input)"
    using find_char_split [OF Some] Some by (auto simp only: find_char_Some)
  have e: "entry_end input start = start + i" using Some by (simp add: entry_end_def str_find_def)
  have "split_on CHR '','' (drop start input) =
      take i (drop start input) # split_on CHR '','' (drop (Suc i) (drop start input))"
    by (subst d, rule split_on_append [OF i(2)])
  with i(1) show ?thesis by (simp add: e substr_def add.commute)
qed

lemma entry_end_le: "start \<le> length input \<Longrightarrow> entry_end input start \<le> length input"
  using find_char_Some by (fastforce simp: entry_end_def str_find_def split: option.splits)

text \<open>The specification: the entries between the commas, empty ones skipped, up to the first bad one.\<close>

fun parse_entries :: "string list \<Rightarrow> FileSpec list \<Rightarrow> bool \<times> FileSpec list" where
  "parse_entries [] specs = (True, specs)"
| "parse_entries (e # es) specs =
     (if e = [] then parse_entries es specs
      else (case parse_entry e of None \<Rightarrow> (False, specs) | Some s \<Rightarrow> parse_entries es (specs @ [s])))"

lemma ParseFileSpecs_from_eq:
  "ParseFileSpecs_from input start specs =
     (if start \<le> length input then parse_entries (split_on CHR '','' (drop start input)) specs else (True, specs))"
proof (induction input start specs rule: ParseFileSpecs_from.induct)
  case (1 input start specs)
  show ?case
  proof (cases "start \<le> length input")
    case False
    then show ?thesis by (simp add: ParseFileSpecs_from.simps)
  next
    case True
    let ?e = "entry_end input start"
    have le: "?e \<le> length input" by (rule entry_end_le [OF True])
    have rest: "(if ?e + 1 \<le> length input then parse_entries (split_on CHR '','' (drop (?e + 1) input)) sp else (True, sp)) =
        parse_entries (if ?e < length input then split_on CHR '','' (drop (?e + 1) input) else []) sp" for sp
      by (simp add: Suc_le_eq)
    show ?thesis
      using True 1 [OF True refl refl] entry_end_split [OF True] rest
      by (subst ParseFileSpecs_from.simps) (auto simp: Let_def split: option.splits)
  qed
qed

lemma path_list_from_eq:
  "path_list_from p r input start specs =
     (if start \<le> length input
      then specs @ map (\<lambda>f. \<lparr>fs_peer = p, fs_room = r, fs_path = f\<rparr>)
        (filter (\<lambda>f. f \<noteq> []) (split_on CHR '','' (drop start input)))
      else specs)"
proof (induction p r input start specs rule: path_list_from.induct)
  case (1 p r input start specs)
  show ?case
  proof (cases "start \<le> length input")
    case False
    then show ?thesis by (simp add: path_list_from.simps)
  next
    case True
    let ?e = "entry_end input start"
    have "?e \<le> length input" "start \<le> ?e" using entry_end_le entry_end_ge True by blast+
    moreover have "substr input start (?e - start) = [] \<longleftrightarrow> \<not> start < ?e"
      using calculation True by (auto simp: substr_def)
    ultimately show ?thesis
      using True 1 [OF True refl] entry_end_split [OF True]
      by (subst path_list_from.simps) (auto simp: Let_def Suc_le_eq not_less)
  qed
qed

lemma parse_entry_Some:
  "parse_entry e = Some s \<longleftrightarrow>
     (\<exists>p r f. e = p @ CHR '':'' # r @ CHR '':'' # f \<and> CHR '':'' \<notin> set p \<and> CHR '':'' \<notin> set r \<and>
       p \<noteq> [] \<and> r \<noteq> [] \<and> f \<noteq> [] \<and> s = \<lparr>fs_peer = p, fs_room = r, fs_path = f\<rparr>)" (is "?L \<longleftrightarrow> ?R")
proof
  assume ?L
  then obtain i j where i: "find_char CHR '':'' e = Some i"
      and j: "find_char CHR '':'' (drop (Suc i) e) = Some j"
      and s: "take i e \<noteq> []" "take j (drop (Suc i) e) \<noteq> []" "drop (Suc (Suc i + j)) e \<noteq> []"
        "s = \<lparr>fs_peer = take i e, fs_room = take j (drop (Suc i) e), fs_path = drop (Suc (Suc i + j)) e\<rparr>"
    by (auto simp: parse_entry_def str_find_def substr_def Let_def split: option.splits if_splits)
  from find_char_split [OF i] find_char_split [OF j]
  have "e = take i e @ CHR '':'' # take j (drop (Suc i) e) @ CHR '':'' # drop (Suc (Suc i + j)) e"
    by (metis add_Suc_right drop_drop add.commute)
  moreover have "CHR '':'' \<notin> set (take i e)" "CHR '':'' \<notin> set (take j (drop (Suc i) e))"
    using i j by (simp_all add: find_char_Some)
  ultimately show ?R using s by blast
next
  assume ?R
  then show ?L
    by (auto simp: parse_entry_def str_find_def substr_def Let_def find_char_append)
qed

text \<open>
  C31: \<open>ParseFileSpecs\<close> reads the list the option documents: it accepts an input exactly when every
  non-empty entry between commas has the form \<open>peer:room:path\<close> with all three parts non-empty
  (the path may contain colons), and then yields one request per entry, in order.
\<close>

theorem ParseFileSpecs_spec:
  "ParseFileSpecs input [] = (True, specs) \<longleftrightarrow>
     list_all2 (\<lambda>e s. \<exists>p r f. e = p @ CHR '':'' # r @ CHR '':'' # f \<and>
         CHR '':'' \<notin> set p \<and> CHR '':'' \<notin> set r \<and> p \<noteq> [] \<and> r \<noteq> [] \<and> f \<noteq> [] \<and>
         s = \<lparr>fs_peer = p, fs_room = r, fs_path = f\<rparr>)
       (filter (\<lambda>e. e \<noteq> []) (split_on CHR '','' input)) specs"
proof -
  have "parse_entries es acc = (True, out) \<longleftrightarrow>
      (\<exists>ss. out = acc @ ss \<and> list_all2 (\<lambda>e s. parse_entry e = Some s) (filter (\<lambda>e. e \<noteq> []) es) ss)"
    for es acc out
  proof (induction es arbitrary: acc)
    case (Cons e es)
    then show ?case
      by (cases "parse_entry e") (auto simp: list_all2_Cons1)
  qed auto
  then show ?thesis by (simp add: ParseFileSpecs_def ParseFileSpecs_from_eq parse_entry_Some)
qed

definition show_spec :: "FileSpec \<Rightarrow> string" where
  "show_spec s = fs_peer s @ CHR '':'' # fs_room s @ CHR '':'' # fs_path s"

definition plain :: "FileSpec \<Rightarrow> bool" where
  "plain s \<longleftrightarrow> fs_peer s \<noteq> [] \<and> fs_room s \<noteq> [] \<and> fs_path s \<noteq> [] \<and>
     (\<forall>c \<in> {CHR '','', CHR '':''}. c \<notin> set (fs_peer s) \<and> c \<notin> set (fs_room s)) \<and> CHR '','' \<notin> set (fs_path s)"

text \<open>
  Writing requests and reading them back: any list of requests whose names contain no separator
  and whose paths contain no comma comes back from \<open>ParseFileSpecs\<close> as it was, and with \<open>--peer\<close> the
  path list is read back as one request per path to that peer.
\<close>

theorem ParseFileSpecs_roundtrip:
  assumes "\<forall>s \<in> set specs. plain s"
  shows "ParseFileSpecs (join_with CHR '','' (map show_spec specs)) acc = (True, acc @ specs) \<and>
    path_list p r (join_with CHR '','' (map fs_path specs)) = map (\<lambda>s. \<lparr>fs_peer = p, fs_room = r, fs_path = fs_path s\<rparr>) specs"
proof (cases "specs = []")
  case True
  then show ?thesis
    by (simp add: ParseFileSpecs_def ParseFileSpecs_from_eq path_list_def path_list_from_eq)
next
  case False
  have "parse_entry (show_spec s) = Some s" if "plain s" for s
    unfolding parse_entry_Some
    by (intro exI [of _ "fs_peer s"] exI [of _ "fs_room s"] exI [of _ "fs_path s"])
      (use that in \<open>simp add: show_spec_def plain_def\<close>)
  then have "parse_entries (map show_spec specs) acc = (True, acc @ specs)"
    using assms
    by (induction specs arbitrary: acc) (auto simp: show_spec_def)
  moreover have "split_on CHR '','' (join_with CHR '','' (map show_spec specs)) = map show_spec specs"
    using False assms by (intro split_join) (auto simp: show_spec_def plain_def)
  moreover have "split_on CHR '','' (join_with CHR '','' (map fs_path specs)) = map fs_path specs"
    using False assms by (intro split_join) (auto simp: plain_def)
  moreover have "filter (\<lambda>f. f \<noteq> []) (map fs_path specs) = map fs_path specs"
    using assms by (auto simp: filter_id_conv plain_def)
  ultimately show ?thesis
    by (simp add: ParseFileSpecs_def ParseFileSpecs_from_eq path_list_def path_list_from_eq o_def)
qed

theorem ParseFileSpecs_roundtrip_witness:
  "ParseFileSpecs ''bob:r:a:b,eve:r2:c'' [] =
     (True, [\<lparr>fs_peer = ''bob'', fs_room = ''r'', fs_path = ''a:b''\<rparr>, \<lparr>fs_peer = ''eve'', fs_room = ''r2'', fs_path = ''c''\<rparr>])"
  using ParseFileSpecs_roundtrip [of "[\<lparr>fs_peer = ''bob'', fs_room = ''r'', fs_path = ''a:b''\<rparr>, \<lparr>fs_peer = ''eve'', fs_room = ''r2'', fs_path = ''c''\<rparr>]" "[]"]
  by (simp add: plain_def show_spec_def)

end
