(* ===== verification/Fs_Path.thy ===== *)
theory Fs_Path
  imports Prelude
begin

text \<open>
  The operations of \<open>std::filesystem::path\<close> the client uses to name files across machines, for POSIX
  paths without a root name: \<open>relative_path\<close>, \<open>operator/\<close>, \<open>lexically_normal\<close>,
  \<open>lexically_relative\<close>, \<open>absolute\<close>. A path is its text. \<open>resolve\<close> is the directory or file a path
  denotes, as the list of names below the root, which is what confinement is about.
\<close>

abbreviation slash :: char where "slash \<equiv> CHR ''/''"

definition is_absolute :: "string \<Rightarrow> bool" where
  "is_absolute p \<longleftrightarrow> p \<noteq> [] \<and> hd p = slash"

definition relative_path :: "string \<Rightarrow> string" where
  "relative_path p = dropWhile (\<lambda>c. c = slash) p"

definition path_names :: "string \<Rightarrow> string list" where
  "path_names p = filter (\<lambda>n. n \<noteq> []) (split_on slash p)"

definition path_append :: "string \<Rightarrow> string \<Rightarrow> string" where
  "path_append p q = (if is_absolute q then q
     else if p = [] \<or> last p = slash then p @ q else p @ slash # q)"

definition push_name :: "bool \<Rightarrow> string list \<Rightarrow> string \<Rightarrow> string list" where
  "push_name root st n =
     (if n = ''.'' then st
      else if n = ''..'' then
        (case st of [] \<Rightarrow> if root then [] else [''..''] | t # ts \<Rightarrow> if t = ''..'' then ''..'' # st else ts)
      else n # st)"

definition normal_names :: "bool \<Rightarrow> string list \<Rightarrow> string list" where
  "normal_names root ns = rev (foldl (push_name root) [] ns)"

definition lexically_normal :: "string \<Rightarrow> string" where
  "lexically_normal p = (if p = [] then [] else
     let ns = normal_names (is_absolute p) (path_names p);
         dir = (if ns \<noteq> [] \<and> last ns \<noteq> ''..'' \<and> last (split_on slash p) \<in> {[], ''.'', ''..''}
                then [slash] else [])
     in if is_absolute p then slash # join_with slash ns @ dir
        else if ns = [] then ''.'' else join_with slash ns @ dir)"

text \<open>\<open>fs::absolute\<close>, which throws on an empty path.\<close>

definition absolute_path :: "string \<Rightarrow> string \<Rightarrow> string option" where
  "absolute_path cwd p = (if p = [] then None else Some (path_append cwd p))"

text \<open>The elements a normal absolute path iterates over, after the root.\<close>

definition path_elements :: "string \<Rightarrow> string list" where
  "path_elements p = path_names p @ (if path_names p \<noteq> [] \<and> last p = slash then [[]] else [])"

fun strip_common :: "'a list \<Rightarrow> 'a list \<Rightarrow> 'a list \<times> 'a list" where
  "strip_common (x # xs) (y # ys) = (if x = y then strip_common xs ys else (x # xs, y # ys))"
| "strip_common xs ys = (xs, ys)"

fun climb :: "string list \<Rightarrow> int" where
  "climb [] = 0"
| "climb (n # ns) = (if n = ''..'' then -1 else if n = [] \<or> n = ''.'' then 0 else 1) + climb ns"

definition lexically_relative :: "string \<Rightarrow> string \<Rightarrow> string" where
  "lexically_relative p base = (if is_absolute p \<noteq> is_absolute base then [] else
     case strip_common (path_elements p) (path_elements base) of (a, b) \<Rightarrow>
       if a = [] \<and> b = [] then ''.''
       else if climb b < 0 then []
       else if climb b = 0 \<and> (a = [] \<or> hd a = []) then ''.''
       else join_with slash (replicate (nat (climb b)) ''..'' @ a))"

text \<open>Where a path leads from the working directory \<open>cwd\<close>.\<close>

definition resolve :: "string \<Rightarrow> string \<Rightarrow> string list" where
  "resolve cwd p = normal_names True (path_names (path_append cwd p))"

definition proper :: "string list \<Rightarrow> bool" where
  "proper ns \<longleftrightarrow> (\<forall>n \<in> set ns. n \<noteq> [] \<and> n \<noteq> ''.'' \<and> n \<noteq> ''..'' \<and> slash \<notin> set n)"

section \<open>Names\<close>

lemma proper_simps [simp]:
  "proper []" "proper (n # ns) \<longleftrightarrow> n \<noteq> [] \<and> n \<noteq> ''.'' \<and> n \<noteq> ''..'' \<and> slash \<notin> set n \<and> proper ns"
  "proper (xs @ ys) \<longleftrightarrow> proper xs \<and> proper ys" "proper (rev xs) \<longleftrightarrow> proper xs"
  by (auto simp: proper_def)

lemma path_names_simps [simp]:
  "path_names [] = []" "path_names (slash # p) = path_names p"
  "path_names (p @ slash # q) = path_names p @ path_names q"
  "path_names (p @ [slash]) = path_names p"
  by (simp_all add: path_names_def split_on_concat split_on_last)

lemma path_names_join:
  "\<forall>n \<in> set ns. n \<noteq> [] \<and> slash \<notin> set n \<Longrightarrow> path_names (join_with slash ns) = ns"
  by (cases "ns = []") (auto simp: path_names_def split_join filter_id_conv)

lemma path_names_clean: "n \<in> set (path_names p) \<Longrightarrow> n \<noteq> [] \<and> slash \<notin> set n"
  by (auto simp: path_names_def dest: split_on_pieces)

lemma path_names_relative [simp]: "path_names (relative_path p) = path_names p"
  by (induction p) (auto simp: relative_path_def path_names_def split: list.splits)

lemma relative_path_not_absolute [simp]: "\<not> is_absolute (relative_path p)"
  using hd_dropWhile [of "\<lambda>c. c = slash" p]
  by (simp only: is_absolute_def relative_path_def) blast

lemma path_names_append:
  "path_names (path_append p q) = (if is_absolute q then path_names q else path_names p @ path_names q)"
proof (cases "p = [] \<or> last p = slash")
  case True
  then show ?thesis
    by (cases p rule: rev_cases) (auto simp: path_append_def)
next
  case False
  then show ?thesis by (simp add: path_append_def)
qed

lemma is_absolute_append: "is_absolute p \<Longrightarrow> is_absolute (path_append p q)"
  by (auto simp: path_append_def is_absolute_def)

section \<open>Normal forms\<close>

lemma push_name_simps [simp]:
  "push_name root st ''.'' = st"
  "push_name root [] ''..'' = (if root then [] else [''..''])"
  "push_name root (t # ts) ''..'' = (if t = ''..'' then ''..'' # t # ts else ts)"
  "n \<noteq> ''.'' \<Longrightarrow> n \<noteq> ''..'' \<Longrightarrow> push_name root st n = n # st"
  by (auto simp: push_name_def)

text \<open>A stack of the normalising loop: proper names over, for a relative path, some \<open>..\<close>.\<close>

lemma foldl_push_shape:
  assumes "\<forall>n \<in> set ns. n \<noteq> [] \<and> slash \<notin> set n" and "proper st"
  shows "\<exists>qs k. foldl (push_name root) (st @ replicate j ''..'') ns = qs @ replicate k ''..'' \<and> proper qs \<and>
    (root \<and> j = 0 \<longrightarrow> k = 0)"
  using assms
proof (induction ns arbitrary: st j)
  case Nil
  then show ?case by auto
next
  case (Cons n ns)
  consider "n = ''.''" | "n = ''..''" "st = []" | t ts where "n = ''..''" "st = t # ts" | "n \<noteq> ''.''" "n \<noteq> ''..''"
    by (cases st) auto
  then show ?case
  proof cases
    case 1
    then show ?thesis using Cons by simp
  next
    case 2
    define i where "i = (if root \<and> j = 0 then 0 else Suc j)"
    have "push_name root (replicate j ''..'') ''..'' = replicate i ''..''"
      unfolding i_def by (cases j) auto
    then have "foldl (push_name root) (st @ replicate j ''..'') (n # ns) =
        foldl (push_name root) ([] @ replicate i ''..'') ns"
      by (simp only: 2 foldl.simps append_Nil)
    moreover obtain qs k where "foldl (push_name root) ([] @ replicate i ''..'') ns = qs @ replicate k ''..''"
        "proper qs" "root \<and> i = 0 \<longrightarrow> k = 0"
      using Cons.IH [of "[]" i] Cons.prems(1) by fastforce
    moreover have "root \<and> j = 0 \<longrightarrow> i = 0" by (simp add: i_def)
    ultimately show ?thesis by (intro exI [of _ qs] exI [of _ k]) simp
  next
    case 3
    then show ?thesis using Cons.IH [of ts j] Cons.prems by auto
  next
    case 4
    then show ?thesis using Cons.IH [of "n # st" j] Cons.prems by auto
  qed
qed

lemma normal_names_shape:
  assumes "\<forall>n \<in> set ns. n \<noteq> [] \<and> slash \<notin> set n"
  shows "\<exists>k qs. normal_names root ns = replicate k ''..'' @ qs \<and> proper qs \<and> (root \<longrightarrow> k = 0)"
proof -
  from foldl_push_shape [OF assms, of "[]" root 0] obtain qs k
    where "foldl (push_name root) [] ns = qs @ replicate k ''..''" "proper qs" "root \<longrightarrow> k = 0"
    by auto
  then have "normal_names root ns = replicate k ''..'' @ rev qs \<and> proper (rev qs) \<and> (root \<longrightarrow> k = 0)"
    by (simp add: normal_names_def)
  then show ?thesis by blast
qed

lemma proper_resolve: "proper (resolve cwd p)"
  using normal_names_shape [of "path_names (path_append cwd p)" True] path_names_clean
  by (fastforce simp: resolve_def)

lemma foldl_push_proper: "proper ns \<Longrightarrow> foldl (push_name root) st ns = rev ns @ st"
  by (induction ns arbitrary: st) auto

lemma normal_names_proper: "proper ns \<Longrightarrow> normal_names root ns = ns"
  by (simp add: normal_names_def foldl_push_proper)

text \<open>A relative path whose normal form has no \<open>..\<close> never leaves the directory it is appended to.\<close>

lemma foldl_push_confined:
  assumes "foldl (push_name False) [] ns = qs" and "''..'' \<notin> set qs"
    and "\<forall>n \<in> set ns. n \<noteq> [] \<and> slash \<notin> set n"
  shows "foldl (push_name True) st ns = qs @ st \<and> proper qs"
  using assms
proof (induction ns arbitrary: qs rule: rev_induct)
  case Nil
  then show ?case by simp
next
  case (snoc n ns)
  let ?rs = "foldl (push_name False) [] ns"
  from foldl_push_shape [of ns "[]" False 0] snoc.prems(3) obtain ps k
    where ps: "?rs = ps @ replicate k ''..''" "proper ps" by auto
  have "''..'' \<notin> set ?rs"
  proof
    assume "''..'' \<in> set ?rs"
    with ps obtain j where k: "k = Suc j" by (cases k) (auto simp: proper_def)
    have "''..'' \<in> set (push_name False (ps @ replicate (Suc j) ''..'') n)"
      by (cases "n = ''.''"; cases "n = ''..''"; cases ps) auto
    with ps k snoc.prems(1,2) show False by simp
  qed
  with snoc.IH [of ?rs] snoc.prems(3) have IH: "foldl (push_name True) st ns = ?rs @ st" "proper ?rs" by auto
  have "push_name False ?rs n = qs" using snoc.prems(1) by simp
  moreover have "n = ''..'' \<Longrightarrow> ?rs \<noteq> []" using calculation snoc.prems(2) by auto
  moreover have "hd ?rs \<noteq> ''..''" if "?rs \<noteq> []"
    using that IH(2) by (auto simp: proper_def)
  ultimately show ?case
    using IH snoc.prems(3)
    by (cases "n = ''.''"; cases "n = ''..''"; cases ?rs) (auto split: if_splits)
qed

lemma normal_names_append:
  assumes "normal_names False ns = qs" and "''..'' \<notin> set qs"
    and "\<forall>n \<in> set ns. n \<noteq> [] \<and> slash \<notin> set n"
  shows "normal_names True (ms @ ns) = normal_names True ms @ qs \<and> proper qs"
proof -
  from foldl_push_confined [of ns "rev qs" "foldl (push_name True) [] ms"] assms
  show ?thesis by (auto simp: normal_names_def)
qed

lemma path_names_normal:
  assumes "p \<noteq> []" and "is_absolute p \<or> normal_names False (path_names p) \<noteq> []"
  shows "path_names (lexically_normal p) = normal_names (is_absolute p) (path_names p)"
proof -
  let ?ns = "normal_names (is_absolute p) (path_names p)"
  have "\<forall>n \<in> set ?ns. n \<noteq> [] \<and> slash \<notin> set n"
    using normal_names_shape [of "path_names p" "is_absolute p"] path_names_clean
    by (fastforce simp: proper_def)
  from path_names_join [OF this] show ?thesis
    using assms by (auto simp: lexically_normal_def Let_def)
qed

lemma is_absolute_normal: "is_absolute (lexically_normal p) \<longleftrightarrow> is_absolute p"
proof -
  have "hd (join_with slash ns) \<noteq> slash \<and> join_with slash ns \<noteq> []"
    if "\<forall>n \<in> set ns. n \<noteq> [] \<and> slash \<notin> set n" "ns \<noteq> []" for ns
    using that by (cases "(slash, ns)" rule: join_with.cases) (auto simp: neq_Nil_conv)
  moreover have "\<forall>n \<in> set (normal_names (is_absolute p) (path_names p)). n \<noteq> [] \<and> slash \<notin> set n"
    using normal_names_shape [of "path_names p" "is_absolute p"] path_names_clean
    by (fastforce simp: proper_def)
  ultimately show ?thesis
    by (auto simp: lexically_normal_def Let_def is_absolute_def)
qed

end
