(* ===== verification/File_Names.thy ===== *)
theory File_Names
  imports Fs_Path "HOL-Library.Sublist"
begin

text \<open>
  How a file is named across machines: the name a sender offers (\<open>WebRTCClient::SendFileOffer\<close>, the
  path relative to its \<open>--directory\<close>) and the destination a receiver writes
  (\<open>WebRTCClient::OnFileOffer\<close>, the untrusted name under its own directory). \<open>None\<close> is an exception of
  the filesystem library on the sender's side and a dropped offer on the receiver's.
\<close>

definition offered_path :: "string \<Rightarrow> string \<Rightarrow> string \<Rightarrow> string option" where
  "offered_path cwd directory fileDetails =
     (case absolute_path cwd fileDetails of
        None \<Rightarrow> None
      | Some f \<Rightarrow>
          if directory = [] then Some (lexically_normal f)
          else (case absolute_path cwd directory of
              None \<Rightarrow> None
            | Some d \<Rightarrow> Some (lexically_relative (lexically_normal f) (lexically_normal d))))"

definition base_directory :: "string \<Rightarrow> string" where
  "base_directory directory = (if directory = [] then ''.'' else directory)"

definition destination_path :: "string \<Rightarrow> string \<Rightarrow> string option" where
  "destination_path directory offered =
     (let name = lexically_normal (relative_path offered) in
      if name = [] \<or> hd (split_on slash name) = ''..'' then None
      else Some (path_append (base_directory directory) name))"

lemma base_directory_not_Nil [simp]: "base_directory d \<noteq> []"
  by (simp add: base_directory_def)

section \<open>Confinement\<close>

lemma resolve_append:
  assumes "d \<noteq> []" and "\<not> is_absolute q"
  shows "resolve cwd (path_append d q) =
    normal_names True (path_names (path_append cwd d) @ path_names q)"
proof -
  have "is_absolute (path_append d q) \<longleftrightarrow> is_absolute d"
    using assms by (cases d) (auto simp: is_absolute_def path_append_def)
  with assms show ?thesis
    by (simp add: resolve_def path_names_append is_absolute_append)
qed

lemma normal_relative_hd:
  assumes "p \<noteq> []" and "\<not> is_absolute p" and "normal_names False (path_names p) \<noteq> []"
  shows "hd (split_on slash (lexically_normal p)) = hd (normal_names False (path_names p))"
proof -
  have "\<forall>n \<in> set (normal_names False (path_names p)). n \<noteq> [] \<and> slash \<notin> set n"
    using normal_names_shape [of "path_names p" False] path_names_clean
    by (fastforce simp: proper_def)
  then have "split_on slash (join_with slash (normal_names False (path_names p))) =
      normal_names False (path_names p)"
    by (intro split_join assms(3)) simp
  then show ?thesis
    using assms by (simp add: lexically_normal_def Let_def split_on_last)
qed

lemma destination_path_cases:
  assumes "relative_path o1 \<noteq> []"
  shows "destination_path d o1 =
    (let ns = normal_names False (path_names o1) in
     if ns \<noteq> [] \<and> hd ns = ''..'' then None
     else Some (path_append (base_directory d) (lexically_normal (relative_path o1))))"
proof (cases "normal_names False (path_names o1) = []")
  case True
  then have "lexically_normal (relative_path o1) = ''.''"
    using assms by (simp add: lexically_normal_def)
  with True show ?thesis by (simp add: destination_path_def Let_def)
next
  case False
  then have "lexically_normal (relative_path o1) \<noteq> []"
    using assms path_names_normal [of "relative_path o1"] by auto
  with False assms normal_relative_hd [of "relative_path o1"] show ?thesis
    by (simp add: destination_path_def Let_def)
qed

lemma path_names_normal_relative:
  assumes "p \<noteq> []" and "\<not> is_absolute p"
  shows "path_names (lexically_normal p) =
    (let ns = normal_names False (path_names p) in if ns = [] then [''.''] else ns)"
proof (cases "normal_names False (path_names p) = []")
  case True
  then have "lexically_normal p = ''.''" using assms by (simp add: lexically_normal_def)
  with True show ?thesis by (simp add: path_names_def)
next
  case False
  with assms path_names_normal [of p] show ?thesis by simp
qed

lemma destination_path_Some:
  assumes "destination_path d o1 = Some p"
  shows "resolve cwd p = resolve cwd (base_directory d) @ normal_names False (path_names o1)"
    and "proper (normal_names False (path_names o1))"
proof -
  let ?ns = "normal_names False (path_names o1)"
  have ne: "relative_path o1 \<noteq> []"
    using assms by (auto simp: destination_path_def lexically_normal_def)
  with assms have p: "p = path_append (base_directory d) (lexically_normal (relative_path o1))"
    and hd: "?ns = [] \<or> hd ?ns \<noteq> ''..''"
    by (auto simp: destination_path_cases Let_def split: if_splits)
  obtain k qs where "?ns = replicate k ''..'' @ qs" "proper qs"
    using normal_names_shape [of "path_names o1" False] path_names_clean by blast
  with hd have pr: "proper ?ns" by (cases k) auto
  then show "proper ?ns" .
  have "path_names (lexically_normal (relative_path o1)) = (if ?ns = [] then [''.''] else ?ns)"
    using path_names_normal_relative [OF ne] by (simp add: Let_def)
  moreover have "normal_names False (if ?ns = [] then [''.''] else ?ns) = ?ns"
    using pr by (simp add: normal_names_proper) (simp add: normal_names_def)
  ultimately have "normal_names False (path_names (lexically_normal (relative_path o1))) = ?ns" by simp
  from normal_names_append [OF this] pr path_names_clean
  show "resolve cwd p = resolve cwd (base_directory d) @ ?ns"
    unfolding p by (subst resolve_append) (auto simp: is_absolute_normal resolve_def proper_def)
qed

text \<open>
  A received file never leaves the receiver's directory: whatever name the sender offers, the
  destination of an offer that is not dropped lies below the receiver's directory, along proper names
  only (no empty name, \<open>.\<close>, \<open>..\<close> or separator).
\<close>

theorem destination_confined:
  assumes "destination_path directory offered = Some destination"
  shows "\<exists>ns. resolve cwd destination = resolve cwd (base_directory directory) @ ns \<and> proper ns"
  using destination_path_Some [OF assms] by blast

theorem destination_confined_witness:
  "\<exists>ns. resolve ''/home/u'' ''in/etc/passwd'' = resolve ''/home/u'' ''in'' @ ns \<and> proper ns"
  using destination_confined [of "''in''" "''/etc/x/../passwd''" "''in/etc/passwd''" "''/home/u''"]
  by (simp add: destination_path_def base_directory_def relative_path_def lexically_normal_def
      is_absolute_def path_names_def normal_names_def push_name_def path_append_def Let_def)

section \<open>The same name on both sides\<close>

lemma strip_common_result:
  "\<exists>c a b. xs = c @ a \<and> ys = c @ b \<and> strip_common xs ys = (a, b)"
proof (induction xs ys rule: strip_common.induct)
  case (1 x xs y ys)
  show ?case
  proof (cases "x = y")
    case True
    with 1 obtain c a b where "xs = c @ a" "ys = c @ b" "strip_common xs ys = (a, b)" by blast
    with True show ?thesis by (intro exI [of _ "x # c"] exI [of _ a] exI [of _ b]) simp
  qed simp
qed auto

lemma strip_common_append: "strip_common (c @ a) (c @ b) = strip_common a b"
  by (induction c) auto

lemma climb_append: "climb (a @ b) = climb a + climb b"
  by (induction a) auto

lemma climb_proper: "proper b \<Longrightarrow> climb b = int (length b)"
  by (induction b) auto

text \<open>A path that names a file: its last element is a name.\<close>

definition names_file :: "string \<Rightarrow> bool" where
  "names_file p \<longleftrightarrow> last (split_on slash p) \<notin> {[], ''.'', ''..''}"

lemma names_file_append: "names_file p \<Longrightarrow> names_file (path_append cwd p)"
proof (cases "cwd = [] \<or> last cwd = slash")
  case True
  then show "names_file p \<Longrightarrow> names_file (path_append cwd p)"
    by (cases cwd rule: rev_cases) (auto simp: names_file_def path_append_def split_on_concat)
next
  case False
  then show "names_file p \<Longrightarrow> names_file (path_append cwd p)"
    by (simp add: names_file_def path_append_def split_on_concat)
qed

lemma names_file_normal:
  assumes "is_absolute f" and "names_file f"
  shows "path_elements (lexically_normal f) = normal_names True (path_names f)"
proof -
  let ?F = "normal_names True (path_names f)"
  have "f \<noteq> []" using assms(1) by (auto simp: is_absolute_def)
  with assms have n: "lexically_normal f = slash # join_with slash ?F"
    by (auto simp: lexically_normal_def names_file_def Let_def)
  have pn: "path_names (lexically_normal f) = ?F"
    using path_names_normal [of f] assms(1) \<open>f \<noteq> []\<close> by simp
  have "\<forall>n \<in> set ?F. n \<noteq> [] \<and> slash \<notin> set n"
    using normal_names_shape [of "path_names f" True] path_names_clean by (fastforce simp: proper_def)
  then have "?F \<noteq> [] \<Longrightarrow> split_on slash (join_with slash ?F) = ?F"
    by (intro split_join) simp_all
  note sj = this
  show ?thesis
  proof (cases "?F = []")
    case True
    then show ?thesis using pn by (simp add: path_elements_def)
  next
    case False
    have ne: "join_with slash ?F \<noteq> []" using sj [OF False] False pn n by auto
    have "last (join_with slash ?F) \<noteq> slash"
    proof
      assume "last (join_with slash ?F) = slash"
      with ne obtain u where "join_with slash ?F = u @ [slash]" by (metis append_butlast_last_id)
      with sj [OF False] have "last ?F = []" by (metis last_snoc split_on_last)
      with False \<open>\<forall>n \<in> set ?F. n \<noteq> [] \<and> slash \<notin> set n\<close> show False by (metis last_in_set)
    qed
    with ne n have "last (lexically_normal f) \<noteq> slash" by simp
    then show ?thesis by (simp add: path_elements_def pn)
  qed
qed

lemma directory_normal:
  assumes "is_absolute d"
  shows "\<exists>t. path_elements (lexically_normal d) = normal_names True (path_names d) @ t \<and> (t = [] \<or> t = [[]])"
  using path_names_normal [of d] assms by (auto simp: path_elements_def is_absolute_def)

lemma offered_path_relative:
  assumes "is_absolute cwd" and "names_file file" and "directory \<noteq> []"
  shows "\<exists>t. (t = [] \<or> t = [[]]) \<and> offered_path cwd directory file = Some
    (case strip_common (resolve cwd file) (resolve cwd directory @ t) of (a, b) \<Rightarrow>
       if a = [] \<and> b = [] then ''.''
       else if climb b < 0 then []
       else if climb b = 0 \<and> (a = [] \<or> hd a = []) then ''.''
       else join_with slash (replicate (nat (climb b)) ''..'' @ a))"
proof -
  let ?f = "path_append cwd file" and ?d = "path_append cwd directory"
  have abs: "is_absolute ?f" "is_absolute ?d" using assms(1) by (simp_all add: is_absolute_append)
  obtain t where t: "path_elements (lexically_normal ?d) = resolve cwd directory @ t" "t = [] \<or> t = [[]]"
    using directory_normal [OF abs(2)] by (auto simp: resolve_def)
  have f: "path_elements (lexically_normal ?f) = resolve cwd file"
    using names_file_normal [OF abs(1) names_file_append [OF assms(2)]] by (simp add: resolve_def)
  have "file \<noteq> []" using assms(2) by (auto simp: names_file_def)
  with assms(3) abs have "offered_path cwd directory file = Some
    (case strip_common (resolve cwd file) (resolve cwd directory @ t) of (a, b) \<Rightarrow>
       if a = [] \<and> b = [] then ''.''
       else if climb b < 0 then []
       else if climb b = 0 \<and> (a = [] \<or> hd a = []) then ''.''
       else join_with slash (replicate (nat (climb b)) ''..'' @ a))"
    by (simp add: offered_path_def absolute_path_def lexically_relative_def is_absolute_normal f t(1))
  with t(2) show ?thesis by blast
qed

lemma destination_join:
  assumes "proper ns" and "ns \<noteq> []"
  shows "\<exists>p. destination_path d (join_with slash ns) = Some p \<and>
    resolve cwd p = resolve cwd (base_directory d) @ ns"
proof -
  have pn: "path_names (join_with slash ns) = ns"
    using assms(1) by (intro path_names_join) (auto simp: proper_def)
  then have "relative_path (join_with slash ns) \<noteq> []"
    using assms(2) by (metis path_names_relative path_names_simps(1))
  then have "destination_path d (join_with slash ns) \<noteq> None"
    using assms pn by (cases ns) (auto simp: destination_path_cases normal_names_proper Let_def)
  then obtain p where p: "destination_path d (join_with slash ns) = Some p" by auto
  from destination_path_Some(1) [OF p, of cwd] pn assms(1) p show ?thesis
    by (auto simp: normal_names_proper)
qed

lemma offered_below:
  assumes "is_absolute cwd" and "names_file file" and "directory \<noteq> []"
    and "resolve cwd file = resolve cwd directory @ rel" and "rel \<noteq> []"
  shows "offered_path cwd directory file = Some (join_with slash rel)" and "proper rel"
proof -
  obtain t where t: "t = [] \<or> t = [[]]" and o: "offered_path cwd directory file = Some
      (case strip_common (resolve cwd file) (resolve cwd directory @ t) of (a, b) \<Rightarrow>
       if a = [] \<and> b = [] then ''.'' else if climb b < 0 then []
       else if climb b = 0 \<and> (a = [] \<or> hd a = []) then ''.''
       else join_with slash (replicate (nat (climb b)) ''..'' @ a))"
    using offered_path_relative [OF assms(1-3)] by blast
  show pr: "proper rel" using proper_resolve [of cwd "file"] assms(4) by simp
  then have "hd rel \<noteq> []" using assms(5) by (cases rel) auto
  with t assms(5) have "strip_common rel t = (rel, t)" by (cases rel) auto
  with o t assms(4,5) \<open>hd rel \<noteq> []\<close> show "offered_path cwd directory file = Some (join_with slash rel)"
    by (auto simp: strip_common_append)
qed

text \<open>
  C24: the tree is mirrored: a file under the sender's directory is written by every receiver at the
  same place under the receiver's own directory, whatever the working directories are.
\<close>

theorem tree_mirrored:
  assumes "is_absolute cwd" and "names_file file" and "directory \<noteq> []"
    and "resolve cwd file = resolve cwd directory @ rel" and "rel \<noteq> []"
  shows "\<exists>offered p. offered_path cwd directory file = Some offered \<and>
    destination_path directory2 offered = Some p \<and>
    resolve cwd2 p = resolve cwd2 (base_directory directory2) @ rel"
  using offered_below(1) [OF assms] destination_join [OF offered_below(2) [OF assms] assms(5)] by simp

theorem tree_mirrored_witness:
  "\<exists>offered p. offered_path ''/home/u'' ''out/'' ''out/a/b.txt'' = Some offered \<and>
     destination_path ''in'' offered = Some p \<and> resolve ''/tmp'' p = resolve ''/tmp'' (base_directory ''in'') @ [''a'', ''b.txt'']"
  by (rule tree_mirrored)
    (simp_all add: is_absolute_def names_file_def resolve_def path_append_def path_names_def
      normal_names_def push_name_def)

text \<open>
  A file outside the sender's directory is offered under a name that starts with \<open>..\<close>, and every
  receiver drops such an offer before answering it.
\<close>

theorem outside_offer_dropped:
  assumes "is_absolute cwd" and "names_file file" and "directory \<noteq> []"
    and "\<not> prefix (resolve cwd directory) (resolve cwd file)"
  shows "\<exists>offered. offered_path cwd directory file = Some offered \<and>
    destination_path directory2 offered = None"
proof -
  let ?F = "resolve cwd file" and ?D = "resolve cwd directory"
  obtain t where t: "t = [] \<or> t = [[]]" and o: "offered_path cwd directory file = Some
      (case strip_common ?F (?D @ t) of (a, b) \<Rightarrow>
       if a = [] \<and> b = [] then ''.'' else if climb b < 0 then []
       else if climb b = 0 \<and> (a = [] \<or> hd a = []) then ''.''
       else join_with slash (replicate (nat (climb b)) ''..'' @ a))"
    using offered_path_relative [OF assms(1-3)] by blast
  obtain c a b where s: "?F = c @ a" "?D @ t = c @ b" "strip_common ?F (?D @ t) = (a, b)"
    using strip_common_result by blast
  have "\<not> prefix ?D c" using assms(4) s(1) by (auto simp: prefix_def)
  then obtain b' where b: "b = b' @ t" "?D = c @ b'" "b' \<noteq> []"
    using s(2) by (auto simp: append_eq_append_conv2 prefix_def)
  have pb: "proper b'" "proper a" using proper_resolve [of cwd] s(1) b(2) by (metis proper_simps(3))+
  have "climb b = int (length b')" using b(1) t climb_proper [OF pb(1)] by (auto simp: climb_append)
  then have "offered_path cwd directory file = Some (join_with slash (replicate (length b') ''..'' @ a))"
    using b(1,3) s(3) o by simp
  moreover from b(3) obtain n where "length b' = Suc n" by (cases b') auto
  ultimately have n: "offered_path cwd directory file = Some (join_with slash (''..'' # replicate n ''..'' @ a))"
    by simp
  let ?o = "join_with slash (''..'' # replicate n ''..'' @ a)"
  have "\<forall>x \<in> set (''..'' # replicate n ''..'' @ a). x \<noteq> [] \<and> slash \<notin> set x"
    using pb(2) unfolding proper_def by (simp add: ball_Un)
  then have pn: "path_names ?o = ''..'' # replicate n ''..'' @ a"
    by (rule path_names_join)
  have "foldl (push_name False) st (replicate n ''..'') = replicate n ''..'' @ st"
    if "st \<noteq> [] \<and> hd st = ''..''" for st n
    using that
  proof (induction n arbitrary: st)
    case (Suc n)
    from Suc.prems obtain ts where "st = ''..'' # ts" by (cases st) auto
    with Suc.IH [of "''..'' # st"] show ?case by (simp add: replicate_app_Cons_same)
  qed simp
  from this [of "[''..'']" n]
  have "normal_names False (path_names ?o) = ''..'' # replicate n ''..'' @ a"
    unfolding pn using pb(2)
    by (simp add: normal_names_def foldl_push_proper replicate_append_same)
  moreover have "relative_path ?o \<noteq> []"
    using pn by (metis list.discI path_names_relative path_names_simps(1))
  ultimately have "destination_path directory2 ?o = None"
    by (simp add: destination_path_cases Let_def)
  with n show ?thesis by blast
qed

theorem outside_offer_dropped_witness:
  "\<exists>offered. offered_path ''/home/u'' ''out'' ''/tmp/x'' = Some offered \<and> destination_path [] offered = None"
  by (rule outside_offer_dropped)
    (simp_all add: is_absolute_def names_file_def resolve_def path_append_def path_names_def
      normal_names_def push_name_def)

end
