(* ===== verification/File_Lock.thy ===== *)
theory File_Lock
  imports Prelude
begin

text \<open>
  \<open>include/FileLock.hpp\<close> over a small file system: the contents of the regular files by resolved path,
  and the advisory locks held through open descriptors, as \<open>flock(2)\<close> documents them (a conflicting
  request waits, or fails when it must not block). A \<open>FileLock\<close> is its descriptor, \<open>None\<close> being -1.
\<close>

datatype lock_mode = Shared | Exclusive

type_synonym names = "string list"

record fsys =
  disk :: "names \<rightharpoonup> bytes"
  flocks :: "(nat \<times> names \<times> lock_mode) list"
  next_fd :: nat

definition fsys_init :: fsys where
  "fsys_init = \<lparr>disk = Map.empty, flocks = [], next_fd = 0\<rparr>"

definition lock_conflict :: "names \<Rightarrow> lock_mode \<Rightarrow> fsys \<Rightarrow> bool" where
  "lock_conflict p m fs \<longleftrightarrow> (\<exists>x \<in> set (flocks fs). fst (snd x) = p \<and> (m = Exclusive \<or> snd (snd x) = Exclusive))"

definition Release :: "nat option \<Rightarrow> fsys \<Rightarrow> nat option \<times> fsys" where
  "Release m_fd fs = (case m_fd of None \<Rightarrow> (None, fs)
     | Some fd \<Rightarrow> (None, fs\<lparr>flocks := filter (\<lambda>x. fst x \<noteq> fd) (flocks fs)\<rparr>))"

text \<open>
  \<open>Acquire(path, mode, wait)\<close>. \<open>openable\<close> is whether \<open>open\<close> succeeds (a missing file is created in
  exclusive mode and fails in shared mode). The outer \<open>None\<close>: the caller waits for the lock.
\<close>

definition Acquire :: "(names \<Rightarrow> bool) \<Rightarrow> names \<Rightarrow> lock_mode \<Rightarrow> bool \<Rightarrow> nat option \<Rightarrow> fsys \<Rightarrow>
    (bool \<times> nat option \<times> fsys) option" where
  "Acquire openable p m wait m_fd fs =
     (let fs1 = snd (Release m_fd fs) in
      if \<not> openable p \<or> (m = Shared \<and> disk fs1 p = None) then Some (False, None, fs1)
      else
        let fs2 = (if disk fs1 p = None then fs1\<lparr>disk := (disk fs1)(p \<mapsto> [])\<rparr> else fs1);
            fd = next_fd fs2;
            fs3 = fs2\<lparr>next_fd := fd + 1\<rparr>
        in if lock_conflict p m fs3 then (if wait then None else Some (False, None, fs3))
           else Some (True, Some fd, fs3\<lparr>flocks := (fd, p, m) # flocks fs3\<rparr>))"

text \<open>The constructor and the destructor of \<open>LockedIfstream\<close>: the bytes it will read, if it is good.\<close>

definition LockedIfstream_open :: "(names \<Rightarrow> bool) \<Rightarrow> names \<Rightarrow> fsys \<Rightarrow>
    (bytes option \<times> nat option \<times> fsys) option" where
  "LockedIfstream_open openable p fs =
     (case Acquire openable p Shared True None fs of None \<Rightarrow> None
      | Some (ok, fd, fs') \<Rightarrow> Some (if ok then disk fs' p else None, fd, fs'))"

definition LockedIfstream_close :: "nat option \<Rightarrow> fsys \<Rightarrow> fsys" where
  "LockedIfstream_close fd fs = snd (Release fd fs)"

definition fsys_inv :: "fsys \<Rightarrow> bool" where
  "fsys_inv fs \<longleftrightarrow> distinct (map fst (flocks fs)) \<and> (\<forall>x \<in> set (flocks fs). fst x < next_fd fs) \<and>
     (\<forall>x \<in> set (flocks fs). \<forall>y \<in> set (flocks fs).
        fst x \<noteq> fst y \<and> fst (snd x) = fst (snd y) \<longrightarrow> snd (snd x) = Shared)"

lemma fsys_inv_init: "fsys_inv fsys_init"
  by (simp add: fsys_inv_def fsys_init_def)

text \<open>An exclusive lock is the only one on its file.\<close>

lemma exclusive_only:
  assumes "fsys_inv fs" and "(fd, p, Exclusive) \<in> set (flocks fs)" and "x \<in> set (flocks fs)" and "fst (snd x) = p"
  shows "x = (fd, p, Exclusive)"
proof -
  have "fst x = fd"
    using assms unfolding fsys_inv_def by (metis fst_conv snd_conv lock_mode.distinct(1))
  moreover have "distinct (map fst (flocks fs))" using assms(1) by (simp add: fsys_inv_def)
  ultimately show ?thesis using assms(2,3) by (metis distinct_map fst_conv inj_onD)
qed

lemma fsys_inv_fewer:
  assumes "fsys_inv fs" and "distinct (map fst L)" and "set L \<subseteq> set (flocks fs)"
  shows "fsys_inv (fs\<lparr>flocks := L\<rparr>)"
proof -
  have "flocks (fs\<lparr>flocks := L\<rparr>) = L" "next_fd (fs\<lparr>flocks := L\<rparr>) = next_fd fs" by simp_all
  note eq = this
  show ?thesis
    using assms unfolding fsys_inv_def eq by (blast intro: subsetD)
qed

lemma fsys_inv_Release: "fsys_inv fs \<Longrightarrow> fsys_inv (snd (Release fd fs))"
proof (cases fd)
  case (Some n)
  assume inv: "fsys_inv fs"
  then have "distinct (map fst (flocks fs))" unfolding fsys_inv_def by blast
  then have "fsys_inv (fs\<lparr>flocks := filter (\<lambda>x. fst x \<noteq> n) (flocks fs)\<rparr>)"
    by (intro fsys_inv_fewer [OF inv] distinct_map_filter) auto
  with Some show ?thesis by (simp add: Release_def)
qed (simp add: Release_def)

lemma fsys_inv_disk [simp]: "fsys_inv (fs\<lparr>disk := d\<rparr>) = fsys_inv fs"
  by (simp add: fsys_inv_def)

lemma not_Exclusive [simp]: "m \<noteq> Exclusive \<longleftrightarrow> m = Shared"
  by (cases m) auto

lemma fsys_inv_bump: "fsys_inv fs \<Longrightarrow> fsys_inv (fs\<lparr>next_fd := Suc (next_fd fs)\<rparr>)"
  by (auto simp: fsys_inv_def intro: less_SucI)

lemma fsys_inv_grant:
  assumes "fsys_inv fs" and "\<not> lock_conflict p m fs"
  shows "fsys_inv (fs\<lparr>next_fd := Suc (next_fd fs), flocks := (next_fd fs, p, m) # flocks fs\<rparr>)"
proof -
  let ?L = "set (flocks fs)" and ?new = "(next_fd fs, p, m)"
  have lt: "\<forall>x \<in> ?L. fst x < next_fd fs"
    and pw: "\<forall>x \<in> ?L. \<forall>y \<in> ?L. fst x \<noteq> fst y \<and> fst (snd x) = fst (snd y) \<longrightarrow> snd (snd x) = Shared"
    and d: "distinct (map fst (flocks fs))"
    using assms(1) unfolding fsys_inv_def by blast+
  have sh: "\<forall>x \<in> ?L. fst (snd x) = p \<longrightarrow> m = Shared \<and> snd (snd x) = Shared"
  proof (intro ballI impI)
    fix x assume "x \<in> ?L" "fst (snd x) = p"
    then have "m \<noteq> Exclusive \<and> snd (snd x) \<noteq> Exclusive"
      using assms(2) unfolding lock_conflict_def by blast
    then show "m = Shared \<and> snd (snd x) = Shared" by simp
  qed
  have "next_fd fs \<notin> fst ` ?L" using lt by force
  with d have "distinct (map fst (?new # flocks fs))" by simp
  moreover have "\<forall>x \<in> insert ?new ?L. fst x < Suc (next_fd fs)" using lt by auto
  moreover have "\<forall>x \<in> insert ?new ?L. \<forall>y \<in> insert ?new ?L.
      fst x \<noteq> fst y \<and> fst (snd x) = fst (snd y) \<longrightarrow> snd (snd x) = Shared"
    using pw sh by auto
  ultimately show ?thesis by (simp add: fsys_inv_def)
qed

lemma fsys_inv_Acquire:
  assumes "fsys_inv fs" and "Acquire openable p m wait fd fs = Some (ok, fd', fs')"
  shows "fsys_inv fs'"
proof -
  let ?fs1 = "snd (Release fd fs)"
  let ?fs2 = "if disk ?fs1 p = None then ?fs1\<lparr>disk := (disk ?fs1)(p \<mapsto> [])\<rparr> else ?fs1"
  have 1: "fsys_inv ?fs1" by (rule fsys_inv_Release [OF assms(1)])
  then have 2: "fsys_inv ?fs2" by simp
  have "fs' \<in> {?fs1, ?fs2\<lparr>next_fd := Suc (next_fd ?fs2)\<rparr>} \<or>
      (\<not> lock_conflict p m ?fs2 \<and>
       fs' = ?fs2\<lparr>next_fd := Suc (next_fd ?fs2), flocks := (next_fd ?fs2, p, m) # flocks ?fs2\<rparr>)"
    using assms(2) by (auto simp: Acquire_def Let_def lock_conflict_def split: if_splits)
  then show ?thesis
    using 1 fsys_inv_bump [OF 2] fsys_inv_grant [OF 2, of p m] by blast
qed

section \<open>Exclusion\<close>

text \<open>The processes that use the locks: acquiring, releasing, and writing, which no lock prevents.\<close>

inductive lock_step :: "fsys \<Rightarrow> fsys \<Rightarrow> bool" where
  lk_acquire: "Acquire openable p m wait fd fs = Some (ok, fd', fs') \<Longrightarrow> lock_step fs fs'"
| lk_release: "Release fd fs = (fd', fs') \<Longrightarrow> lock_step fs fs'"
| lk_write: "lock_step fs (fs\<lparr>disk := d\<rparr>)"

interpretation locks: invariant_system "\<lambda>fs. fs = fsys_init" lock_step fsys_inv
proof (unfold_locales, goal_cases)
  case (1 fs)
  then show ?case by (simp add: fsys_inv_init)
next
  case (2 fs fs')
  from 2(2,1) show ?case
  proof (cases rule: lock_step.cases)
    case (lk_release fd fd')
    then show ?thesis using fsys_inv_Release [OF 2(1), of fd] by simp
  qed (auto intro: fsys_inv_Acquire)
qed

text \<open>
  A file that is being written is not read: in every state the lock users can get to, whoever holds a
  file exclusively is its only holder, a reader of that file waits, and another writer that does not wait
  is refused with the file left as it is, until the holder releases it.
\<close>

theorem lock_exclusion:
  assumes "reach (\<lambda>fs. fs = fsys_init) lock_step fs" and "(fd, p, Exclusive) \<in> set (flocks fs)"
    and "openable p" and "disk fs p = Some content"
  shows "(\<forall>fd' m. (fd', p, m) \<in> set (flocks fs) \<longrightarrow> fd' = fd) \<and>
    LockedIfstream_open openable p fs = None \<and>
    (\<exists>fs'. Acquire openable p Exclusive False None fs = Some (False, None, fs') \<and> disk fs' = disk fs) \<and>
    LockedIfstream_open openable p (snd (Release (Some fd) fs)) \<noteq> None"
proof -
  have inv: "\<forall>x \<in> set (flocks fs). \<forall>y \<in> set (flocks fs). fst x \<noteq> fst y \<and> fst (snd x) = fst (snd y) \<longrightarrow> snd (snd x) = Shared"
    using locks.inv_reach [OF assms(1)] unfolding fsys_inv_def by blast
  have one: "fst x = fd" if "x \<in> set (flocks fs)" "fst (snd x) = p" for x
  proof (rule ccontr)
    assume "fst x \<noteq> fd"
    with inv assms(2) that have "snd (snd (fd, p, Exclusive)) = Shared" by (metis fst_conv snd_conv)
    then show False by simp
  qed
  have c: "lock_conflict p m (fs\<lparr>next_fd := k\<rparr>)" for m k
    unfolding lock_conflict_def using assms(2) by (intro bexI [of _ "(fd, p, Exclusive)"]) simp_all
  have nc: "\<not> lock_conflict p Shared ((snd (Release (Some fd) fs))\<lparr>next_fd := k\<rparr>)" for k
    using one by (auto simp: lock_conflict_def Release_def)
  have "LockedIfstream_open openable p fs = None"
    using c assms(3,4) by (simp add: LockedIfstream_open_def Acquire_def Release_def Let_def)
  moreover have "\<exists>fs'. Acquire openable p Exclusive False None fs = Some (False, None, fs') \<and> disk fs' = disk fs"
    using c assms(3,4) by (simp add: Acquire_def Release_def Let_def)
  moreover have "LockedIfstream_open openable p (snd (Release (Some fd) fs)) \<noteq> None"
    using nc assms(3,4) by (simp add: LockedIfstream_open_def Acquire_def Release_def Let_def)
  ultimately show ?thesis using one by fastforce
qed

theorem lock_exclusion_witness:
  "LockedIfstream_open (\<lambda>p. True) [''f''] \<lparr>disk = [[''f''] \<mapsto> []], flocks = [(0, [''f''], Exclusive)], next_fd = 1\<rparr> = None"
proof -
  have "reach (\<lambda>fs. fs = fsys_init) lock_step \<lparr>disk = [[''f''] \<mapsto> []], flocks = [(0, [''f''], Exclusive)], next_fd = 1\<rparr>"
  proof (rule reach_step)
    show "reach (\<lambda>fs. fs = fsys_init) lock_step fsys_init" by (rule reach_init) simp
    show "lock_step fsys_init \<lparr>disk = [[''f''] \<mapsto> []], flocks = [(0, [''f''], Exclusive)], next_fd = 1\<rparr>"
      by (rule lk_acquire [of "\<lambda>p. True" "[''f'']" Exclusive False None _ True "Some 0"])
        (simp add: Acquire_def Release_def fsys_init_def lock_conflict_def Let_def)
  qed
  from lock_exclusion [OF this, of 0 "[''f'']" "\<lambda>p. True" "[]"] show ?thesis by simp
qed

end
