(* ===== verification/Message_Router.thy ===== *)
theory Message_Router
  imports Json_Doc "HOL-Library.Word"
begin

unbundle bit_operations_syntax

text \<open>
  \<open>WebRTC::MessageRouter\<close> (\<open>include/WebRTC.hpp\<close>): the dispatch of a signalling message on a 32-bit
  hash of its type. \<open>string_hash\<close> is computed on words, with the sign extension of
  \<open>static_cast<unsigned int>(c)\<close> for a signed \<open>char\<close>; \<open>route\<close> is the \<open>switch\<close>; \<open>MessageRouter\<close> is
  parametrised by the handler table of the derived class and by the JSON parser.
\<close>

definition hash_char :: "char \<Rightarrow> 32 word" where
  "hash_char c = signed_take_bit 7 (of_char c)"

definition string_hash :: "string \<Rightarrow> 32 word" where
  "string_hash str = foldl (\<lambda>hash c. (hash XOR hash_char c) * 16777619) 2166136261 str"

datatype handler = HJoin | HLeave | HFileAccept | HFileReject | HOffer | HAnswer | HCandidate
  | HFileOffer | HFileComplete | HPingPong

definition case_labels :: "(string \<times> handler) list" where
  "case_labels = [(''join'', HJoin), (''peer_joined'', HJoin), (''peer_left'', HLeave),
     (''leave'', HLeave), (''file_accept'', HFileAccept), (''file_reject'', HFileReject),
     (''offer'', HOffer), (''answer'', HAnswer), (''candidate'', HCandidate),
     (''file_offer'', HFileOffer), (''file_complete'', HFileComplete),
     (''ping'', HPingPong), (''pong'', HPingPong)]"

definition route :: "string \<Rightarrow> handler option" where
  "route ty = map_of (map (\<lambda>(l, h). (string_hash l, h)) case_labels) (string_hash ty)"

definition MessageRouter ::
    "(handler \<Rightarrow> doc \<Rightarrow> 's \<Rightarrow> 's option) \<Rightarrow> (string \<Rightarrow> json option) \<Rightarrow> string \<Rightarrow> 's \<Rightarrow> 's option" where
  "MessageRouter handle parse jsonStr st = (case parse jsonStr of
       None \<Rightarrow> Some st
     | Some (JObj doc) \<Rightarrow>
         (case string_at doc ''type'' of
            None \<Rightarrow> Some st
          | Some ty \<Rightarrow> (case route ty of None \<Rightarrow> Some st | Some h \<Rightarrow> handle h doc st))
     | Some _ \<Rightarrow> None)"

text \<open>The hash values of the labels, evaluated once.\<close>

lemma label_hashes:
  "map (string_hash \<circ> fst) case_labels =
     [3374496889, 736541103, 4142358575, 1416872128, 382870284, 1059413519,
      3252275677, 2222987743, 2014503514, 2457312562, 3791970299, 375255177, 2061178551]"
  by code_simp

lemma distinct_label_hashes: "distinct (map (string_hash \<circ> fst) case_labels)"
  unfolding label_hashes by simp

lemma map_of_distinct_image:
  "distinct (map f (map fst xs)) \<Longrightarrow> (k, v) \<in> set xs \<Longrightarrow>
     map_of (map (\<lambda>(l, h). (f l, h)) xs) (f k) = Some v"
  by (induction xs) (force simp: image_iff)+

lemma route_label: "(l, h) \<in> set case_labels \<Longrightarrow> route l = Some h"
  unfolding route_def using distinct_label_hashes
  by (intro map_of_distinct_image) simp_all

lemma route_None:
  "route ty = None \<longleftrightarrow> string_hash ty \<notin> set (map (string_hash \<circ> fst) case_labels)"
  by (force simp: route_def map_of_eq_None_iff)

lemma case_labels_mem:
  "(''join'', HJoin) \<in> set case_labels" "(''peer_joined'', HJoin) \<in> set case_labels"
  "(''peer_left'', HLeave) \<in> set case_labels" "(''leave'', HLeave) \<in> set case_labels"
  "(''file_accept'', HFileAccept) \<in> set case_labels" "(''file_reject'', HFileReject) \<in> set case_labels"
  "(''offer'', HOffer) \<in> set case_labels" "(''answer'', HAnswer) \<in> set case_labels"
  "(''candidate'', HCandidate) \<in> set case_labels" "(''file_offer'', HFileOffer) \<in> set case_labels"
  "(''file_complete'', HFileComplete) \<in> set case_labels" "(''ping'', HPingPong) \<in> set case_labels"
  "(''pong'', HPingPong) \<in> set case_labels"
  by (simp_all add: case_labels_def)

lemmas route_labels [simp] = case_labels_mem [THEN route_label]

lemma MessageRouter_doc:
  "parse s = Some (JObj doc) \<Longrightarrow> string_at doc ''type'' = Some l \<Longrightarrow> route l = Some h \<Longrightarrow>
     MessageRouter handle parse s st = handle h doc st"
  by (simp add: MessageRouter_def)

text \<open>
  Every message type the protocol names reaches its own handler: no two labels of the switch
  have the same hash, so a document whose type is a label is given to that label's handler and to
  no other, whatever the derived class and its state.
\<close>

theorem router_dispatch:
  assumes "(l, h) \<in> set case_labels" and "parse s = Some (JObj doc)"
    and "string_at doc ''type'' = Some l"
  shows "MessageRouter handle parse s st = handle h doc st"
  using assms by (simp add: MessageRouter_doc route_label)

theorem router_dispatch_witness:
  "MessageRouter (\<lambda>h d calls. Some (h # calls)) (\<lambda>_. Some (JObj [(''type'', JStr ''ping'')])) ''x'' []
     = Some [HPingPong]"
  using router_dispatch [of "''ping''" HPingPong "\<lambda>_. Some (JObj [(''type'', JStr ''ping'')])" "''x''"
      "[(''type'', JStr ''ping'')]" "\<lambda>h d calls. Some (h # calls)" "[]"]
  by (simp add: case_labels_mem string_at_def get_string_def c_str_def)

text \<open>
  A message whose type hashes to no label is ignored, and one that is no JSON at all too; but
  the comparison is of hashes only, so the type \<open>bupzirv\<close>, which is no label, runs the join handler,
  and a message that is JSON but no object violates the precondition of \<open>HasMember\<close>.
\<close>

theorem router_unknown_type:
  "(string_at doc ''type'' = Some ty \<and> string_hash ty \<notin> set (map (string_hash \<circ> fst) case_labels) \<longrightarrow>
      MessageRouter handle (\<lambda>_. Some (JObj doc)) s st = Some st) \<and>
   MessageRouter handle (\<lambda>_. None) s st = Some st \<and>
   ''bupzirv'' \<notin> fst ` set case_labels \<and>
   MessageRouter handle (\<lambda>_. Some (JObj [(''type'', JStr ''bupzirv'')])) s st =
     handle HJoin [(''type'', JStr ''bupzirv'')] st \<and>
   MessageRouter handle (\<lambda>_. Some (JArr vs)) s st = None"
proof -
  have "string_hash ''bupzirv'' = string_hash ''join''" by code_simp
  then have r: "route ''bupzirv'' = Some HJoin"
    using route_labels(1) by (simp add: route_def)
  have ty: "string_at [(''type'', JStr ''bupzirv'')] ''type'' = Some ''bupzirv''"
    by (simp add: string_at_def get_string_def c_str_def)
  have l: "''bupzirv'' \<notin> fst ` set case_labels" by (simp add: case_labels_def)
  show ?thesis
    unfolding route_None [symmetric] using r ty l by (simp add: MessageRouter_def)
qed

theorem router_unknown_type_witness:
  "MessageRouter (\<lambda>h d calls. Some (h # calls)) (\<lambda>_. Some (JObj [(''type'', JStr ''hello'')])) ''x'' [] = Some []"
proof -
  have "string_hash ''hello'' = 1335831723" by code_simp
  then have "string_hash ''hello'' \<notin> set (map (string_hash \<circ> fst) case_labels)"
    unfolding label_hashes by simp
  then show ?thesis
    using router_unknown_type [of "[(''type'', JStr ''hello'')]" "''hello''"
        "\<lambda>h d calls. Some (h # calls)" "''x''" "[]"]
    by (simp add: string_at_def get_string_def c_str_def)
qed

text \<open>The FNV-1a hash the routine follows: each byte enters unsigned.\<close>

definition fnv1a :: "string \<Rightarrow> 32 word" where
  "fnv1a str = foldl (\<lambda>hash c. (hash XOR of_char c) * 16777619) 2166136261 str"

lemma hash_char_ascii: "of_char c < (128::nat) \<Longrightarrow> hash_char c = of_char c"
  unfolding hash_char_def
  by (cases c) (auto simp: bit_simps intro!: bit_eqI)

text \<open>
  On ASCII text, which every label is, the hash is 32-bit FNV-1a; on bytes from 128 on it is
  not, because the character is sign-extended before it is mixed in.
\<close>

theorem string_hash_fnv1a:
  "((\<forall>c \<in> set s. of_char c < (128::nat)) \<longrightarrow> string_hash s = fnv1a s) \<and>
   string_hash [CHR 0xE9] \<noteq> fnv1a [CHR 0xE9]"
proof (intro conjI impI)
  assume "\<forall>c \<in> set s. of_char c < (128::nat)"
  then show "string_hash s = fnv1a s"
    unfolding string_hash_def fnv1a_def
    by (intro foldl_cong) (simp_all add: hash_char_ascii)
next
  show "string_hash [CHR 0xE9] \<noteq> fnv1a [CHR 0xE9]" by code_simp
qed

theorem string_hash_fnv1a_witness: "string_hash ''join'' = fnv1a ''join''"
  using string_hash_fnv1a [of "''join''"] by simp

end
