(* ===== verification/Client_State.thy ===== *)
theory Client_State
  imports Rooms Json_Doc Property_Bag Work_Queue Local_Description Mime_Crc File_Specs File_Names File_Lock
    Message_Router
begin

text \<open>
  The state of \<open>WebRTCClient\<close> (\<open>include/WebRTCClient.hpp\<close>) and what its operations use of the world
  outside. Objects behind a \<open>shared_ptr\<close> (peer connections, queues, decisions) are addresses; a queue's
  contents and the set of closed decisions are stores indexed by them. \<open>sent\<close> is the history of the
  messages the transport took, \<open>rtc_calls\<close> that of the calls made on peer connections.

  \<open>env\<close> is the environment of one operation: the working directory, what \<open>MessagePort::Send\<close> answers,
  libb64, RapidJSON's writer, libmagic, the random bytes, whether files can be opened, locked and
  written, and what libdatachannel gathers. Operations that can fail an assertion or let an exception
  escape return an \<open>option\<close>.
\<close>

datatype client_state =
    CLIENT_INIT
  | CLIENT_WAITING_FOR_JOIN
  | CLIENT_JOINED
  | CLIENT_RUN
  | CLIENT_PING
  | CLIENT_WAIT_FOR_PONG
  | CLIENT_WAIT_FOR_FILE_ACCEPT
  | CLIENT_EXIT

datatype rtc_call =
    SetRemoteDescription string string
  | CreateAnswer
  | AddRemoteCandidate string string

record DataChannel =
  pc :: nat
  channel :: "nat option"
  fileQ :: "nat option"
  fileDecision :: nat
  description :: local_description

record PendingOffer =
  key :: peer_room_key
  offer_path :: string

record IncomingFile =
  lock :: "nat option"
  stream :: bool \<comment> \<open>the stream is open\<close>
  written :: nat \<comment> \<open>its position\<close>
  expectedSize :: int
  destination :: string

record peer_config =
  maxMessageSize :: nat
  iceServer :: string

record client = webrtc +
  m_properties :: PropertyBag
  m_clientState :: client_state
  m_transportOpen :: bool
  m_room :: string
  m_queuedFiles :: "FileSpec list"
  m_pendingOffers :: "string \<rightharpoonup> PendingOffer"
  m_dataChannels :: "peer_room_key \<rightharpoonup> DataChannel"
  m_incomingChannels :: "peer_room_key \<rightharpoonup> DataChannel"
  m_incomingFiles :: "peer_room_key \<rightharpoonup> IncomingFile list"
  m_receivedPaths :: "string set"
  files :: fsys
  queues :: "nat \<Rightarrow> string QueueBase"
  decisions_closed :: "nat set"
  pcs :: "nat \<rightharpoonup> peer_config"
  next_object :: nat
  sent :: "string list"
  rtc_calls :: "(nat \<times> rtc_call) list"

record env =
  cwd :: string
  sends :: "string \<Rightarrow> bool"
  enc :: "string \<Rightarrow> string"
  dec :: "string \<Rightarrow> string"
  json_writer :: "json \<Rightarrow> string"
  magic :: magic_lib
  random_bytes :: "8 word list"
  openable :: "names \<Rightarrow> bool"
  dirs_ok :: "string \<Rightarrow> bool"
  write_ok :: bool
  partial :: nat \<comment> \<open>bytes that reach the disk when a write fails\<close>
  creates_channel :: "nat \<Rightarrow> nat option" \<comment> \<open>\<open>createDataChannel\<close>, per connection\<close>
  gathering :: "nat \<Rightarrow> gather_event list" \<comment> \<open>callbacks run until the wait for \<open>Complete\<close> ends\<close>

definition client_init :: "PropertyBag \<Rightarrow> client" where
  "client_init b = \<lparr>m_rooms = Map.empty, m_currentWebSocket = None, m_properties = b,
     m_clientState = CLIENT_INIT, m_transportOpen = False, m_room = [], m_queuedFiles = [],
     m_pendingOffers = Map.empty, m_dataChannels = Map.empty, m_incomingChannels = Map.empty,
     m_incomingFiles = Map.empty, m_receivedPaths = {}, files = fsys_init,
     queues = (\<lambda>_. CreateQueue), decisions_closed = {}, pcs = Map.empty, next_object = 0,
     sent = [], rtc_calls = []\<rparr>"

section \<open>Settings and messages\<close>

definition setting :: "client \<Rightarrow> string \<Rightarrow> string option" where
  "setting st k = (case Get_string (m_properties st) k of Inl _ \<Rightarrow> None | Inr s \<Rightarrow> Some s)"

definition setting_int :: "client \<Rightarrow> string \<Rightarrow> int option" where
  "setting_int st k = (case Get_int (m_properties st) k of Inl _ \<Rightarrow> None | Inr i \<Rightarrow> Some i)"

text \<open>\<open>Properties().Contains(k) ? Properties().Get<std::string>(k) : std::string()\<close>.\<close>

definition optional_setting :: "client \<Rightarrow> string \<Rightarrow> string option" where
  "optional_setting st k = (if Contains (m_properties st) k then setting st k else Some [])"

definition SendMessage :: "env \<Rightarrow> string \<Rightarrow> client \<Rightarrow> bool \<times> client" where
  "SendMessage E msg st = (if sends E msg then (True, st\<lparr>sent := sent st @ [msg]\<rparr>) else (False, st))"

definition rtc :: "nat \<Rightarrow> rtc_call \<Rightarrow> client \<Rightarrow> client" where
  "rtc p c st = st\<lparr>rtc_calls := rtc_calls st @ [(p, c)]\<rparr>"

section \<open>Connections\<close>

definition FindPeerConnection :: "string \<Rightarrow> string \<Rightarrow> client \<Rightarrow> nat option" where
  "FindPeerConnection peer room st = map_option pc (m_dataChannels st (peer, room))"

definition show_int :: "int \<Rightarrow> string" where
  "show_int i = (if i < 0 then ''-'' @ to_string (nat (- i)) else to_string (nat i))"

text \<open>\<open>static_cast<size_t>\<close> of the \<open>int\<close> setting.\<close>

definition message_size :: "int \<Rightarrow> nat" where
  "message_size m = nat (m mod 2 ^ 64)"

definition MakePeerConnection :: "string \<Rightarrow> string \<Rightarrow> client \<Rightarrow> (nat \<times> client) option" where
  "MakePeerConnection peer room st = do {
     m \<leftarrow> setting_int st ''maxMessageSize'';
     stunAddress \<leftarrow> setting st ''stunAddress'';
     stunPort \<leftarrow> setting_int st ''stunPort'';
     let stunServer = (if substr stunAddress 0 5 \<noteq> ''stun:'' then ''stun:'' else []) @
           stunAddress @ '':'' @ show_int stunPort;
         p = next_object st
     in Some (p, st\<lparr>next_object := p + 1,
          pcs := (pcs st)(p \<mapsto> \<lparr>maxMessageSize = message_size m, iceServer = stunServer\<rparr>)\<rparr>) }"

text \<open>A new \<open>QueueBase\<close> and a new \<open>FileTransferDecision\<close>.\<close>

definition CreateStringQueue :: "client \<Rightarrow> nat \<times> client" where
  "CreateStringQueue st = (next_object st, st\<lparr>next_object := next_object st + 1,
     queues := (queues st)(next_object st := CreateQueue)\<rparr>)"

definition make_decision :: "client \<Rightarrow> nat \<times> client" where
  "make_decision st = (next_object st, st\<lparr>next_object := next_object st + 1\<rparr>)"

definition usable :: "DataChannel \<Rightarrow> bool" where
  "usable dc \<longleftrightarrow> channel dc \<noteq> None \<and> fileQ dc \<noteq> None"

definition offer_payload :: "env \<Rightarrow> string \<Rightarrow> string \<Rightarrow> local_description \<Rightarrow> string" where
  "offer_payload E peer room d =
     ''{\"type\" : \"offer\", '' @ ''\"room\" : \"'' @ room @ ''\", '' @ ''\"peer\" : \"'' @ peer @ ''\", '' @
     GetDescriptionsJson (enc E) d @ '', '' @ GetCandidatesJson (enc E) d @ ''}''"

text \<open>The second half of \<open>MakeDataChannel\<close>: store the channel, send the offer, undo on failure.\<close>

definition publish_channel :: "env \<Rightarrow> string \<Rightarrow> string \<Rightarrow> DataChannel \<Rightarrow> client \<Rightarrow> bool \<times> client" where
  "publish_channel E peer room dc st =
     (case SendMessage E (offer_payload E peer room (description dc))
         (st\<lparr>m_dataChannels := (m_dataChannels st)((peer, room) \<mapsto> dc)\<rparr>) of
        (True, st1) \<Rightarrow> (True, st1)
      | (False, st1) \<Rightarrow> (False,
          if map_option pc (m_dataChannels st1 (peer, room)) = Some (pc dc)
          then st1\<lparr>m_dataChannels := (m_dataChannels st1)((peer, room) := None)\<rparr> else st1))"

text \<open>
  \<open>obtainInitialDescription\<close> (\<open>src/LocalDescription.cpp\<close>), called on a connection that exists with the
  channel's own description as its \<open>desc\<close>. The wait ends with \<open>Complete\<close> or the time-out; nothing of the
  client is locked meanwhile.
\<close>

definition obtainInitialDescription :: "env \<Rightarrow> DataChannel \<Rightarrow> client \<Rightarrow> bool \<times> DataChannel \<times> client" where
  "obtainInitialDescription E dc st =
     (case creates_channel E (pc dc) of
        None \<Rightarrow> (False, dc\<lparr>channel := None\<rparr>, st)
      | Some ch \<Rightarrow>
          let dc1 = dc\<lparr>channel := Some ch\<rparr>;
              g = fold on_gather (gathering E (pc dc))
                \<lparr>gather_complete = False, gather_description = LocalDescription (random_bytes E)\<rparr>
          in if \<not> gather_complete g then (False, dc1, st)
             else let dc2 = dc1\<lparr>description := gather_description g\<rparr>
               in if descriptions (description dc2) = [] then (False, dc2, st)
                  else (case CreateStringQueue st of (q, st1) \<Rightarrow> (True, dc2\<lparr>fileQ := Some q\<rparr>, st1)))"

definition MakeDataChannel :: "env \<Rightarrow> string \<Rightarrow> string \<Rightarrow> client \<Rightarrow> (bool \<times> client) option" where
  "MakeDataChannel E peer room st = do {
     m \<leftarrow> setting_int st ''maxMessageSize'';
     (decision, st1) \<leftarrow> Some (make_decision st);
     (p, st2) \<leftarrow> MakePeerConnection peer room st1;
     Some (case obtainInitialDescription E \<lparr>pc = p, channel = None, fileQ = None, fileDecision = decision,
         description = LocalDescription (random_bytes E)\<rparr> st2 of
       (False, dc, st3) \<Rightarrow> (False, st3)
     | (True, dc, st3) \<Rightarrow> publish_channel E peer room dc st3) }"

definition WakeFileTransferWorkers :: "client \<Rightarrow> client" where
  "WakeFileTransferWorkers st =
     st\<lparr>decisions_closed := decisions_closed st \<union> fileDecision ` ran (m_dataChannels st)\<rparr>"

section \<open>Offering files\<close>

text \<open>\<open>m_pendingOffers.find(uuid)\<close> and \<open>erase\<close>; \<open>None\<close> is \<open>return false\<close>.\<close>

definition TakePendingOffer :: "doc \<Rightarrow> client \<Rightarrow> (PendingOffer \<times> client) option" where
  "TakePendingOffer doc st = (case string_at doc ''uuid'' of None \<Rightarrow> None
     | Some u \<Rightarrow> (case m_pendingOffers st u of None \<Rightarrow> None
         | Some offer \<Rightarrow> Some (offer, st\<lparr>m_pendingOffers := (m_pendingOffers st)(u := None)\<rparr>)))"

text \<open>The bytes of the file a path denotes, if it can be opened.\<close>

definition file_bytes :: "env \<Rightarrow> string \<Rightarrow> client \<Rightarrow> bytes option" where
  "file_bytes E path st = (let p = resolve (cwd E) path in if openable E p then disk (files st) p else None)"

definition file_offer_payload :: "string \<Rightarrow> string \<Rightarrow> string \<Rightarrow> string \<Rightarrow> string" where
  "file_offer_payload uuid room peer fdsc =
     ''{\"type\" : \"file_offer\", '' @ '' \"uuid\" : \"'' @ uuid @ ''\", '' @ '' \"room\" : \"'' @ room @ ''\", '' @
     '' \"peer\" : \"'' @ peer @ ''\", '' @ '' \"file\" : '' @ fdsc @ '' '' @ ''}''"

text \<open>
  \<open>SendFileOffer\<close> in its two critical parts: what comes before \<open>m_clientState\<close> is set, which fails (an
  exception in it is caught) or yields the metadata, and the rest. Another thread may run between the two.
\<close>

definition SendFileOffer_prepare :: "env \<Rightarrow> string \<Rightarrow> string \<Rightarrow> string \<Rightarrow> client \<Rightarrow> string option" where
  "SendFileOffer_prepare E room peer fileDetails st = do {
     directory \<leftarrow> optional_setting st ''directory'';
     offeredPath \<leftarrow> offered_path (cwd E) directory fileDetails;
     case get_file_info (magic E) (file_bytes E fileDetails st) fileDetails offeredPath of
       (False, fdsc) \<Rightarrow> None
     | (True, fdsc) \<Rightarrow> (case m_dataChannels st (peer, room) of
           None \<Rightarrow> None
         | Some dc \<Rightarrow> if usable dc then Some fdsc else None) }"

definition SendFileOffer_commit :: "env \<Rightarrow> string \<Rightarrow> string \<Rightarrow> string \<Rightarrow> string \<Rightarrow> client \<Rightarrow> bool \<times> client" where
  "SendFileOffer_commit E room peer fileDetails fdsc st =
     (let uuid = generateUUID (random_bytes E);
          st1 = st\<lparr>m_clientState := CLIENT_WAIT_FOR_FILE_ACCEPT\<rparr>;
          st2 = st1\<lparr>m_pendingOffers :=
            (m_pendingOffers st1)(uuid \<mapsto> \<lparr>key = (peer, room), offer_path = fileDetails\<rparr>)\<rparr>
      in case SendMessage E (file_offer_payload uuid room peer fdsc) st2 of
           (True, st3) \<Rightarrow> (True, st3)
         | (False, st3) \<Rightarrow> (False, st3\<lparr>m_pendingOffers := (m_pendingOffers st3)(uuid := None),
             m_clientState := CLIENT_RUN\<rparr>))"

definition SendFileOffer :: "env \<Rightarrow> string \<Rightarrow> string \<Rightarrow> string \<Rightarrow> client \<Rightarrow> bool \<times> client" where
  "SendFileOffer E room peer fileDetails st = (case SendFileOffer_prepare E room peer fileDetails st of
     None \<Rightarrow> (False, st) | Some fdsc \<Rightarrow> SendFileOffer_commit E room peer fileDetails fdsc st)"

definition SendPing :: "env \<Rightarrow> client \<Rightarrow> bool \<times> client" where
  "SendPing E st = SendMessage E ''{ \"type\" : \"ping\" }'' st"

definition SendFileComplete :: "env \<Rightarrow> string \<Rightarrow> string \<Rightarrow> client \<Rightarrow> client" where
  "SendFileComplete E room peer st = snd (SendMessage E
     (''{\"type\" : \"file_complete\", \"room\" : \"'' @ room @ ''\", \"peer\" : \"'' @ peer @ ''\"}'') st)"

definition JoinRoom :: "env \<Rightarrow> string \<Rightarrow> client \<Rightarrow> bool \<times> client" where
  "JoinRoom E room st = SendMessage E
     (c_str (json_writer E (JObj [(''type'', JStr ''join''), (''room'', JCstr room)]))) st"

section \<open>What making a channel leaves alone\<close>

definition same_session :: "client \<Rightarrow> client \<Rightarrow> bool" where
  "same_session s t \<longleftrightarrow> m_properties t = m_properties s \<and> m_clientState t = m_clientState s \<and>
     m_rooms t = m_rooms s \<and> files t = files s \<and> m_incomingFiles t = m_incomingFiles s \<and>
     m_pendingOffers t = m_pendingOffers s"

lemma same_session_trans: "same_session s t \<Longrightarrow> same_session t u \<Longrightarrow> same_session s u"
  by (simp add: same_session_def)

lemma session_MakePeerConnection: "MakePeerConnection peer room s = Some (p, t) \<Longrightarrow> same_session s t"
  by (auto simp: same_session_def MakePeerConnection_def Let_def bind_eq_Some_conv)

lemma session_make_decision: "make_decision s = (d, t) \<Longrightarrow> same_session s t"
  by (auto simp: same_session_def make_decision_def)

lemma session_obtain: "obtainInitialDescription E dc s = (b, dc', t) \<Longrightarrow> same_session s t"
  by (auto simp: same_session_def obtainInitialDescription_def CreateStringQueue_def Let_def
      split: option.splits if_splits)

lemma session_publish: "same_session s (snd (publish_channel E peer room dc s))"
  by (simp add: same_session_def publish_channel_def SendMessage_def)

lemma MakeDataChannel_session:
  assumes "MakeDataChannel E peer room st = Some (b, t)"
  shows "same_session st t"
proof -
  obtain d st1 where d: "make_decision st = (d, st1)" by (cases "make_decision st")
  obtain p st2 where p: "MakePeerConnection peer room st1 = Some (p, st2)"
    using assms d by (cases "MakePeerConnection peer room st1") (auto simp: MakeDataChannel_def bind_eq_Some_conv)
  let ?dc = "\<lparr>pc = p, channel = None, fileQ = None, fileDecision = d, description = LocalDescription (random_bytes E)\<rparr>"
  obtain ok dc st3 where o: "obtainInitialDescription E ?dc st2 = (ok, dc, st3)"
    by (cases "obtainInitialDescription E ?dc st2")
  have "(b, t) = (if ok then publish_channel E peer room dc st3 else (False, st3))"
    using assms d p o by (cases ok) (auto simp: MakeDataChannel_def bind_eq_Some_conv)
  then have "same_session st3 t"
    using session_publish [of st3 E peer room dc] by (cases ok) (auto simp: same_session_def dest: arg_cong [of _ _ snd])
  with session_make_decision [OF d] session_MakePeerConnection [OF p] session_obtain [OF o]
  show ?thesis by (blast intro: same_session_trans)
qed

end
