(* ===== verification/Incoming_Files.thy ===== *)
theory Incoming_Files
  imports Client_State
begin

text \<open>
  The receiving side of \<open>WebRTCClient\<close>: \<open>OnFileOffer\<close>, \<open>StartNextIncoming\<close>, \<open>OnIncomingChunk\<close>,
  \<open>TakeReceivedFile\<close>, \<open>SendFileAccept\<close>, \<open>SendFileReject\<close>. A destination is locked and truncated when it
  becomes the front of its sender's queue; a chunk is written at the stream's position.
\<close>

definition normal_path :: "env \<Rightarrow> string \<Rightarrow> string" where
  "normal_path E p = lexically_normal (path_append (cwd E) p)"

fun StartNextIncoming :: "env \<Rightarrow> IncomingFile list \<Rightarrow> fsys \<Rightarrow> string set \<Rightarrow>
    IncomingFile list \<times> fsys \<times> string set" where
  "StartNextIncoming E [] fs received = ([], fs, received)"
| "StartNextIncoming E (f # q) fs received =
     (if stream f then (f # q, fs, received)
      else
        let p = resolve (cwd E) (destination f) in
        (case Acquire (openable E) p Exclusive False (lock f) fs of
           None \<Rightarrow> (f # q, fs, received)
         | Some (False, fd, fs1) \<Rightarrow> StartNextIncoming E q fs1 received
         | Some (True, fd, fs1) \<Rightarrow>
             if \<not> openable E p then StartNextIncoming E q (snd (Release fd fs1)) received
             else
               let fs2 = fs1\<lparr>disk := (disk fs1)(p \<mapsto> [])\<rparr> in
               if expectedSize f = 0
               then StartNextIncoming E q (snd (Release fd fs2)) (insert (normal_path E (destination f)) received)
               else (f\<lparr>lock := fd, stream := True, written := 0\<rparr> # q, fs2, received)))"

definition TakeReceivedFile :: "env \<Rightarrow> string \<Rightarrow> client \<Rightarrow> bool \<times> client" where
  "TakeReceivedFile E path st =
     (normal_path E path \<in> m_receivedPaths st,
      st\<lparr>m_receivedPaths := m_receivedPaths st - {normal_path E path}\<rparr>)"

text \<open>Writing at a position of a file.\<close>

definition write_at :: "nat \<Rightarrow> bytes \<Rightarrow> bytes \<Rightarrow> bytes" where
  "write_at n bs c = take n (c @ replicate (n - length c) CHR 0x00) @ bs @ drop (n + length bs) c"

definition put_queue :: "peer_room_key \<Rightarrow> IncomingFile list \<Rightarrow> client \<Rightarrow> client" where
  "put_queue k q st = st\<lparr>m_incomingFiles := (m_incomingFiles st)(k := if q = [] then None else Some q)\<rparr>"

definition start_next :: "env \<Rightarrow> peer_room_key \<Rightarrow> IncomingFile list \<Rightarrow> client \<Rightarrow> client" where
  "start_next E k q st = (case StartNextIncoming E q (files st) (m_receivedPaths st) of
     (q', fs, received) \<Rightarrow> put_queue k q' (st\<lparr>files := fs, m_receivedPaths := received\<rparr>))"

definition OnIncomingChunk :: "env \<Rightarrow> string \<Rightarrow> string \<Rightarrow> bytes \<Rightarrow> client \<Rightarrow> client" where
  "OnIncomingChunk E peer room bytes st =
     (case m_incomingFiles st (peer, room) of
        None \<Rightarrow> st
      | Some [] \<Rightarrow> st
      | Some (hd_file # rest) \<Rightarrow>
          if \<not> stream hd_file then st
          else
            let p = resolve (cwd E) (destination hd_file);
                bs = (if write_ok E then bytes else take (partial E) bytes);
                content = (case disk (files st) p of None \<Rightarrow> [] | Some c \<Rightarrow> c);
                fs = (files st)\<lparr>disk := (disk (files st))(p \<mapsto> write_at (written hd_file) bs content)\<rparr>;
                bytesWritten = written hd_file + length bytes;
                transferComplete = (write_ok E \<and> int bytesWritten = expectedSize hd_file);
                finished = (\<not> write_ok E \<or> \<not> int bytesWritten < expectedSize hd_file);
                st1 = st\<lparr>files := fs\<rparr>;
                st2 = (if finished
                  then start_next E (peer, room) rest
                    (st1\<lparr>files := snd (Release (lock hd_file) fs),
                         m_receivedPaths := insert (normal_path E (destination hd_file)) (m_receivedPaths st1)\<rparr>)
                  else put_queue (peer, room) (hd_file\<lparr>written := bytesWritten\<rparr> # rest) st1)
            in if transferComplete then st2\<lparr>m_clientState := CLIENT_RUN\<rparr> else st2)"

section \<open>Answering an offer\<close>

definition retype :: "string \<Rightarrow> doc \<Rightarrow> doc option" where
  "retype t doc = (if map_of doc ''type'' = None then None else Some (set_string ''type'' t doc))"

definition SendFileAccept :: "env \<Rightarrow> doc \<Rightarrow> client \<Rightarrow> client option" where
  "SendFileAccept E doc st = (case string_at doc ''peer'' of None \<Rightarrow> Some st
     | Some peer \<Rightarrow> map_option
         (\<lambda>d. snd (SendMessage E (c_str (json_writer E (JObj
            (add_member ''peer'' (JCstr peer) (erase_member ''peer'' (erase_member ''peer'' d)))))) st))
         (retype ''file_accept'' doc))"

definition SendFileReject :: "env \<Rightarrow> doc \<Rightarrow> client \<Rightarrow> client option" where
  "SendFileReject E doc st = (case (string_at doc ''peer'', string_at doc ''uuid'') of
       (Some peer, Some uuid) \<Rightarrow> map_option
         (\<lambda>d. snd (SendMessage E (c_str (json_writer E (JObj
            (add_member ''peer'' (JCstr peer) (erase_member ''peer'' d))))) st))
         (retype ''file_reject'' doc)
     | _ \<Rightarrow> Some st)"

text \<open>The guards of \<open>OnFileOffer\<close>: sender, room and metadata.\<close>

definition file_offer_fields :: "doc \<Rightarrow> (string \<times> string \<times> doc \<times> string \<times> int) option" where
  "file_offer_fields doc = do {
     peer \<leftarrow> string_at doc ''peer'';
     room \<leftarrow> string_at doc ''room'';
     f \<leftarrow> object_at doc ''file'';
     name \<leftarrow> string_at f ''name'';
     len \<leftarrow> int64_at f ''size'';
     mime \<leftarrow> string_at f ''mimeType'';
     Some (peer, room, f, name, len) }"

text \<open>The file is already there with the offered checksum.\<close>

definition already_present :: "env \<Rightarrow> doc \<Rightarrow> string \<Rightarrow> client \<Rightarrow> bool" where
  "already_present E f dest st = (case uint64_at f ''crc'' of None \<Rightarrow> False
     | Some crc \<Rightarrow> (case get_crc (file_bytes E dest st) of None \<Rightarrow> False | Some c \<Rightarrow> uint c = crc))"

definition new_incoming :: "int \<Rightarrow> string \<Rightarrow> IncomingFile" where
  "new_incoming len dest = \<lparr>lock = None, stream = False, written = 0, expectedSize = len, destination = dest\<rparr>"

definition parent_path :: "string \<Rightarrow> string" where
  "parent_path p = (let d = rev (dropWhile (\<lambda>c. c \<noteq> slash) (rev p));
       r = rev (dropWhile (\<lambda>c. c = slash) (rev d))
     in if r = [] \<and> d \<noteq> [] then [slash] else r)"

definition enqueue_incoming :: "env \<Rightarrow> peer_room_key \<Rightarrow> IncomingFile \<Rightarrow> client \<Rightarrow> client" where
  "enqueue_incoming E k f st =
     (let q = (case m_incomingFiles st k of None \<Rightarrow> [] | Some q \<Rightarrow> q) @ [f]
      in if length q = 1 then start_next E k q st else put_queue k q st)"

definition OnFileOffer :: "env \<Rightarrow> doc \<Rightarrow> client \<Rightarrow> client option" where
  "OnFileOffer E doc st = (case file_offer_fields doc of None \<Rightarrow> Some st
     | Some (peer, room, f, name, len) \<Rightarrow> do {
         directory \<leftarrow> optional_setting st ''directory'';
         case destination_path directory name of
           None \<Rightarrow> Some st
         | Some dest \<Rightarrow>
             if parent_path dest \<noteq> [] \<and> \<not> dirs_ok E (parent_path dest) then Some st
             else if already_present E f dest st then SendFileReject E doc st
             else SendFileAccept E doc (enqueue_incoming E (peer, room) (new_incoming len dest) st) })"

end
