(* ===== verification/Client_Handlers.thy ===== *)
theory Client_Handlers
  imports Incoming_Files
begin

text \<open>
  The other handlers and entry points of \<open>WebRTCClient\<close>: membership, answers, candidates and offers,
  responses to file offers, ping and pong, the transport's open and close, the public queueing
  operations. Each is one atomic step; a handler is \<open>None\<close> when it fails an assertion of RapidJSON,
  lets an exception escape or writes past a buffer.
\<close>

text \<open>The loop over \<open>doc["peers"]\<close>: \<open>None\<close> when an element is no string.\<close>

fun peer_set :: "json list \<Rightarrow> string set \<Rightarrow> string set option" where
  "peer_set [] peers = Some peers"
| "peer_set (v # vs) peers = (case get_string v of None \<Rightarrow> None | Some p \<Rightarrow> peer_set vs (insert p peers))"

definition OnJoin :: "doc \<Rightarrow> client \<Rightarrow> client option" where
  "OnJoin doc st = (case (string_at doc ''room'', string_at doc ''peerId'', array_at doc ''peers'') of
     (Some room, Some peer, Some vs) \<Rightarrow>
       (case setting st ''name'' of None \<Rightarrow> None
        | Some clientName \<Rightarrow>
          (case peer_set vs {} of None \<Rightarrow> Some st
           | Some peers \<Rightarrow>
               let st1 = UpdatePeers room peers st in
               Some (if m_clientState st1 = CLIENT_WAITING_FOR_JOIN \<and> room = m_room st1 \<and> peer = clientName
                     then st1\<lparr>m_clientState := CLIENT_JOINED\<rparr> else st1)))
   | _ \<Rightarrow> Some st)"

text \<open>\<open>doc["peers"].GetArray()\<close> is not guarded here.\<close>

definition OnLeave :: "doc \<Rightarrow> client \<Rightarrow> client option" where
  "OnLeave doc st = (case (string_at doc ''room'', string_at doc ''peerId'') of
     (Some room, Some peer) \<Rightarrow>
       let st1 = snd (Leave peer room st) in
       (case array_at doc ''peers'' of None \<Rightarrow> None
        | Some vs \<Rightarrow> Some (case peer_set vs {} of None \<Rightarrow> st1 | Some peers \<Rightarrow> UpdatePeers room peers st1))
   | _ \<Rightarrow> Some st)"

definition release_wait :: "client \<Rightarrow> client" where
  "release_wait st = (if m_clientState st = CLIENT_WAIT_FOR_FILE_ACCEPT
     then st\<lparr>m_clientState := CLIENT_RUN\<rparr> else st)"

definition OnFileAccept :: "doc \<Rightarrow> client \<Rightarrow> client option" where
  "OnFileAccept doc st = (case TakePendingOffer doc st of None \<Rightarrow> Some st
     | Some (offer, st1) \<Rightarrow>
         (case Option.bind (m_dataChannels st1 (key offer)) fileQ of
            None \<Rightarrow> Some st1
          | Some q \<Rightarrow> Some (release_wait
              (st1\<lparr>queues := (queues st1)(q := AddItem (Some (offer_path offer)) (queues st1 q))\<rparr>))))"

definition OnFileReject :: "doc \<Rightarrow> client \<Rightarrow> client option" where
  "OnFileReject doc st = (case TakePendingOffer doc st of None \<Rightarrow> Some st
     | Some (offer, st1) \<Rightarrow> Some (release_wait st1))"

text \<open>The peer, and the room with the last joined room as its default.\<close>

definition answer_key :: "doc \<Rightarrow> client \<Rightarrow> peer_room_key" where
  "answer_key doc st = (case string_at doc ''peer'' of None \<Rightarrow> [] | Some p \<Rightarrow> p,
     case string_at doc ''room'' of None \<Rightarrow> m_room st | Some r \<Rightarrow> r)"

definition OnAnswer :: "env \<Rightarrow> doc \<Rightarrow> client \<Rightarrow> client option" where
  "OnAnswer E doc st = (case FindPeerConnection (fst (answer_key doc st)) (snd (answer_key doc st)) st of
     None \<Rightarrow> Some st
   | Some p \<Rightarrow> (case string_at doc ''sdp'' of None \<Rightarrow> Some st
       | Some sdp \<Rightarrow> (case base64Decode (dec E) sdp of None \<Rightarrow> None
           | Some (False, d) \<Rightarrow> Some st
           | Some (True, d) \<Rightarrow> Some (rtc p (SetRemoteDescription d ''answer'') st))))"

definition OnCandidate :: "env \<Rightarrow> doc \<Rightarrow> client \<Rightarrow> client option" where
  "OnCandidate E doc st = (case FindPeerConnection (fst (answer_key doc st)) (snd (answer_key doc st)) st of
     None \<Rightarrow> Some st
   | Some p \<Rightarrow> (case (string_at doc ''candidate'', string_at doc ''mid'') of
       (Some cand, Some mid) \<Rightarrow> Some (rtc p (AddRemoteCandidate cand mid) st)
     | _ \<Rightarrow> Some st))"

section \<open>Incoming connections\<close>

definition offer_description :: "env \<Rightarrow> nat \<Rightarrow> doc \<Rightarrow> client \<Rightarrow> client option" where
  "offer_description E p doc st = (case array_at doc ''descriptions'' of None \<Rightarrow> Some st
     | Some [] \<Rightarrow> None
     | Some (v # vs) \<Rightarrow> (case get_string v of None \<Rightarrow> None
         | Some s \<Rightarrow> (case base64Decode (dec E) s of None \<Rightarrow> None
             | Some (False, sdp) \<Rightarrow> Some st
             | Some (True, sdp) \<Rightarrow> Some (rtc p CreateAnswer (rtc p (SetRemoteDescription sdp ''offer'') st)))))"

definition offer_candidate :: "env \<Rightarrow> nat \<Rightarrow> json \<Rightarrow> client \<Rightarrow> client option" where
  "offer_candidate E p v st = (case get_string v of None \<Rightarrow> None
     | Some s \<Rightarrow> (case base64Decode (dec E) s of None \<Rightarrow> None
         | Some (False, c) \<Rightarrow> Some st
         | Some (True, c) \<Rightarrow> Some (rtc p (AddRemoteCandidate c ''0'') st)))"

definition OnOffer :: "env \<Rightarrow> doc \<Rightarrow> client \<Rightarrow> client option" where
  "OnOffer E doc st = (case (string_at doc ''peer'', string_at doc ''room'') of
     (Some peer, Some room) \<Rightarrow> do {
       (decision, st1) \<leftarrow> Some (make_decision st);
       (p, st2) \<leftarrow> MakePeerConnection peer room st1;
       (q, st3) \<leftarrow> Some (CreateStringQueue st2);
       let dc = \<lparr>pc = p, channel = None, fileQ = Some q, fileDecision = decision,
                 description = \<lparr>UUID = generateUUID (random_bytes E), descriptions = [], candidates = []\<rparr>\<rparr>;
           st4 = st3\<lparr>m_incomingChannels := (m_incomingChannels st3)((peer, room) \<mapsto> dc)\<rparr>
       in do {
         st5 \<leftarrow> offer_description E p doc st4;
         (case array_at doc ''candidates'' of None \<Rightarrow> Some st5
          | Some vs \<Rightarrow> each (offer_candidate E p) vs st5) } }
   | _ \<Rightarrow> Some st)"

text \<open>The callbacks \<open>OnOffer\<close> installs: a channel arrives, a candidate or the answer is ready to be sent.\<close>

definition on_data_channel :: "peer_room_key \<Rightarrow> nat \<Rightarrow> client \<Rightarrow> client" where
  "on_data_channel k ch st = (case m_incomingChannels st k of None \<Rightarrow> st
     | Some dc \<Rightarrow> st\<lparr>m_incomingChannels := (m_incomingChannels st)(k \<mapsto> dc\<lparr>channel := Some ch\<rparr>)\<rparr>)"

definition on_local_candidate :: "env \<Rightarrow> string \<Rightarrow> string \<Rightarrow> string \<Rightarrow> string \<Rightarrow> client \<Rightarrow> client" where
  "on_local_candidate E peer room cand mid st = snd (SendMessage E
     (''{ \"type\" : \"candidate\", '' @ ''\"peer\" : \"'' @ peer @ ''\", \"room\" : \"'' @ room @
      ''\", \"candidate\" : \"'' @ cand @ ''\", \"mid\" : \"'' @ mid @ ''\"}'') st)"

definition description_payload :: "string \<Rightarrow> string \<Rightarrow> string \<Rightarrow> string \<Rightarrow> string" where
  "description_payload typeString peer room b64 =
     ''{ \"type\" : \"'' @ typeString @ ''\", \"peer\" : \"'' @ peer @ ''\", \"room\" : \"'' @ room @
     ''\", \"sdp\" : \"'' @ b64 @ ''\"}''"

definition on_local_description :: "env \<Rightarrow> string \<Rightarrow> string \<Rightarrow> string \<Rightarrow> string \<Rightarrow> client \<Rightarrow> client" where
  "on_local_description E peer room typeString sdp st = (case base64Encode (enc E) sdp of None \<Rightarrow> st
     | Some b64 \<Rightarrow> snd (SendMessage E (description_payload typeString peer room b64) st))"

text \<open>\<open>dc->onMessage\<close>: text is only logged.\<close>

definition on_channel_message :: "env \<Rightarrow> peer_room_key \<Rightarrow> string + bytes \<Rightarrow> client \<Rightarrow> client" where
  "on_channel_message E k msg st = (case msg of Inl t \<Rightarrow> st | Inr b \<Rightarrow> OnIncomingChunk E (fst k) (snd k) b st)"

section \<open>Completion, ping and pong\<close>

definition OnFileComplete :: "doc \<Rightarrow> client \<Rightarrow> client option" where
  "OnFileComplete doc st = Some st"

definition OnPingPong :: "doc \<Rightarrow> client \<Rightarrow> client option" where
  "OnPingPong doc st =
     (if string_at doc ''type'' \<noteq> Some ''pong'' then Some st
      else (case string_at doc ''id'' of None \<Rightarrow> Some st
        | Some i \<Rightarrow> (case setting st ''name'' of None \<Rightarrow> None
            | Some clientName \<Rightarrow> Some (if i \<noteq> clientName then st
                else if m_clientState st = CLIENT_WAIT_FOR_PONG then st\<lparr>m_clientState := CLIENT_RUN\<rparr>
                else st))))"

fun client_handle :: "env \<Rightarrow> handler \<Rightarrow> doc \<Rightarrow> client \<Rightarrow> client option" where
  "client_handle E HJoin doc st = OnJoin doc st"
| "client_handle E HLeave doc st = OnLeave doc st"
| "client_handle E HFileAccept doc st = OnFileAccept doc st"
| "client_handle E HFileReject doc st = OnFileReject doc st"
| "client_handle E HOffer doc st = OnOffer E doc st"
| "client_handle E HAnswer doc st = OnAnswer E doc st"
| "client_handle E HCandidate doc st = OnCandidate E doc st"
| "client_handle E HFileOffer doc st = OnFileOffer E doc st"
| "client_handle E HFileComplete doc st = OnFileComplete doc st"
| "client_handle E HPingPong doc st = OnPingPong doc st"

definition client_message :: "env \<Rightarrow> (string \<Rightarrow> json option) \<Rightarrow> string \<Rightarrow> client \<Rightarrow> client option" where
  "client_message E parse input st = MessageRouter (client_handle E) parse input st"

section \<open>The transport and the public operations\<close>

definition OnMessageOpen :: "string \<Rightarrow> client \<Rightarrow> client" where
  "OnMessageOpen peer st = st\<lparr>m_transportOpen := True\<rparr>"

definition OnMessageClose :: "client \<Rightarrow> client" where
  "OnMessageClose st =
     (if m_clientState st = CLIENT_EXIT then WakeFileTransferWorkers st
      else ClearRooms ((WakeFileTransferWorkers (st\<lparr>m_clientState := CLIENT_INIT, m_transportOpen := False\<rparr>))
        \<lparr>m_dataChannels := Map.empty, m_incomingChannels := Map.empty\<rparr>))"

text \<open>What \<open>Start\<close> and \<open>Stop\<close> do to the state before they turn to the transport and the thread.\<close>

definition Start_session :: "client \<Rightarrow> client" where
  "Start_session st = st\<lparr>m_clientState := CLIENT_INIT, m_transportOpen := False\<rparr>"

definition Stop_session :: "client \<Rightarrow> client" where
  "Stop_session st = WakeFileTransferWorkers (st\<lparr>m_clientState := CLIENT_EXIT\<rparr>)"

definition IsRunning :: "client \<Rightarrow> bool" where
  "IsRunning st \<longleftrightarrow> m_clientState st \<noteq> CLIENT_EXIT"

definition QueueFile :: "string \<Rightarrow> string \<Rightarrow> string \<Rightarrow> client \<Rightarrow> bool \<times> client" where
  "QueueFile name room filePath st =
     (if name = [] \<or> room = [] \<or> filePath = [] then (False, st)
      else if m_clientState st = CLIENT_EXIT then (False, st)
      else (True, st\<lparr>m_queuedFiles := m_queuedFiles st @ [\<lparr>fs_peer = name, fs_room = room, fs_path = filePath\<rparr>]\<rparr>))"

fun queue_to :: "peer_room_key list \<Rightarrow> string \<Rightarrow> nat \<times> client \<Rightarrow> nat \<times> client" where
  "queue_to [] filePath acc = acc"
| "queue_to ((p, r) # ts) filePath (n, st) =
     (case QueueFile p r filePath st of (ok, st') \<Rightarrow> queue_to ts filePath (if ok then n + 1 else n, st'))"

definition QueueFileToAll :: "string \<Rightarrow> client \<Rightarrow> nat \<times> client" where
  "QueueFileToAll filePath st = queue_to (map_keys (m_dataChannels st)) filePath (0, st)"

definition InRoom :: "string \<Rightarrow> client \<Rightarrow> bool option" where
  "InRoom room st = (case GetPeers room [] st of (False, ps) \<Rightarrow> Some False
     | (True, ps) \<Rightarrow> map_option (\<lambda>n. n \<in> set ps) (setting st ''name''))"

end
