(* ===== verification/Client_Worker.thy ===== *)
theory Client_Worker
  imports Client_Handlers
begin

text \<open>
  The background thread of the client: \<open>StartClient\<close> with \<open>JoinRooms\<close>, \<open>ConnectPeer\<close> and
  \<open>OfferFiles\<close>, as steps between the points where \<open>m_clientStateMutex\<close> is released (a wait on the
  condition variable or an unlocked region). \<open>worker_pc\<close> is where the thread is; a step answers that
  the thread is blocked in a wait whose predicate is false, that an exception ends the program, or
  where it goes next. The argument \<open>timed_out\<close> is whether a timed wait has expired.
\<close>

datatype after_join =
    ThenConnect string string "FileSpec list" \<comment> \<open>\<open>StartClient\<close>: \<open>--peer\<close>, \<open>--room\<close>, the parsed files\<close>
  | ThenOffer FileSpec "FileSpec list" \<comment> \<open>\<open>OfferFiles\<close>: this file, the rest\<close>

datatype worker_pc =
    AtLoop
  | AtJoin "string list" after_join
  | AtJoinWait "string list" after_join
  | AtConnect string string "FileSpec list"
  | AtConnectMake string string "FileSpec list"
  | AtConnectFail
  | AtOffer "FileSpec list"
  | AtOfferWait FileSpec "FileSpec list"
  | AtOfferMake FileSpec "FileSpec list"
  | AtOfferPrepare FileSpec "FileSpec list"
  | AtOfferCommit FileSpec "FileSpec list" string
  | AtOfferCheck bool "FileSpec list"
  | AtFinish bool
  | AtPing
  | AtPingCheck bool
  | AtDone

datatype outcome = Blocked | Crashed | Next worker_pc client

definition stopped :: "client \<Rightarrow> bool" where
  "stopped st \<longleftrightarrow> m_clientState st = CLIENT_EXIT \<or> m_clientState st = CLIENT_INIT"

definition present :: "string \<Rightarrow> string \<Rightarrow> client \<Rightarrow> bool" where
  "present peer room st \<longleftrightarrow> peer \<in> set (snd (GetPeers room [] st))"

definition set_state :: "client_state \<Rightarrow> client \<Rightarrow> client" where
  "set_state s st = st\<lparr>m_clientState := s\<rparr>"

section \<open>Joining\<close>

text \<open>\<open>JoinRooms\<close> up to its next wait or its return.\<close>

datatype join_outcome = JoinReturns bool client | JoinWaits "string list" client | JoinCrashes

fun JoinRooms :: "env \<Rightarrow> string list \<Rightarrow> client \<Rightarrow> join_outcome" where
  "JoinRooms E [] st = JoinReturns True st"
| "JoinRooms E (room # rs) st =
     (if m_clientState st = CLIENT_EXIT then JoinReturns False st
      else if room = [] then JoinRooms E rs st
      else (case InRoom room st of None \<Rightarrow> JoinCrashes
        | Some True \<Rightarrow> JoinRooms E rs st
        | Some False \<Rightarrow>
            (case JoinRoom E room (set_state CLIENT_WAITING_FOR_JOIN (st\<lparr>m_room := room\<rparr>)) of
               (True, st') \<Rightarrow> JoinWaits rs st'
             | (False, st') \<Rightarrow> JoinReturns False (set_state CLIENT_EXIT st'))))"

fun joined :: "bool \<Rightarrow> after_join \<Rightarrow> worker_pc" where
  "joined False k = AtFinish False"
| "joined True (ThenConnect peer room specs) = (if peer = [] then AtOffer specs else AtConnect peer room specs)"
| "joined True (ThenOffer spec specs) = AtOfferWait spec specs"

definition join_step :: "env \<Rightarrow> string list \<Rightarrow> after_join \<Rightarrow> client \<Rightarrow> outcome" where
  "join_step E rooms k st = (case JoinRooms E rooms st of
     JoinReturns ok st' \<Rightarrow> Next (joined ok k) st' | JoinWaits rs st' \<Rightarrow> Next (AtJoinWait rs k) st' | JoinCrashes \<Rightarrow> Crashed)"

section \<open>The loop\<close>

text \<open>STEP 1 and 2 of \<open>StartClient\<close>: the files to offer and the rooms to join. The outer \<open>None\<close> is an
  exception, the inner one a malformed \<open>--file\<close>.\<close>

definition initial_specs :: "client \<Rightarrow> FileSpec list option option" where
  "initial_specs st = do {
     peerName \<leftarrow> optional_setting st ''peer'';
     if Contains (m_properties st) ''file'' \<and> peerName \<noteq> [] then do {
       paths \<leftarrow> setting st ''file'';
       roomName \<leftarrow> setting st ''room'';
       Some (Some (path_list peerName roomName paths)) }
     else if Contains (m_properties st) ''file'' then do {
       f \<leftarrow> setting st ''file'';
       Some (case ParseFileSpecs f [] of (True, specs) \<Rightarrow> Some specs | (False, specs) \<Rightarrow> None) }
     else Some (Some []) }"

definition initial_rooms :: "client \<Rightarrow> FileSpec list \<Rightarrow> string list option" where
  "initial_rooms st specs = do {
     r \<leftarrow> (if Contains (m_properties st) ''room'' then map_option (\<lambda>x. [x]) (setting st ''room'') else Some []);
     Some (remdups_adj (sort (r @ map fs_room specs))) }"

definition init_step :: "client \<Rightarrow> outcome" where
  "init_step st = (if \<not> m_transportOpen st then Blocked
     else (case initial_specs st of None \<Rightarrow> Crashed
       | Some None \<Rightarrow> Next AtLoop (set_state CLIENT_EXIT st)
       | Some (Some specs) \<Rightarrow>
           (case (initial_rooms st specs, optional_setting st ''peer'', optional_setting st ''room'') of
              (Some rooms, Some peerName, Some roomName) \<Rightarrow> Next (AtJoin rooms (ThenConnect peerName roomName specs)) st
            | _ \<Rightarrow> Crashed)))"

fun loop_step :: "client_state \<Rightarrow> bool \<Rightarrow> client \<Rightarrow> outcome" where
  "loop_step CLIENT_EXIT timed_out st = Next AtDone st"
| "loop_step CLIENT_INIT timed_out st = init_step st"
| "loop_step CLIENT_WAIT_FOR_FILE_ACCEPT timed_out st = Blocked"
| "loop_step CLIENT_RUN timed_out st =
     (if m_queuedFiles st \<noteq> [] then Next (AtOffer (m_queuedFiles st)) (st\<lparr>m_queuedFiles := []\<rparr>)
      else if timed_out then Next AtLoop (set_state CLIENT_PING st) else Blocked)"
| "loop_step CLIENT_PING timed_out st = Next AtPing (set_state CLIENT_WAIT_FOR_PONG st)"
| "loop_step CLIENT_WAIT_FOR_PONG timed_out st =
     (if timed_out then Next AtLoop (set_state CLIENT_EXIT st) else Blocked)"
| "loop_step CLIENT_JOINED timed_out st = Next AtLoop st"
| "loop_step CLIENT_WAITING_FOR_JOIN timed_out st = Blocked"

text \<open>\<open>hasChannel || MakeDataChannel(peer, room)\<close>.\<close>

definition ensure_channel :: "env \<Rightarrow> string \<Rightarrow> string \<Rightarrow> client \<Rightarrow> (bool \<times> client) option" where
  "ensure_channel E peer room st =
     (if m_dataChannels st (peer, room) \<noteq> None then Some (True, st) else MakeDataChannel E peer room st)"

fun worker_step :: "env \<Rightarrow> bool \<Rightarrow> worker_pc \<Rightarrow> client \<Rightarrow> outcome" where
  "worker_step E timed_out AtLoop st = loop_step (m_clientState st) timed_out st"
| "worker_step E timed_out (AtJoin rooms k) st = join_step E rooms k st"
| "worker_step E timed_out (AtJoinWait rs k) st =
     (if stopped st then Next (joined False k) st
      else if m_clientState st = CLIENT_JOINED then join_step E rs k st
      else if timed_out then Next (joined False k) (set_state CLIENT_EXIT st) else Blocked)"
| "worker_step E timed_out (AtConnect peer room specs) st =
     (if stopped st then Next (AtFinish False) st
      else if present peer room st then Next (AtConnectMake peer room specs) st else Blocked)"
| "worker_step E timed_out (AtConnectMake peer room specs) st =
     (case ensure_channel E peer room st of None \<Rightarrow> Crashed
      | Some (True, st') \<Rightarrow> Next (AtOffer specs) st' | Some (False, st') \<Rightarrow> Next AtConnectFail st')"
| "worker_step E timed_out AtConnectFail st =
     Next (AtFinish False) (if stopped st then st else set_state CLIENT_EXIT st)"
| "worker_step E timed_out (AtOffer []) st = Next (AtFinish True) st"
| "worker_step E timed_out (AtOffer (spec # specs)) st = join_step E [fs_room spec] (ThenOffer spec specs) st"
| "worker_step E timed_out (AtOfferWait spec specs) st =
     (if stopped st then Next (AtFinish False) st
      else if present (fs_peer spec) (fs_room spec) st then Next (AtOfferMake spec specs) st
      else if timed_out then Next (AtFinish False) (set_state CLIENT_EXIT st) else Blocked)"
| "worker_step E timed_out (AtOfferMake spec specs) st =
     (case ensure_channel E (fs_peer spec) (fs_room spec) st of None \<Rightarrow> Crashed
      | Some (True, st') \<Rightarrow> Next (AtOfferPrepare spec specs) st' | Some (False, st') \<Rightarrow> Next (AtOfferCheck False specs) st')"
| "worker_step E timed_out (AtOfferPrepare spec specs) st =
     (case SendFileOffer_prepare E (fs_room spec) (fs_peer spec) (fs_path spec) st of
        None \<Rightarrow> Next (AtOfferCheck True specs) st | Some fdsc \<Rightarrow> Next (AtOfferCommit spec specs fdsc) st)"
| "worker_step E timed_out (AtOfferCommit spec specs fdsc) st =
     Next (AtOfferCheck True specs) (snd (SendFileOffer_commit E (fs_room spec) (fs_peer spec) (fs_path spec) fdsc st))"
| "worker_step E timed_out (AtOfferCheck ready specs) st =
     (let st1 = (if \<not> ready \<and> \<not> stopped st then set_state CLIENT_EXIT st else st) in
      if stopped st1 then Next (AtFinish False) st1 else Next (AtOffer specs) st1)"
| "worker_step E timed_out (AtFinish offered) st =
     (if \<not> offered \<or> stopped st then Next AtLoop st
      else Next AtLoop (if m_clientState st = CLIENT_WAIT_FOR_FILE_ACCEPT then st else set_state CLIENT_RUN st))"
| "worker_step E timed_out AtPing st = (case SendPing E st of (ok, st') \<Rightarrow> Next (AtPingCheck ok) st')"
| "worker_step E timed_out (AtPingCheck ok) st =
     Next AtLoop (if \<not> ok \<and> m_clientState st = CLIENT_WAIT_FOR_PONG then set_state CLIENT_EXIT st else st)"
| "worker_step E timed_out AtDone st = Blocked"

text \<open>A number of steps of the worker alone, without time-outs.\<close>

fun run_worker :: "env \<Rightarrow> nat \<Rightarrow> worker_pc \<Rightarrow> client \<Rightarrow> (worker_pc \<times> client) option" where
  "run_worker E 0 p st = Some (p, st)"
| "run_worker E (Suc n) p st = (case worker_step E False p st of Next p' st' \<Rightarrow> run_worker E n p' st' | _ \<Rightarrow> None)"

end
