(* ===== verification/Incoming_Facts.thy ===== *)
theory Incoming_Facts
  imports Incoming_Files
begin

text \<open>
  What the receiving side does with the files of one sender. \<open>recv_inv\<close> describes a receiver that has
  completed the files \<open>cs\<close>, is writing the file \<open>cur\<close> (its destination, what it has and what is to
  come) and has the files \<open>r\<close> queued; offers and chunks are shown to move it along. \<open>L\<close> are the locks
  held for other purposes, \<open>D\<close> the disk before: paths of other files keep what \<open>D\<close> says.
\<close>

type_synonym file_spec = "string \<times> bytes"

abbreviation path_of :: "env \<Rightarrow> file_spec \<Rightarrow> names" where
  "path_of E f \<equiv> resolve (cwd E) (fst f)"

definition cur_files :: "(string \<times> bytes \<times> bytes) option \<Rightarrow> file_spec list" where
  "cur_files cur = (case cur of None \<Rightarrow> [] | Some (d, a, t) \<Rightarrow> [(d, a @ t)])"

abbreviation queued :: "file_spec list \<Rightarrow> IncomingFile list" where
  "queued r \<equiv> map (\<lambda>f. new_incoming (int (length (snd f))) (fst f)) r"

definition completed :: "env \<Rightarrow> file_spec list \<Rightarrow> fsys \<Rightarrow> string set \<Rightarrow> bool" where
  "completed E cs fs received \<longleftrightarrow>
     (\<forall>f \<in> set cs. disk fs (path_of E f) = Some (snd f) \<and> normal_path E (fst f) \<in> received)"

definition room_for :: "env \<Rightarrow> (nat \<times> names \<times> lock_mode) list \<Rightarrow> file_spec list \<Rightarrow> bool" where
  "room_for E L fls \<longleftrightarrow> distinct (map (path_of E) fls) \<and>
     (\<forall>f \<in> set fls. openable E (path_of E f) \<and> (\<forall>x \<in> set L. fst (snd x) \<noteq> path_of E f))"

text \<open>A file system with only the locks \<open>L\<close>, changed from \<open>D\<close> at the paths of \<open>fls\<close> at most.\<close>

definition fs_frame :: "env \<Rightarrow> (names \<rightharpoonup> bytes) \<Rightarrow> file_spec list \<Rightarrow> fsys \<Rightarrow> bool" where
  "fs_frame E D fls fs \<longleftrightarrow> (\<forall>p. p \<notin> path_of E ` set fls \<longrightarrow> disk fs p = D p)"

definition idle_locks :: "(nat \<times> names \<times> lock_mode) list \<Rightarrow> fsys \<Rightarrow> bool" where
  "idle_locks L fs \<longleftrightarrow> flocks fs = L \<and> (\<forall>x \<in> set L. fst x < next_fd fs)"

definition held_lock :: "(nat \<times> names \<times> lock_mode) list \<Rightarrow> nat \<Rightarrow> names \<Rightarrow> fsys \<Rightarrow> bool" where
  "held_lock L fd p fs \<longleftrightarrow> flocks fs = (fd, p, Exclusive) # L \<and> (\<forall>x \<in> set L. fst x < fd) \<and> fd < next_fd fs"

text \<open>The state of the front of the queue, with the file system it refers to.\<close>

definition writing :: "env \<Rightarrow> (nat \<times> names \<times> lock_mode) list \<Rightarrow> (string \<times> bytes \<times> bytes) option \<Rightarrow>
    file_spec list \<Rightarrow> IncomingFile list \<Rightarrow> fsys \<Rightarrow> bool" where
  "writing E L cur r q fs \<longleftrightarrow> (case cur of None \<Rightarrow> q = [] \<and> r = [] \<and> idle_locks L fs
     | Some (d, a, t) \<Rightarrow> t \<noteq> [] \<and> disk fs (resolve (cwd E) d) = Some a \<and>
         (\<exists>fd. held_lock L fd (resolve (cwd E) d) fs \<and>
            q = \<lparr>lock = Some fd, stream = True, written = length a,
                 expectedSize = int (length a + length t), destination = d\<rparr> # queued r))"

lemma Acquire_free:
  assumes "idle_locks L fs" and "openable E p" and "\<forall>x \<in> set L. fst (snd x) \<noteq> p"
  shows "\<exists>fs1. Acquire (openable E) p Exclusive False None fs = Some (True, Some (next_fd fs), fs1) \<and>
    held_lock L (next_fd fs) p fs1 \<and> (\<forall>p'. p' \<noteq> p \<longrightarrow> disk fs1 p' = disk fs p')"
  using assms
  by (auto simp: Acquire_def Release_def Let_def lock_conflict_def held_lock_def idle_locks_def)

lemma held_lock_disk [simp]: "held_lock L fd p (fs\<lparr>disk := d\<rparr>) = held_lock L fd p fs"
  by (simp add: held_lock_def)

lemma Release_held:
  assumes "held_lock L fd p fs"
  shows "idle_locks L (snd (Release (Some fd) fs))" and "disk (snd (Release (Some fd) fs)) = disk fs"
  using assms by (auto simp: held_lock_def idle_locks_def Release_def filter_id_conv)

declare StartNextIncoming.simps(2) [simp del]

lemma completed_add:
  assumes "completed E cs fs received" and "disk fs (path_of E f) = Some (snd f)"
  shows "completed E (cs @ [f]) fs (insert (normal_path E (fst f)) received)"
  using assms by (simp add: completed_def)

lemma completed_elsewhere:
  assumes "completed E cs fs received"
    and "\<And>g. g \<in> set cs \<Longrightarrow> disk fs' (path_of E g) = disk fs (path_of E g)"
  shows "completed E cs fs' received"
  using assms by (simp add: completed_def)

lemma StartNextIncoming_inv:
  assumes "idle_locks L fs" and "completed E cs fs received" and "fs_frame E D (cs @ r) fs"
    and "room_for E L (cs @ r)"
  shows "\<exists>cs' cur r' q fs' received'.
    StartNextIncoming E (queued r) fs received = (q, fs', received') \<and>
    r = cs' @ cur_files cur @ r' \<and> (\<forall>f \<in> set cs'. snd f = []) \<and>
    (case cur of None \<Rightarrow> True | Some (d, a, t) \<Rightarrow> a = []) \<and>
    writing E L cur r' q fs' \<and> completed E (cs @ cs') fs' received' \<and> fs_frame E D (cs @ r) fs'"
  using assms
proof (induction r arbitrary: cs fs received)
  case Nil
  then show ?case
    by (intro exI [of _ "[]"] exI [of _ None]) (auto simp: cur_files_def writing_def)
next
  case (Cons f r)
  let ?p = "path_of E f"
  have free: "openable E ?p" "\<forall>x \<in> set L. fst (snd x) \<noteq> ?p"
    using Cons.prems(4) by (auto simp: room_for_def)
  obtain fs1 where a: "Acquire (openable E) ?p Exclusive False None fs = Some (True, Some (next_fd fs), fs1)"
      "held_lock L (next_fd fs) ?p fs1" "\<forall>p'. p' \<noteq> ?p \<longrightarrow> disk fs1 p' = disk fs p'"
    using Acquire_free [OF Cons.prems(1) free] by blast
  let ?fs2 = "fs1\<lparr>disk := (disk fs1)(?p \<mapsto> [])\<rparr>"
  have h2: "held_lock L (next_fd fs) ?p ?fs2" using a(2) by simp
  have new: "?p \<notin> path_of E ` set cs" using Cons.prems(4) by (auto simp: room_for_def)
  have c2: "completed E cs ?fs2 received"
    by (intro completed_elsewhere [OF Cons.prems(2)]) (use a(3) new in \<open>auto simp: image_iff\<close>)
  have f2: "fs_frame E D (cs @ f # r) ?fs2"
    using Cons.prems(3) a(3) by (auto simp: fs_frame_def)
  show ?case
  proof (cases "snd f = []")
    case True
    let ?fs3 = "snd (Release (Some (next_fd fs)) ?fs2)"
    note rel = Release_held [OF h2]
    have "completed E (cs @ [f]) ?fs3 (insert (normal_path E (fst f)) received)"
      using c2 True by (auto simp: completed_def rel(2))
    moreover have "fs_frame E D ((cs @ [f]) @ r) ?fs3" using f2 by (simp add: fs_frame_def rel(2))
    moreover have "room_for E L ((cs @ [f]) @ r)" using Cons.prems(4) by simp
    ultimately obtain cs' cur r' q fs' received' where IH:
      "StartNextIncoming E (queued r) ?fs3 (insert (normal_path E (fst f)) received) = (q, fs', received')"
      "r = cs' @ cur_files cur @ r'" "\<forall>f \<in> set cs'. snd f = []"
      "case cur of None \<Rightarrow> True | Some (d, a, t) \<Rightarrow> a = []"
      "writing E L cur r' q fs'" "completed E ((cs @ [f]) @ cs') fs' received'"
      "fs_frame E D ((cs @ [f]) @ r) fs'"
      using Cons.IH [OF rel(1)] by blast
    have "StartNextIncoming E (queued (f # r)) fs received = (q, fs', received')"
      using a(1) free(1) True IH(1) by (simp add: new_incoming_def Let_def StartNextIncoming.simps(2))
    moreover have "f # r = (f # cs') @ cur_files cur @ r'" using IH(2) by simp
    ultimately show ?thesis
      using IH True by (intro exI [of _ "f # cs'"] exI [of _ cur] exI [of _ r']) simp
  next
    case False
    let ?q = "\<lparr>lock = Some (next_fd fs), stream = True, written = 0,
      expectedSize = int (length (snd f)), destination = fst f\<rparr> # queued r"
    have "StartNextIncoming E (queued (f # r)) fs received = (?q, ?fs2, received)"
      using a(1) free(1) False by (simp add: new_incoming_def Let_def StartNextIncoming.simps(2))
    moreover have "writing E L (Some (fst f, [], snd f)) r ?q ?fs2"
      using False h2 by (auto simp: writing_def)
    ultimately show ?thesis
      using c2 f2
      by (intro exI [of _ "[]"] exI [of _ "Some (fst f, [], snd f)"] exI [of _ r]
          exI [of _ ?q] exI [of _ ?fs2] exI [of _ received]) (simp add: cur_files_def)
  qed
qed

section \<open>A receiver between events\<close>

definition recv_inv :: "env \<Rightarrow> peer_room_key \<Rightarrow> (nat \<times> names \<times> lock_mode) list \<Rightarrow> (names \<rightharpoonup> bytes) \<Rightarrow>
    file_spec list \<Rightarrow> (string \<times> bytes \<times> bytes) option \<Rightarrow> file_spec list \<Rightarrow> client \<Rightarrow> bool" where
  "recv_inv E k L D cs cur r st \<longleftrightarrow>
     writing E L cur r (case m_incomingFiles st k of None \<Rightarrow> [] | Some q \<Rightarrow> q) (files st) \<and>
     m_incomingFiles st k \<noteq> Some [] \<and>
     completed E cs (files st) (m_receivedPaths st) \<and> fs_frame E D (cs @ cur_files cur @ r) (files st)"

lemma recv_inv_None:
  "recv_inv E k L D cs None r st \<longleftrightarrow> m_incomingFiles st k = None \<and> r = [] \<and> idle_locks L (files st) \<and>
     completed E cs (files st) (m_receivedPaths st) \<and> fs_frame E D cs (files st)"
  by (cases "m_incomingFiles st k") (auto simp: recv_inv_def writing_def cur_files_def)

lemma start_next_inv:
  assumes "idle_locks L (files st)" and "completed E cs (files st) (m_receivedPaths st)"
    and "fs_frame E D (cs @ r) (files st)" and "room_for E L (cs @ r)"
  shows "\<exists>cs' cur r'. r = cs' @ cur_files cur @ r' \<and> (\<forall>f \<in> set cs'. snd f = []) \<and>
    (case cur of None \<Rightarrow> True | Some (d, a, t) \<Rightarrow> a = []) \<and>
    recv_inv E k L D (cs @ cs') cur r' (start_next E k (queued r) st)"
proof -
  obtain cs' cur r' q fs' received' where s:
    "StartNextIncoming E (queued r) (files st) (m_receivedPaths st) = (q, fs', received')"
    "r = cs' @ cur_files cur @ r'" "\<forall>f \<in> set cs'. snd f = []"
    "case cur of None \<Rightarrow> True | Some (d, a, t) \<Rightarrow> a = []"
    "writing E L cur r' q fs'" "completed E (cs @ cs') fs' received'" "fs_frame E D (cs @ r) fs'"
    using StartNextIncoming_inv [OF assms] by blast
  have "recv_inv E k L D (cs @ cs') cur r' (start_next E k (queued r) st)"
    using s(5-7) by (cases "q = []") (simp_all add: recv_inv_def start_next_def s(1) put_queue_def s(2) [symmetric])
  with s(2-4) show ?thesis by blast
qed

definition todo :: "nat \<Rightarrow> (string \<times> bytes \<times> bytes) option \<Rightarrow> file_spec list \<Rightarrow> bytes list" where
  "todo n cur r = (case cur of None \<Rightarrow> [] | Some (d, a, t) \<Rightarrow> blocks n t) @ concat (map (\<lambda>f. blocks n (snd f)) r)"

lemma todo_skip:
  assumes "r = cs' @ cur_files cur @ r'" and "\<forall>f \<in> set cs'. snd f = []"
    and "case cur of None \<Rightarrow> True | Some (d, a, t) \<Rightarrow> a = []"
  shows "todo n None r = todo n cur r'"
proof -
  have "concat (map (\<lambda>f. blocks n (snd f)) cs') = []" using assms(2) by (induction cs') auto
  with assms(1,3) show ?thesis
    by (auto simp: todo_def cur_files_def split: option.splits)
qed

text \<open>An offer queues its file; on an idle queue it also opens it (or completes it, if empty).\<close>

lemma enqueue_inv:
  assumes "recv_inv E k L D cs cur r st" and "room_for E L (cs @ cur_files cur @ r @ [f])"
  shows "\<exists>cs' cur' r'. cs @ cur_files cur @ r @ [f] = cs' @ cur_files cur' @ r' \<and>
    todo n cur (r @ [f]) = todo n cur' r' \<and>
    recv_inv E k L D cs' cur' r' (enqueue_incoming E k (new_incoming (int (length (snd f))) (fst f)) st)"
proof (cases cur)
  case None
  with assms(1) have i: "m_incomingFiles st k = None" "r = []" "idle_locks L (files st)"
      "completed E cs (files st) (m_receivedPaths st)" "fs_frame E D cs (files st)"
    by (simp_all add: recv_inv_None)
  have "fs_frame E D (cs @ [f]) (files st)" using i(5) by (simp add: fs_frame_def)
  moreover have "room_for E L (cs @ [f])" using assms(2) None i(2) by (simp add: cur_files_def)
  ultimately obtain cs' cur' r' where s: "[f] = cs' @ cur_files cur' @ r'" "\<forall>f \<in> set cs'. snd f = []"
      "case cur' of None \<Rightarrow> True | Some (d, a, t) \<Rightarrow> a = []"
      "recv_inv E k L D (cs @ cs') cur' r' (start_next E k (queued [f]) st)"
    using start_next_inv [OF i(3,4), of D "[f]" k] by blast
  have "enqueue_incoming E k (new_incoming (int (length (snd f))) (fst f)) st = start_next E k (queued [f]) st"
    using i(1) by (simp add: enqueue_incoming_def)
  moreover have "todo n cur (r @ [f]) = todo n cur' r'"
    using None i(2) todo_skip [OF s(1-3), of n] by simp
  ultimately show ?thesis
    using s(1,4) None i(2) by (intro exI [of _ "cs @ cs'"] exI [of _ cur'] exI [of _ r']) (simp add: cur_files_def)
next
  case (Some c)
  obtain d a t where c: "c = (d, a, t)" by (cases c)
  from assms(1) Some c obtain q0 q where q: "m_incomingFiles st k = Some (q0 # q)" "q = queued r"
    by (auto simp: recv_inv_def writing_def split: option.splits)
  have "recv_inv E k L D cs cur (r @ [f]) (put_queue k (q0 # q @ queued [f]) st)"
    using assms(1) Some c q
    by (auto simp: recv_inv_def writing_def put_queue_def cur_files_def fs_frame_def)
  moreover have "enqueue_incoming E k (new_incoming (int (length (snd f))) (fst f)) st =
      put_queue k (q0 # q @ queued [f]) st"
    using q by (simp add: enqueue_incoming_def)
  ultimately show ?thesis
    by (intro exI [of _ cs] exI [of _ cur] exI [of _ "r @ [f]"]) simp
qed

text \<open>A chunk is appended to the front file; the last one completes it and opens the next.\<close>

lemma write_at_end [simp]: "write_at (length a) bs a = a @ bs"
  by (simp add: write_at_def)

lemma chunk_inv:
  assumes "recv_inv E (peer, room) L D cs (Some (d, a, t)) r st" and "write_ok E" and "0 < n"
    and "room_for E L (cs @ (d, a @ t) # r)"
  shows "\<exists>cs' cur' r'. cs @ (d, a @ t) # r = cs' @ cur_files cur' @ r' \<and>
    todo n (Some (d, a, t)) r = take n t # todo n cur' r' \<and>
    recv_inv E (peer, room) L D cs' cur' r' (OnIncomingChunk E peer room (take n t) st)"
proof -
  let ?p = "resolve (cwd E) d" and ?b = "take n t"
  from assms(1) obtain fd where t: "t \<noteq> []" and disk: "disk (files st) ?p = Some a"
      and h: "held_lock L fd ?p (files st)"
      and q: "m_incomingFiles st (peer, room) = Some (\<lparr>lock = Some fd, stream = True, written = length a,
        expectedSize = int (length a + length t), destination = d\<rparr> # queued r)"
      and c: "completed E cs (files st) (m_receivedPaths st)"
      and f: "fs_frame E D (cs @ (d, a @ t) # r) (files st)"
    by (auto simp: recv_inv_def writing_def cur_files_def split: option.splits)
  have bl: "todo n (Some (d, a, t)) r = ?b # todo n (if drop n t = [] then None else Some (d, a @ ?b, drop n t)) r"
    using t assms(3) by (auto simp: todo_def blocks.simps [of n t])
  have new: "path_of E g \<noteq> ?p" if "g \<in> set cs" for g
  proof -
    from assms(4) have "?p \<notin> path_of E ` set cs" by (simp add: room_for_def)
    with that show ?thesis by (metis image_eqI)
  qed
  let ?fs = "(files st)\<lparr>disk := (disk (files st))(?p \<mapsto> a @ ?b)\<rparr>"
  have hb: "held_lock L fd ?p ?fs" using h by simp
  have cb: "completed E cs ?fs (m_receivedPaths st)"
    by (rule completed_elsewhere [OF c]) (use new in simp)
  have fb: "fs_frame E D (cs @ (d, a @ t) # r) ?fs" using f by (auto simp: fs_frame_def)
  show ?thesis
  proof (cases "drop n t = []")
    case False
    then have lt: "length ?b < length t" by simp
    have "OnIncomingChunk E peer room ?b st = put_queue (peer, room)
        (\<lparr>lock = Some fd, stream = True, written = length a + length ?b,
          expectedSize = int (length a + length t), destination = d\<rparr> # queued r) (st\<lparr>files := ?fs\<rparr>)"
      using q disk assms(2) lt by (simp add: OnIncomingChunk_def Let_def)
    moreover have "length a + length t = length (a @ ?b) + length (drop n t)" by simp
    ultimately have "recv_inv E (peer, room) L D cs (Some (d, a @ ?b, drop n t)) r (OnIncomingChunk E peer room ?b st)"
      using False hb cb fb by (auto simp: recv_inv_def writing_def put_queue_def cur_files_def)
    with False bl show ?thesis
      by (intro exI [of _ cs] exI [of _ "Some (d, a @ ?b, drop n t)"] exI [of _ r]) (simp add: cur_files_def)
  next
    case True
    then have bt: "?b = t" by simp
    let ?st1 = "st\<lparr>files := snd (Release (Some fd) ?fs), m_receivedPaths := insert (normal_path E d) (m_receivedPaths st)\<rparr>"
    note rel = Release_held [OF hb]
    have step: "OnIncomingChunk E peer room ?b st =
        (start_next E (peer, room) (queued r) ?st1)\<lparr>m_clientState := CLIENT_RUN\<rparr>"
      using q disk assms(2) bt by (simp add: OnIncomingChunk_def Let_def)
    have "completed E (cs @ [(d, a @ t)]) (files ?st1) (m_receivedPaths ?st1)"
    proof -
      have d: "disk (snd (Release (Some fd) ?fs)) = disk ?fs" by (rule rel(2))
      have "completed E (cs @ [(d, a @ t)]) (snd (Release (Some fd) ?fs)) (insert (normal_path E (fst (d, a @ t))) (m_receivedPaths st))"
        by (intro completed_add completed_elsewhere [OF cb]) (simp_all only: d, simp add: bt)
      then show ?thesis by simp
    qed
    moreover have "fs_frame E D ((cs @ [(d, a @ t)]) @ r) (files ?st1)" using fb by (simp add: fs_frame_def rel(2))
    moreover have "idle_locks L (files ?st1)" using rel(1) by simp
    moreover have "room_for E L ((cs @ [(d, a @ t)]) @ r)" using assms(4) by simp
    ultimately obtain cs' cur' r' where s: "r = cs' @ cur_files cur' @ r'" "\<forall>f \<in> set cs'. snd f = []"
        "case cur' of None \<Rightarrow> True | Some (d, a, t) \<Rightarrow> a = []"
        "recv_inv E (peer, room) L D ((cs @ [(d, a @ t)]) @ cs') cur' r' (start_next E (peer, room) (queued r) ?st1)"
      using start_next_inv [of L ?st1 E "cs @ [(d, a @ t)]" D r "(peer, room)"] by blast
    have "recv_inv E (peer, room) L D ((cs @ [(d, a @ t)]) @ cs') cur' r' (OnIncomingChunk E peer room ?b st)"
      using s(4) unfolding step by (simp add: recv_inv_def)
    moreover have "todo n (Some (d, a, t)) r = ?b # todo n cur' r'"
      using bl True todo_skip [OF s(1-3), of n] by simp
    ultimately show ?thesis
      using s(1) by (intro exI [of _ "(cs @ [(d, a @ t)]) @ cs'"] exI [of _ cur'] exI [of _ r']) simp
  qed
qed

end
