(* ===== verification/File_Transfer.thy ===== *)
theory File_Transfer
  imports Incoming_Facts
begin

text \<open>
  A transfer from end to end: the worker thread a data channel starts when it opens (the lambda of
  \<open>MakeDataChannel\<close>), the events a receiver sees, and the theorem that what is offered and sent is what
  is on the receiver's disk. What libdatachannel answers while a file is sent is a \<open>channel_oracle\<close>.
\<close>

section \<open>The sending thread\<close>

datatype send_answer = Sent_now | Send_buffered | Send_throws

record channel_oracle =
  allocates :: bool \<comment> \<open>there is memory for the buffer\<close>
  buffer_full :: "nat \<Rightarrow> bool" \<comment> \<open>\<open>bufferedAmount() > maxMessageSize\<close> before block \<open>i\<close>\<close>
  capacity :: "nat \<Rightarrow> bool" \<comment> \<open>\<open>waitForCapacity()\<close> there\<close>
  send_result :: "nat \<Rightarrow> send_answer" \<comment> \<open>\<open>send\<close> of block \<open>i\<close>: \<open>true\<close>, \<open>false\<close> (it is buffered) or an exception\<close>
  still_open :: "nat \<Rightarrow> bool" \<comment> \<open>\<open>waitForCapacity()\<close> after it did\<close>
  read_error :: bool \<comment> \<open>\<open>file.bad()\<close> at the end\<close>
  open_at_end :: bool \<comment> \<open>\<open>channel->isOpen()\<close> at the end\<close>

datatype sent_blocks = All_sent | Cut_off | Thrown

fun send_blocks :: "channel_oracle \<Rightarrow> nat \<Rightarrow> bytes list \<Rightarrow> bytes list \<Rightarrow> sent_blocks \<times> bytes list" where
  "send_blocks w i [] out = (All_sent, out)"
| "send_blocks w i (b # bs) out =
     (if buffer_full w i \<and> \<not> capacity w i then (Cut_off, out)
      else case send_result w i of
        Sent_now \<Rightarrow> send_blocks w (i + 1) bs (out @ [b])
      | Send_buffered \<Rightarrow> if still_open w i then send_blocks w (i + 1) bs (out @ [b]) else (Cut_off, out @ [b])
      | Send_throws \<Rightarrow> (Thrown, out))"

text \<open>\<open>std::vector<std::byte>::max_size()\<close> of libstdc++; a longer buffer is a \<open>length_error\<close>.\<close>

definition max_buffer :: nat where
  "max_buffer = 2 ^ 63 - 1"

text \<open>
  How the thread fares with one file: \<open>Stuck\<close> when it waits for the lock or never leaves the read loop,
  \<open>Terminates\<close> when an exception leaves its function, which ends the program (\<open>std::terminate\<close>).
\<close>

datatype 'a thread_run = Returned 'a | Stuck | Terminates

text \<open>One file of the queue: whether the thread goes on, the blocks handed to the channel, and the new state.\<close>

definition send_file :: "env \<Rightarrow> channel_oracle \<Rightarrow> nat \<Rightarrow> string \<Rightarrow> string \<Rightarrow> string \<Rightarrow> client \<Rightarrow>
    (bool \<times> bytes list \<times> client) thread_run" where
  "send_file E w n peer room filePath st =
     (case LockedIfstream_open (openable E) (resolve (cwd E) filePath) (files st) of
        None \<Rightarrow> Stuck
      | Some (content, fd, fs) \<Rightarrow>
          let closed = (\<lambda>s. s\<lparr>files := LockedIfstream_close fd (files s)\<rparr>);
              st1 = st\<lparr>files := fs\<rparr>
          in (case content of
                None \<Rightarrow> Returned (True, [], closed st1)
              | Some c \<Rightarrow>
                  if max_buffer < n \<or> 0 < n \<and> \<not> allocates w then Terminates
                  else case read_blocks n c [] of
                      None \<Rightarrow> Stuck
                    | Some bs \<Rightarrow> (case send_blocks w 0 bs [] of
                        (Thrown, out) \<Rightarrow> Terminates
                      | (Cut_off, out) \<Rightarrow> Returned (False, out, closed st1)
                      | (All_sent, out) \<Rightarrow> Returned (True, out, closed (if \<not> read_error w \<and> open_at_end w
                          then SendFileComplete E room peer st1 else st1)))))"

text \<open>
  The loop of the thread over the channel's queue; each round has its environment, its oracle and
  \<open>isOpen\<close> before and after the wait for an item.
\<close>

fun transfer_worker :: "nat \<Rightarrow> string \<Rightarrow> string \<Rightarrow> nat \<Rightarrow> (env \<times> channel_oracle \<times> bool \<times> bool) list \<Rightarrow> client \<Rightarrow>
    (bytes list \<times> client) thread_run" where
  "transfer_worker n peer room q [] st = Returned ([], st)"
| "transfer_worker n peer room q ((E, w, open1, open2) # rounds) st =
     (if \<not> open1 then Returned ([], st)
      else (case GetItem (queues st q) of
          None \<Rightarrow> Returned ([], st)
        | Some (filePath, q') \<Rightarrow>
            let st1 = st\<lparr>queues := (queues st)(q := q')\<rparr> in
            if \<not> open2 then Returned ([], st1)
            else if filePath = [] then transfer_worker n peer room q rounds st1
            else (case send_file E w n peer room filePath st1 of
              Stuck \<Rightarrow> Stuck
            | Terminates \<Rightarrow> Terminates
            | Returned (go_on, out, st2) \<Rightarrow>
                if go_on
                then map_thread_run (\<lambda>(more, t). (out @ more, t)) (transfer_worker n peer room q rounds st2)
                else Returned (out, st2))))"

lemma send_blocks_prefix: "\<exists>k. snd (send_blocks w i bs out) = out @ take k bs"
proof (induction bs arbitrary: i out)
  case Nil
  then show ?case by simp
next
  case (Cons b bs)
  obtain k where k: "snd (send_blocks w (i + 1) bs (out @ [b])) = (out @ [b]) @ take k bs"
    using Cons.IH by blast
  have "snd (send_blocks w i (b # bs) out) \<in> {out, out @ [b], snd (send_blocks w (i + 1) bs (out @ [b]))}"
    by (auto split: send_answer.split)
  with k have "snd (send_blocks w i (b # bs) out) \<in> (\<lambda>j. out @ take j (b # bs)) ` {0, 1, Suc k}" by auto
  then show ?case by blast
qed

lemma send_blocks_all: "fst (send_blocks w i bs out) = All_sent \<Longrightarrow> snd (send_blocks w i bs out) = out @ bs"
  by (induction bs arbitrary: i out) (auto split: if_splits send_answer.splits)

lemma send_blocks_thrown: "fst (send_blocks w i bs out) = Thrown \<Longrightarrow> \<exists>j. send_result w j = Send_throws"
  by (induction bs arbitrary: i out) (auto split: if_splits send_answer.splits)

section \<open>The events of a receiver\<close>

text \<open>An offer, with the contents its sender has in mind, or a chunk.\<close>

type_synonym event = "(doc \<times> bytes) + bytes"

definition transfer_step :: "env \<Rightarrow> string \<Rightarrow> string \<Rightarrow> event \<Rightarrow> client \<Rightarrow> client option" where
  "transfer_step E peer room ev st = (case ev of
     Inl (doc, content) \<Rightarrow> OnFileOffer E doc st
   | Inr chunk \<Rightarrow> Some (OnIncomingChunk E peer room chunk st))"

definition offered_file :: "string \<Rightarrow> doc \<times> bytes \<Rightarrow> file_spec" where
  "offered_file dir oc = (case file_offer_fields (fst oc) of None \<Rightarrow> ([], snd oc)
     | Some (peer, room, f, name, len) \<Rightarrow> (the (destination_path dir name), snd oc))"

definition offer_ok :: "env \<Rightarrow> string \<Rightarrow> string \<Rightarrow> string \<Rightarrow> doc \<times> bytes \<Rightarrow> bool" where
  "offer_ok E dir peer room oc \<longleftrightarrow> (\<exists>f name dest.
     file_offer_fields (fst oc) = Some (peer, room, f, name, int (length (snd oc))) \<and>
     map_of (fst oc) ''type'' \<noteq> None \<and> destination_path dir name = Some dest \<and>
     (parent_path dest = [] \<or> dirs_ok E (parent_path dest)))"

fun offers :: "event list \<Rightarrow> (doc \<times> bytes) list" where
  "offers [] = []"
| "offers (Inl oc # evs) = oc # offers evs"
| "offers (Inr b # evs) = offers evs"

text \<open>
  The sender starts a file only after its offer, keeps the order of the offers, and the channel
  neither loses nor reorders: each chunk is the next of the blocks still owed, and none is owed at
  the end.
\<close>

fun feasible :: "nat \<Rightarrow> event list \<Rightarrow> bytes list \<Rightarrow> bool" where
  "feasible n [] owed \<longleftrightarrow> owed = []"
| "feasible n (Inl oc # evs) owed \<longleftrightarrow> feasible n evs (owed @ blocks n (snd oc))"
| "feasible n (Inr b # evs) owed \<longleftrightarrow> owed \<noteq> [] \<and> b = hd owed \<and> feasible n evs (tl owed)"

section \<open>What the operations leave alone\<close>

lemma m_properties_frame [simp, frame_simps]:
  "m_properties (snd (SendMessage E msg st)) = m_properties st"
  "m_properties (start_next E k q st) = m_properties st"
  "m_properties (put_queue k q st) = m_properties st"
  "m_properties (enqueue_incoming E k f st) = m_properties st"
  by (simp_all add: SendMessage_def start_next_def put_queue_def enqueue_incoming_def Let_def
      split: prod.splits)

lemma m_properties_chunk [simp, frame_simps]:
  "m_properties (OnIncomingChunk E peer room b st) = m_properties st"
  by (auto simp: OnIncomingChunk_def Let_def split: option.splits list.splits)

lemma optional_setting_cong:
  "m_properties t = m_properties st \<Longrightarrow> optional_setting t k = optional_setting st k"
  unfolding optional_setting_def setting_def by simp

lemma recv_inv_SendMessage [simp]:
  "recv_inv E k L D cs cur r (snd (SendMessage E' msg st)) = recv_inv E k L D cs cur r st"
  by (simp add: recv_inv_def SendMessage_def)

lemma SendFileAccept_inv:
  assumes "string_at doc ''peer'' = Some peer" and "map_of doc ''type'' \<noteq> None"
  shows "\<exists>msg. SendFileAccept E doc st = Some (snd (SendMessage E msg st))"
  using assms by (auto simp: SendFileAccept_def retype_def)

lemma file_offer_fields_peer: "file_offer_fields doc = Some (peer, room, f, name, len) \<Longrightarrow> string_at doc ''peer'' = Some peer"
  by (auto simp: file_offer_fields_def bind_eq_Some_conv)

lemma todo_cur_Nil: "todo n None r = concat (map (\<lambda>f. blocks n (snd f)) r)"
  by (simp add: todo_def)

lemma todo_snoc: "todo n cur (r @ [f]) = todo n cur r @ blocks n (snd f)"
  by (simp add: todo_def)

lemma OnFileOffer_inv:
  assumes "recv_inv E (peer, room) L D cs cur r st" and "offer_ok E dir peer room oc"
    and "optional_setting st ''directory'' = Some dir"
    and "room_for E L (cs @ cur_files cur @ r @ [offered_file dir oc])"
    and "D (path_of E (offered_file dir oc)) = None"
  shows "\<exists>t cs' cur' r'. OnFileOffer E (fst oc) st = Some t \<and> m_properties t = m_properties st \<and>
    cs @ cur_files cur @ r @ [offered_file dir oc] = cs' @ cur_files cur' @ r' \<and>
    todo n cur r @ blocks n (snd oc) = todo n cur' r' \<and> recv_inv E (peer, room) L D cs' cur' r' t"
proof -
  obtain f name dest where o: "file_offer_fields (fst oc) = Some (peer, room, f, name, int (length (snd oc)))"
      "map_of (fst oc) ''type'' \<noteq> None" "destination_path dir name = Some dest"
      "parent_path dest = [] \<or> dirs_ok E (parent_path dest)"
    using assms(2) by (auto simp: offer_ok_def)
  have off: "offered_file dir oc = (dest, snd oc)" using o by (simp add: offered_file_def)
  have "resolve (cwd E) dest \<notin> path_of E ` set (cs @ cur_files cur @ r)"
    using assms(4) by (simp add: off room_for_def image_Un)
  then have "disk (files st) (resolve (cwd E) dest) = None"
    using assms(1,5) by (auto simp: recv_inv_def fs_frame_def off)
  then have np: "\<not> already_present E f dest st"
    by (simp add: already_present_def file_bytes_def get_crc_def Let_def split: option.splits)
  obtain msg where a: "SendFileAccept E (fst oc) st' = Some (snd (SendMessage E msg st'))" for st'
    using o(2) by (auto simp: SendFileAccept_def retype_def file_offer_fields_peer [OF o(1)])
  let ?st1 = "enqueue_incoming E (peer, room) (new_incoming (int (length (snd oc))) dest) st"
  have "OnFileOffer E (fst oc) st = Some (snd (SendMessage E msg ?st1))"
    using o np assms(3) by (auto simp: OnFileOffer_def a)
  moreover obtain cs' cur' r' where "cs @ cur_files cur @ r @ [(dest, snd oc)] = cs' @ cur_files cur' @ r'"
      "todo n cur (r @ [(dest, snd oc)]) = todo n cur' r'" "recv_inv E (peer, room) L D cs' cur' r' ?st1"
    using enqueue_inv [OF assms(1) assms(4) [unfolded off], of n] by auto
  ultimately show ?thesis
    by (intro exI [of _ "snd (SendMessage E msg ?st1)"] exI [of _ cs'] exI [of _ cur'] exI [of _ r'])
      (simp add: off todo_snoc)
qed

lemma cur_files_Some: "cur_files (Some (d, a, t)) = [(d, a @ t)]"
  by (simp add: cur_files_def)

lemma room_for_prefix: "room_for E L (xs @ ys) \<Longrightarrow> room_for E L xs"
  by (simp add: room_for_def)

lemma run_events:
  assumes "feasible n evs (todo n cur r)" and "recv_inv E (peer, room) L D cs cur r st"
    and "0 < n" and "write_ok E" and "optional_setting st ''directory'' = Some dir"
    and "\<forall>oc \<in> set (offers evs). offer_ok E dir peer room oc \<and> D (path_of E (offered_file dir oc)) = None"
    and "room_for E L (cs @ cur_files cur @ r @ map (offered_file dir) (offers evs))"
  shows "\<exists>t. each (transfer_step E peer room) evs st = Some t \<and>
    recv_inv E (peer, room) L D (cs @ cur_files cur @ r @ map (offered_file dir) (offers evs)) None [] t"
  using assms
proof (induction n evs "todo n cur r" arbitrary: cs cur r st rule: feasible.induct)
  case (1 n)
  show ?case
  proof (cases cur)
    case None
    with 1 show ?thesis by (auto simp: recv_inv_None cur_files_def)
  next
    case (Some c)
    obtain d a t where "c = (d, a, t)" by (cases c)
    with Some 1 have "t \<noteq> []" by (auto simp: recv_inv_def writing_def)
    with 1 Some \<open>c = (d, a, t)\<close> show ?thesis by (auto simp: todo_def blocks.simps [of n t])
  qed
next
  case (2 n oc evs)
  have "room_for E L ((cs @ cur_files cur @ r @ [offered_file dir oc]) @ map (offered_file dir) (offers evs))"
    using 2(8) by simp
  from room_for_prefix [OF this] obtain t cs' cur' r' where t: "OnFileOffer E (fst oc) st = Some t"
      "m_properties t = m_properties st"
      "cs @ cur_files cur @ r @ [offered_file dir oc] = cs' @ cur_files cur' @ r'"
      "todo n cur r @ blocks n (snd oc) = todo n cur' r'" "recv_inv E (peer, room) L D cs' cur' r' t"
    using OnFileOffer_inv [OF 2(3) _ 2(6), of oc n] 2(7) by auto
  have eq: "cs' @ cur_files cur' @ r' @ map (offered_file dir) (offers evs) =
      cs @ cur_files cur @ r @ map (offered_file dir) (offers (Inl oc # evs))"
    using arg_cong [OF t(3), of "\<lambda>x. x @ map (offered_file dir) (offers evs)"] by simp
  have "optional_setting t ''directory'' = Some dir"
    using 2(6) optional_setting_cong [OF t(2)] by simp
  then show ?case
    using 2(1) [OF t(4) _ t(5) 2(4,5)] 2(2,7,8) t(1,4) eq by (auto simp: transfer_step_def case_prod_unfold)
next
  case (3 n b evs)
  have ne: "todo n cur r \<noteq> []" and b: "b = hd (todo n cur r)" and fe: "feasible n evs (tl (todo n cur r))"
    using 3(2) by auto
  have "cur \<noteq> None"
  proof
    assume "cur = None"
    with 3(3) have "r = []" by (simp add: recv_inv_None)
    with ne \<open>cur = None\<close> show False by (simp add: todo_def)
  qed
  then obtain d a t where cur: "cur = Some (d, a, t)" by auto
  have "room_for E L (cs @ (d, a @ t) # r)"
    using 3(8) cur room_for_prefix [of E L "cs @ (d, a @ t) # r" "map (offered_file dir) (offers evs)"]
    by (simp add: cur_files_Some)
  from chunk_inv [OF 3(3) [unfolded cur] 3(5,4) this] obtain cs' cur' r' where s:
      "cs @ (d, a @ t) # r = cs' @ cur_files cur' @ r'" "todo n (Some (d, a, t)) r = take n t # todo n cur' r'"
      "recv_inv E (peer, room) L D cs' cur' r' (OnIncomingChunk E peer room (take n t) st)"
    by blast
  have bt: "b = take n t" "tl (todo n cur r) = todo n cur' r'" using b s(2) cur by simp_all
  have eq: "cs' @ cur_files cur' @ r' @ map (offered_file dir) (offers evs) =
      cs @ cur_files cur @ r @ map (offered_file dir) (offers (Inr b # evs))"
    using arg_cong [OF s(1), of "\<lambda>x. x @ map (offered_file dir) (offers evs)"] by (simp add: cur cur_files_Some)
  have "optional_setting (OnIncomingChunk E peer room (take n t) st) ''directory'' = Some dir"
    using 3(6) optional_setting_cong [OF m_properties_chunk] by metis
  then show ?case
    using 3(1) [OF bt(2) _ s(3) 3(4,5)] fe bt 3(7,8) eq by (auto simp: transfer_step_def)
qed

section \<open>Properties\<close>


definition demo_env :: env where
  "demo_env = \<lparr>cwd = ''/w'', sends = (\<lambda>m. True), enc = hex_enc, dec = hex_dec, json_writer = (\<lambda>v. ''m''),
     magic = \<lparr>magic_open = True, magic_load = True, magic_buffer = (\<lambda>b. Some ''text/plain'')\<rparr>, random_bytes = replicate 16 0, openable = (\<lambda>p. True),
     dirs_ok = (\<lambda>p. True), write_ok = True, partial = 0, creates_channel = (\<lambda>p. None),
     gathering = (\<lambda>p. [])\<rparr>"

definition demo_client :: client where
  "demo_client = client_init [''directory'' \<mapsto> VString ''in'', ''name'' \<mapsto> VString ''me'']"

definition demo_offer :: "string \<Rightarrow> bytes \<Rightarrow> doc \<times> bytes" where
  "demo_offer name content = ([(''type'', JStr ''file_offer''), (''peer'', JStr ''bob''), (''room'', JStr ''r''),
     (''file'', JObj [(''name'', JStr name), (''size'', JInt (int (length content))), (''mimeType'', JStr ''t'')])], content)"

definition demo_events :: "event list" where
  "demo_events = [Inl (demo_offer ''a'' ''abc''), Inr ''ab'', Inl (demo_offer ''b'' []),
     Inl (demo_offer ''c/d'' ''x''), Inr ''c'', Inr ''x'']"

lemmas demo_transfer_defs = file_offer_fields_def string_at_def object_at_def int64_at_def get_string_def c_str_def
  destination_path_def base_directory_def relative_path_def lexically_normal_def is_absolute_def path_names_def
  normal_names_def push_name_def path_append_def Let_def


text \<open>
  The sending thread never invents, skips or reorders data: the blocks it hands to the channel
  are the first blocks of the file in order; when it goes on to its next file or announces
  completion, they are all of them and together the whole file; the lock on the file is given back
  and no file is changed. A file that cannot be opened is skipped without a word to the receiver.
\<close>

theorem send_file_blocks:
  assumes "0 < n" and "fsys_inv (files st)" and "send_file E w n peer room filePath st = Returned (go_on, out, t)"
  shows "(case file_bytes E filePath st of
      None \<Rightarrow> go_on \<and> out = [] \<and> sent t = sent st
    | Some c \<Rightarrow> (\<exists>k. out = take k (blocks n c)) \<and> (\<not> go_on \<or> concat out = c) \<and>
        (sent t = sent st \<or> go_on)) \<and>
    flocks (files t) = flocks (files st) \<and> disk (files t) = disk (files st)"
proof -
  let ?p = "resolve (cwd E) filePath"
  have fresh: "filter (\<lambda>x. fst x \<noteq> next_fd (files st)) (flocks (files st)) = flocks (files st)"
    using assms(2) by (auto simp: fsys_inv_def filter_id_conv)
  show ?thesis
  proof (cases "openable E ?p \<and> disk (files st) ?p \<noteq> None")
    case False
    then show ?thesis
      using assms(3)
      by (auto simp: send_file_def LockedIfstream_open_def LockedIfstream_close_def Acquire_def Release_def
          file_bytes_def Let_def split: option.splits if_splits)
  next
    case True
    then obtain c where c: "disk (files st) ?p = Some c" by auto
    let ?fs = "files st\<lparr>next_fd := next_fd (files st) + 1, flocks := (next_fd (files st), ?p, Shared) # flocks (files st)\<rparr>"
    have o: "LockedIfstream_open (openable E) ?p (files st) = Some (Some c, Some (next_fd (files st)), ?fs)"
      using assms(3) True c
      by (auto simp: send_file_def LockedIfstream_open_def Acquire_def Release_def Let_def bind_eq_Some_conv
          split: option.splits if_splits)
    have cl: "flocks (LockedIfstream_close (Some (next_fd (files st))) ?fs) = flocks (files st)"
        "disk (LockedIfstream_close (Some (next_fd (files st))) ?fs) = disk (files st)"
      using fresh by (simp_all add: LockedIfstream_close_def Release_def)
    obtain k where k: "snd (send_blocks w 0 (blocks n c) []) = take k (blocks n c)"
      using send_blocks_prefix [of w 0 "blocks n c" "[]"] by auto
    have all: "fst (send_blocks w 0 (blocks n c) []) = All_sent \<Longrightarrow> concat (snd (send_blocks w 0 (blocks n c) [])) = c"
      using send_blocks_all [of w 0 "blocks n c" "[]"] concat_blocks [OF assms(1)] by simp
    have "file_bytes E filePath st = Some c" using True c by (simp add: file_bytes_def Let_def)
    moreover obtain b o0 where sb: "send_blocks w 0 (blocks n c) [] = (b, o0)"
      by (cases "send_blocks w 0 (blocks n c) []") auto
    moreover have fr: "files (SendFileComplete E room peer s) = files s" for s
      by (simp add: SendFileComplete_def SendMessage_def)
    have "go_on = (b = All_sent) \<and> out = o0 \<and> files t = LockedIfstream_close (Some (next_fd (files st))) ?fs \<and>
        (sent t = sent st \<or> b = All_sent)"
      using assms(3) by (cases b) (auto simp: send_file_def o read_blocks_eq [OF assms(1)] sb Let_def fr split: if_splits)
    moreover have "\<exists>k. o0 = take k (blocks n c)" using k sb by auto
    moreover have "b \<noteq> All_sent \<or> concat o0 = c" using all sb by auto
    ultimately show ?thesis using cl by simp
  qed
qed

text \<open>
  The sending thread comes back from every file: for any positive block size for which there is a buffer,
  and as long as the channel's \<open>send\<close> does not throw, it is kept from it only by the wait for the lock on
  the file, that is, by somebody who holds that file exclusively.
\<close>

lemma LockedIfstream_waits:
  "LockedIfstream_open (openable E) (resolve (cwd E) path) (files st) = None \<longleftrightarrow>
     file_bytes E path st \<noteq> None \<and> lock_conflict (resolve (cwd E) path) Shared (files st)"
  by (auto simp: LockedIfstream_open_def Acquire_def Release_def file_bytes_def lock_conflict_def Let_def
      split: option.splits if_splits)

lemma LockedIfstream_reads:
  "LockedIfstream_open (openable E) (resolve (cwd E) path) (files st) = Some (content, fd, fs) \<Longrightarrow> content = file_bytes E path st"
  by (auto simp: LockedIfstream_open_def Acquire_def Release_def file_bytes_def Let_def split: option.splits if_splits)

theorem send_file_returns:
  assumes "0 < n" and "n \<le> max_buffer" and "allocates w" and "\<forall>i. send_result w i \<noteq> Send_throws"
  shows "(\<exists>r. send_file E w n peer room filePath st = Returned r) \<longleftrightarrow>
    \<not> (file_bytes E filePath st \<noteq> None \<and> lock_conflict (resolve (cwd E) filePath) Shared (files st))"
proof (cases "LockedIfstream_open (openable E) (resolve (cwd E) filePath) (files st)")
  case None
  with LockedIfstream_waits [of E filePath st] show ?thesis by (auto simp: send_file_def)
next
  case (Some x)
  obtain ct fd fs where x: "x = (ct, fd, fs)" by (cases x)
  have "\<exists>r. send_file E w n peer room filePath st = Returned r"
  proof (cases ct)
    case None
    then have "send_file E w n peer room filePath st = Returned (True, [], st\<lparr>files := LockedIfstream_close fd fs\<rparr>)"
      by (simp add: send_file_def Some x Let_def)
    then show ?thesis ..
  next
    case (Some c)
    obtain e out where e: "send_blocks w 0 (blocks n c) [] = (e, out)" by (cases "send_blocks w 0 (blocks n c) []")
    then have "e \<noteq> Thrown" using send_blocks_thrown [of w 0 "blocks n c" "[]"] assms(4) by auto
    then show ?thesis
      using assms(2,3) \<open>LockedIfstream_open _ _ _ = Some x\<close>
      by (cases e) (auto simp: send_file_def read_blocks_eq [OF assms(1)] Let_def Some x e)
  qed
  with Some LockedIfstream_waits [of E filePath st] show ?thesis by auto
qed

definition calm :: channel_oracle where
  "calm = \<lparr>allocates = True, buffer_full = (\<lambda>i. i = 1), capacity = (\<lambda>i. True), send_result = (\<lambda>i. Sent_now), still_open = (\<lambda>i. True),
     read_error = False, open_at_end = True\<rparr>"

definition demo_sender :: client where
  "demo_sender = demo_client\<lparr>files := fsys_init\<lparr>disk := [[''w'', ''f''] \<mapsto> ''hello'']\<rparr>\<rparr>"

theorem send_file_blocks_witness:
  "\<exists>t. send_file demo_env calm 2 ''bob'' ''r'' ''f'' demo_sender = Returned (True, [''he'', ''ll'', ''o''], t) \<and>
     flocks (files t) = []"
proof -
  have "\<exists>t. send_file demo_env calm 2 ''bob'' ''r'' ''f'' demo_sender = Returned (True, [''he'', ''ll'', ''o''], t)"
    by (simp add: send_file_def demo_env_def demo_sender_def calm_def LockedIfstream_open_def Acquire_def Release_def
        resolve_def max_buffer_def demo_transfer_defs fsys_init_def lock_conflict_def read_blocks_eq blocks.simps)
  then obtain t where t: "send_file demo_env calm 2 ''bob'' ''r'' ''f'' demo_sender = Returned (True, [''he'', ''ll'', ''o''], t)" ..
  from send_file_blocks [OF _ _ t] have "flocks (files t) = flocks (files demo_sender)"
    by (simp add: demo_sender_def fsys_inv_def fsys_init_def)
  with t show ?thesis by (simp add: demo_sender_def fsys_init_def)
qed

theorem send_file_returns_witness: "\<exists>r. send_file demo_env calm 2 ''bob'' ''r'' ''f'' demo_sender = Returned r"
  using send_file_returns [of 2 calm demo_env "''bob''" "''r''" "''f''" demo_sender]
  by (simp add: demo_sender_def fsys_init_def lock_conflict_def calm_def max_buffer_def)

section \<open>The size of a message\<close>

lemma message_size_exact: "0 \<le> m \<Longrightarrow> m < 2 ^ 31 \<Longrightarrow> int (message_size m) = m \<and> message_size m \<le> max_buffer"
  by (simp add: message_size_def max_buffer_def)

lemma message_size_negative:
  assumes "- (2 ^ 31) \<le> m" and "m < 0"
  shows "max_buffer < message_size m"
proof -
  have "m mod 2 ^ 64 = 2 ^ 64 + m" using assms mod_pos_pos_trivial [of "2 ^ 64 + m" "2 ^ 64"] by simp
  then show ?thesis using assms(1) by (simp add: message_size_def max_buffer_def zless_nat_eq_int_zless)
qed

lemma send_file_block_sizes:
  assumes "0 < n" and "file_bytes E path st = Some c" and "send_file E w n peer room path st = Returned (go_on, out, t)"
  shows "(\<exists>k. out = take k (blocks n c)) \<and> (go_on \<longrightarrow> out = blocks n c)"
proof -
  obtain ct fd fs where o: "LockedIfstream_open (openable E) (resolve (cwd E) path) (files st) = Some (ct, fd, fs)"
    using assms(3) by (cases "LockedIfstream_open (openable E) (resolve (cwd E) path) (files st)") (auto simp: send_file_def)
  obtain e bs where e: "send_blocks w 0 (blocks n c) [] = (e, bs)" by (cases "send_blocks w 0 (blocks n c) []")
  have ct: "ct = Some c" using LockedIfstream_reads [OF o] assms(2) by simp
  have "out = bs \<and> (go_on \<longrightarrow> e = All_sent)"
    using assms(3) by (cases e) (auto simp: send_file_def o ct e read_blocks_eq [OF assms(1)] Let_def split: if_splits)
  with e show ?thesis
    using send_blocks_prefix [of w 0 "blocks n c" "[]"] send_blocks_all [of w 0 "blocks n c" "[]"] by auto
qed



end
