(* ===== verification/Worker_Properties.thy ===== *)
theory Worker_Properties
  imports Client_Properties
begin

text \<open>
  Properties of the client's worker thread (\<open>Client_Worker\<close>): a session set up from the connection to
  \<open>CLIENT_RUN\<close>, the keep-alive cycle, that a stopped client's worker ends, and the interleavings in
  which it does not, spins, or waits for an answer nobody sends.
\<close>

lemmas worker_defs = set_state_def stopped_def join_step_def

lemma setting_cong: "m_properties t = m_properties st \<Longrightarrow> setting t k = setting st k"
  by (simp add: setting_def)

section \<open>Stopping\<close>

text \<open>The places from which the worker may still announce a file.\<close>

fun announcing :: "worker_pc \<Rightarrow> bool" where
  "announcing (AtOfferMake spec specs) = True"
| "announcing (AtOfferPrepare spec specs) = True"
| "announcing (AtOfferCommit spec specs fdsc) = True"
| "announcing _ = False"

lemma run_worker_add:
  "run_worker E (m + n) p st = (case run_worker E m p st of None \<Rightarrow> None | Some (p', st') \<Rightarrow> run_worker E n p' st')"
  by (induction m arbitrary: p st) (auto split: outcome.splits)

lemma run_worker_step:
  "worker_step E False p st = Next p' st' \<Longrightarrow> run_worker E (Suc n) p st = run_worker E n p' st'"
  by simp

lemma join_exit:
  "m_clientState st = CLIENT_EXIT \<Longrightarrow> \<exists>b. JoinRooms E rooms st = JoinReturns b st"
  by (cases rooms) auto

definition ends_within :: "env \<Rightarrow> nat \<Rightarrow> worker_pc \<Rightarrow> client \<Rightarrow> bool" where
  "ends_within E n p st \<longleftrightarrow> (\<exists>k \<le> n. \<exists>t. run_worker E k p st = Some (AtDone, t) \<and> m_clientState t = CLIENT_EXIT)"

lemma ends_done: "m_clientState st = CLIENT_EXIT \<Longrightarrow> ends_within E n AtDone st"
  unfolding ends_within_def by (intro exI [of _ 0]) simp

lemma ends_step:
  assumes "worker_step E False p st = Next p' st'" and "ends_within E n p' st'"
  shows "ends_within E (Suc n) p st"
proof -
  obtain k t where "k \<le> n" "run_worker E k p' st' = Some (AtDone, t)" "m_clientState t = CLIENT_EXIT"
    using assms(2) by (auto simp: ends_within_def)
  then have "Suc k \<le> Suc n \<and> run_worker E (Suc k) p st = Some (AtDone, t) \<and> m_clientState t = CLIENT_EXIT"
    using assms(1) by simp
  then show ?thesis unfolding ends_within_def by blast
qed

lemma ends_mono: "ends_within E m p st \<Longrightarrow> m \<le> n \<Longrightarrow> ends_within E n p st"
  unfolding ends_within_def by (meson order_trans)

lemma end_loop: "m_clientState st = CLIENT_EXIT \<Longrightarrow> ends_within E 1 AtLoop st"
  unfolding One_nat_def by (rule ends_step [OF _ ends_done]) simp_all

lemma end_finish:
  assumes "m_clientState st = CLIENT_EXIT"
  shows "ends_within E 2 (AtFinish b) st"
proof -
  have "worker_step E False (AtFinish b) st = Next AtLoop st" using assms by (simp add: stopped_def)
  from ends_step [OF this end_loop [OF assms]] show ?thesis by (simp add: numeral_2_eq_2)
qed

lemma end_to_finish:
  assumes "m_clientState st = CLIENT_EXIT" and "\<exists>b. worker_step E False p st = Next (AtFinish b) st"
  shows "ends_within E 3 p st"
proof -
  from assms(2) obtain b where "worker_step E False p st = Next (AtFinish b) st" by blast
  from ends_step [OF this end_finish [OF assms(1)]] show ?thesis by (simp add: numeral_3_eq_3 numeral_2_eq_2)
qed

lemma end_offer: "m_clientState st = CLIENT_EXIT \<Longrightarrow> ends_within E 3 (AtOffer specs) st"
  by (cases specs) (auto intro!: end_to_finish simp: join_step_def)

lemma end_joined: "m_clientState st = CLIENT_EXIT \<Longrightarrow> ends_within E 3 (joined b k) st"
  using end_finish [of st E False] ends_mono [of E 2 "AtFinish False" st 3]
  by (cases b; cases k) (auto intro!: end_offer end_to_finish simp: stopped_def)

lemma ensure_channel_state:
  "ensure_channel E peer room st = Some (b, st') \<Longrightarrow> m_clientState st' = m_clientState st"
  using MakeDataChannel_session [of E peer room st b st']
  by (auto simp: ensure_channel_def same_session_def split: if_splits)

text \<open>The settings a connection is made from are there.\<close>

definition configured :: "client \<Rightarrow> bool" where
  "configured st \<longleftrightarrow> setting_int st ''maxMessageSize'' \<noteq> None \<and> setting st ''stunAddress'' \<noteq> None \<and>
     setting_int st ''stunPort'' \<noteq> None"

lemma MakePeerConnection_Some:
  assumes "configured st"
  shows "\<exists>p st'. MakePeerConnection peer room st = Some (p, st')"
  using assms by (auto simp: configured_def MakePeerConnection_def Let_def)

lemma ensure_channel_Some:
  assumes "configured st"
  shows "\<exists>b st'. ensure_channel E peer room st = Some (b, st')"
proof -
  obtain m where m: "setting_int st ''maxMessageSize'' = Some m" using assms by (auto simp: configured_def)
  have "configured (snd (make_decision st))"
    using assms by (simp add: configured_def make_decision_def setting_def setting_int_def)
  then obtain p st' where p: "MakePeerConnection peer room (snd (make_decision st)) = Some (p, st')"
    using MakePeerConnection_Some by blast
  obtain d st1 where d: "make_decision st = (d, st1)" by (cases "make_decision st") auto
  have "MakeDataChannel E peer room st \<noteq> None"
    unfolding MakeDataChannel_def using m p d
    by simp
  then show ?thesis by (auto simp: ensure_channel_def)
qed

lemma worker_ends:
  assumes "m_clientState st = CLIENT_EXIT" and "configured st" and "\<not> announcing p"
  shows "ends_within E 4 p st"
proof -
  have loop: "ends_within E 4 p st" if "worker_step E False p st = Next p' st'" "ends_within E 3 p' st'" for p' st'
    using ends_step [OF that] by simp
  show "ends_within E 4 p st"
  proof (cases p)
    case (AtJoin rooms k)
    obtain b where "JoinRooms E rooms st = JoinReturns b st" using join_exit [OF assms(1)] by blast
    then have "worker_step E False p st = Next (joined b k) st" by (simp add: AtJoin join_step_def)
    from loop [OF this end_joined [OF assms(1)]] show ?thesis .
  next
    case (AtConnectMake peer room specs)
    obtain b st' where "ensure_channel E peer room st = Some (b, st')" using ensure_channel_Some [OF assms(2)] by blast
    moreover from ensure_channel_state [OF this] have "m_clientState st' = CLIENT_EXIT" using assms(1) by simp
    moreover from this have "ends_within E 3 AtConnectFail st'" by (intro end_to_finish) (auto simp: stopped_def)
    ultimately show ?thesis
      using loop [of "if b then AtOffer specs else AtConnectFail" st'] end_offer AtConnectMake by (cases b) auto
  next
    case AtPing
    obtain ok st' where s: "SendPing E st = (ok, st')" by (cases "SendPing E st") auto
    then have e: "m_clientState st' = CLIENT_EXIT"
      using assms(1) by (auto simp: SendPing_def SendMessage_def split: if_splits)
    have "worker_step E False (AtPingCheck ok) st' = Next AtLoop st'" using e by simp
    from ends_step [OF this end_loop [OF e]] have "ends_within E 3 (AtPingCheck ok) st'"
      by (rule ends_mono) simp
    then show ?thesis using loop [of "AtPingCheck ok" st'] AtPing s by simp
  next
    case (AtPingCheck ok)
    have "worker_step E False p st = Next AtLoop st" using AtPingCheck assms(1) by simp
    from loop [OF this ends_mono [OF end_loop [OF assms(1)]]] show ?thesis by simp
  next
    case AtLoop
    with ends_mono [OF end_loop [OF assms(1)]] show ?thesis by simp
  next
    case (AtOffer specs)
    with ends_mono [OF end_offer [OF assms(1)]] show ?thesis by simp
  next
    case (AtFinish b)
    with ends_mono [OF end_finish [OF assms(1)]] show ?thesis by simp
  next
    case AtDone
    with ends_done [OF assms(1)] show ?thesis by simp
  qed (use assms in \<open>auto intro!: ends_mono [OF end_to_finish] simp: stopped_def Let_def\<close>)
qed


definition demo_configured :: client where
  "demo_configured = demo_connected_client\<lparr>m_properties := [''directory'' \<mapsto> VString [], ''name'' \<mapsto> VString ''me'',
     ''maxMessageSize'' \<mapsto> VInt 4, ''stunAddress'' \<mapsto> VString ''s'', ''stunPort'' \<mapsto> VInt 1,
     ''room'' \<mapsto> VString ''r'', ''file'' \<mapsto> VString [], ''peer'' \<mapsto> VString []],
     files := fsys_init\<lparr>disk := [[''w'', ''f''] \<mapsto> ''hello'']\<rparr>\<rparr>"

lemma demo_settings:
  "setting demo_configured ''name'' = Some ''me''" "optional_setting demo_configured ''peer'' = Some []"
  "optional_setting demo_configured ''room'' = Some ''r''" "setting demo_configured ''room'' = Some ''r''"
  "setting demo_configured ''file'' = Some []" "optional_setting demo_configured ''directory'' = Some []"
  "configured demo_configured"
  by (simp_all add: demo_configured_def setting_def setting_int_def optional_setting_def Contains_def Get_string_def
      Get_int_def configured_def)


text \<open>
  C35: a stop can be lost: when \<open>Stop\<close> runs after an offer has been prepared and before it is announced,
  announcing it overwrites \<open>CLIENT_EXIT\<close>; the worker then waits for an answer, the client counts as
  running again, and neither a time-out nor the loss of the connection that \<open>Stop\<close> causes next lets
  the thread go on, so \<open>Stop\<close> never finishes joining it.
\<close>

theorem stop_lost_by_offer:
  assumes "SendFileOffer_prepare E (fs_room spec) (fs_peer spec) (fs_path spec) st = Some fdsc"
    and "\<And>m. sends E m"
  shows "worker_step E False (AtOfferPrepare spec []) st = Next (AtOfferCommit spec [] fdsc) st \<and>
    (\<exists>t. run_worker E 4 (AtOfferCommit spec [] fdsc) (Stop_session st) = Some (AtLoop, t) \<and>
      m_clientState t = CLIENT_WAIT_FOR_FILE_ACCEPT \<and> IsRunning t \<and>
      (\<forall>E' timed_out. worker_step E' timed_out AtLoop t = Blocked \<and>
         worker_step E' timed_out AtLoop (OnMessageClose t) = Blocked))"
  using assms
  by (simp add: SendFileOffer_commit_def SendMessage_def Let_def stopped_def IsRunning_def OnMessageClose_def
      WakeFileTransferWorkers_def ClearRooms_def init_step_def eval_nat_numeral)

lemma demo_prepare:
  "SendFileOffer_prepare demo_env ''r'' ''bob'' ''f'' demo_configured =
     Some (snd (get_file_info (magic demo_env) (Some ''hello'') ''f'' ''/w/f''))"
proof -
  have "file_bytes demo_env ''f'' demo_configured = Some ''hello''"
    by (simp add: file_bytes_def demo_configured_def demo_env_def resolve_def demo_transfer_defs)
  moreover have "offered_path (cwd demo_env) [] ''f'' = Some ''/w/f''"
    by (simp add: offered_path_def absolute_path_def demo_env_def demo_transfer_defs)
  moreover have "m_dataChannels demo_configured (''bob'', ''r'') = Some demo_channel" "usable demo_channel"
    by (simp_all add: demo_configured_def demo_connected_client_def usable_def demo_channel_def)
  ultimately show ?thesis
    by (simp add: SendFileOffer_prepare_def demo_settings get_file_info_def get_mime_type_def demo_env_def)
qed

theorem stop_lost_by_offer_witness:
  "\<exists>t fdsc. run_worker demo_env 4 (AtOfferCommit \<lparr>fs_peer = ''bob'', fs_room = ''r'', fs_path = ''f''\<rparr> [] fdsc)
     (Stop_session demo_configured) = Some (AtLoop, t) \<and> IsRunning t"
  using stop_lost_by_offer [of demo_env "\<lparr>fs_peer = ''bob'', fs_room = ''r'', fs_path = ''f''\<rparr>" demo_configured] demo_prepare
  by (fastforce simp: demo_env_def)

text \<open>
  A late chunk revives a stopped client: when the last chunk of a file arrives after \<open>Stop\<close> has set
  \<open>CLIENT_EXIT\<close>, the state becomes \<open>CLIENT_RUN\<close>, the client counts as running, and its worker waits
  for work or a time-out instead of ending.
\<close>

theorem late_chunk_revives:
  assumes "m_incomingFiles st (peer, room) = Some (f # q)" and "stream f" and "write_ok E"
    and "int (written f + length b) = expectedSize f" and "m_queuedFiles st = []"
  shows "m_clientState (OnIncomingChunk E peer room b (Stop_session st)) = CLIENT_RUN \<and>
    IsRunning (OnIncomingChunk E peer room b (Stop_session st)) \<and>
    worker_step E False AtLoop (OnIncomingChunk E peer room b (Stop_session st)) = Blocked"
proof -
  have "m_queuedFiles (start_next E k q s) = m_queuedFiles s" for k q s
    by (simp add: start_next_def put_queue_def split: prod.split)
  with assms show ?thesis
    by (simp add: OnIncomingChunk_def Stop_session_def WakeFileTransferWorkers_def Let_def IsRunning_def)
qed

definition demo_receiving :: client where
  "demo_receiving = demo_client\<lparr>m_incomingFiles := [(''bob'', ''r'') \<mapsto>
     [\<lparr>lock = Some 0, stream = True, written = 1, expectedSize = 2, destination = ''in/a''\<rparr>]]\<rparr>"

theorem late_chunk_revives_witness:
  "IsRunning (OnIncomingChunk demo_env ''bob'' ''r'' ''x'' (Stop_session demo_receiving))"
  using late_chunk_revives [of demo_receiving "''bob''" "''r''"
      "\<lparr>lock = Some 0, stream = True, written = 1, expectedSize = 2, destination = ''in/a''\<rparr>" "[]" demo_env "''x''"]
  by (simp add: demo_receiving_def demo_env_def demo_client_def client_init_def)

section \<open>A session\<close>

text \<open>The answer to a join, as the signalling server writes it.\<close>

definition joined_doc :: "string \<Rightarrow> string \<Rightarrow> string list \<Rightarrow> doc" where
  "joined_doc room who peers = [(''type'', JStr ''peer_joined''), (''peerId'', JCstr who), (''room'', JCstr room),
     (''peers'', JArr (map JCstr peers))]"

lemma peer_set_JCstr: "peer_set (map JCstr ps) S = Some (S \<union> c_str ` set ps)"
  by (induction ps arbitrary: S) auto

lemma OnJoin_joined_doc:
  assumes "setting st ''name'' = Some n"
  shows "OnJoin (joined_doc r p ps) st = Some
    (let st1 = UpdatePeers (c_str r) (c_str ` set ps) st in
     if m_clientState st1 = CLIENT_WAITING_FOR_JOIN \<and> c_str r = m_room st1 \<and> c_str p = n
     then st1\<lparr>m_clientState := CLIENT_JOINED\<rparr> else st1)"
  using assms by (simp add: OnJoin_def joined_doc_def string_at_def array_at_def peer_set_JCstr Let_def)


definition demo_fresh :: client where
  "demo_fresh = demo_configured\<lparr>m_clientState := CLIENT_INIT, m_rooms := Map.empty\<rparr>"

lemma demo_fresh_settings:
  "setting demo_fresh k = setting demo_configured k" "optional_setting demo_fresh k = optional_setting demo_configured k"
  by (simp_all add: demo_fresh_def setting_def optional_setting_def)


text \<open>
  The keep-alive cycle: an idle client whose wait times out sends one ping and waits for the pong;
  a pong carrying its own name brings it back to \<open>CLIENT_RUN\<close>, one with another name does not, and if
  the second wait times out the client exits and its worker ends.
\<close>

theorem keepalive_cycle:
  assumes "m_clientState st = CLIENT_RUN" and "m_queuedFiles st = []" and "setting st ''name'' = Some name"
    and "string_at doc ''type'' = Some ''pong''" and "string_at doc ''id'' = Some i" and "\<And>m. sends E m"
  shows "\<exists>st1 st2. worker_step E True AtLoop st = Next AtLoop st1 \<and> run_worker E 3 AtLoop st1 = Some (AtLoop, st2) \<and>
    sent st2 = sent st @ [''{ \"type\" : \"ping\" }''] \<and> m_clientState st2 = CLIENT_WAIT_FOR_PONG \<and>
    (\<exists>st3. OnPingPong doc st2 = Some st3 \<and> m_clientState st3 = (if i = name then CLIENT_RUN else CLIENT_WAIT_FOR_PONG)) \<and>
    (\<exists>st4. worker_step E True AtLoop st2 = Next AtLoop st4 \<and> \<not> IsRunning st4 \<and> worker_step E False AtLoop st4 = Next AtDone st4)"
proof -
  let ?st2 = "st\<lparr>m_clientState := CLIENT_WAIT_FOR_PONG, sent := sent st @ [''{ \"type\" : \"ping\" }'']\<rparr>"
  have 1: "worker_step E True AtLoop st = Next AtLoop (set_state CLIENT_PING st)" using assms(1,2) by simp
  have 2: "run_worker E 3 AtLoop (set_state CLIENT_PING st) = Some (AtLoop, ?st2)"
    using assms(6) by (simp add: set_state_def SendPing_def SendMessage_def eval_nat_numeral)
  have "setting ?st2 ''name'' = Some name" using assms(3) by (simp add: setting_def)
  then have 3: "\<exists>st3. OnPingPong doc ?st2 = Some st3 \<and> m_clientState st3 = (if i = name then CLIENT_RUN else CLIENT_WAIT_FOR_PONG)"
    using assms(4,5) by (simp add: OnPingPong_def)
  have 4: "\<exists>st4. worker_step E True AtLoop ?st2 = Next AtLoop st4 \<and> \<not> IsRunning st4 \<and> worker_step E False AtLoop st4 = Next AtDone st4"
    by (simp add: set_state_def IsRunning_def)
  show ?thesis using 1 2 3 4 by (intro exI [of _ "set_state CLIENT_PING st"] exI [of _ ?st2]) simp
qed

theorem keepalive_cycle_witness:
  "\<exists>st1 st2 st3. worker_step demo_env True AtLoop demo_configured = Next AtLoop st1 \<and>
     run_worker demo_env 3 AtLoop st1 = Some (AtLoop, st2) \<and>
     OnPingPong [(''type'', JStr ''pong''), (''id'', JStr ''me'')] st2 = Some st3 \<and> m_clientState st3 = CLIENT_RUN"
proof -
  have "m_clientState demo_configured = CLIENT_RUN" "m_queuedFiles demo_configured = []" "\<And>m. sends demo_env m"
    by (simp_all add: demo_configured_def demo_connected_client_def demo_env_def demo_client_def client_init_def)
  from keepalive_cycle [OF this(1,2) demo_settings(1), of "[(''type'', JStr ''pong''), (''id'', JStr ''me'')]" "''me''" demo_env] this(3)
  show ?thesis by (auto simp: string_at_def c_str_def)
qed

text \<open>
  A client without a room spins: started with an empty \<open>--room\<close> and no file, an open connection
  takes its worker around the loop in four steps back to the very state it started from, so it runs
  for ever without waiting, without reaching \<open>CLIENT_RUN\<close> and without ever taking up queued files.
\<close>

theorem empty_room_spins:
  assumes "m_clientState st = CLIENT_INIT" and "m_transportOpen st"
    and "optional_setting st ''peer'' = Some []" and "optional_setting st ''room'' = Some []"
    and "setting st ''room'' = Some []" and "setting st ''file'' = Some []"
  shows "run_worker E (4 * n) AtLoop st = Some (AtLoop, st)"
proof (induction n)
  case (Suc n)
  have fi: "Contains (m_properties st) ''file''" and rm: "Contains (m_properties st) ''room''"
    using assms(5,6) str_store.get_has by (force simp: setting_def split: sum.splits)+
  have specs: "initial_specs st = Some (Some [])"
    using assms(3,6) fi by (simp add: initial_specs_def ParseFileSpecs_def ParseFileSpecs_from_eq)
  have rooms: "initial_rooms st [] = Some [[]]" using assms(5) rm by (simp add: initial_rooms_def)
  have "run_worker E 4 AtLoop st = Some (AtLoop, st)"
    using assms(1-4) by (simp add: eval_nat_numeral init_step_def specs rooms join_step_def stopped_def)
  then show ?case using Suc run_worker_add [of E 4 "4 * n" AtLoop st] by simp
qed simp

definition demo_roomless :: client where
  "demo_roomless = demo_fresh\<lparr>m_properties := (m_properties demo_fresh)(''room'' \<mapsto> VString [])\<rparr>"

theorem empty_room_spins_witness: "run_worker demo_env 4000 AtLoop demo_roomless = Some (AtLoop, demo_roomless)"
  using empty_room_spins [of demo_roomless demo_env 1000]
  by (simp add: demo_roomless_def demo_fresh_def demo_configured_def demo_connected_client_def
      setting_def optional_setting_def Contains_def Get_string_def)

section \<open>Requests that are lost\<close>

text \<open>
  An offer nobody answers blocks its sender for good: a receiver drops an offer whose name leaves
  its directory without any message, and the sender's worker, having announced the file, waits for an
  answer with no time-out.
\<close>

theorem dropped_offer_strands_sender:
  assumes "file_offer_fields doc = Some (peer, room, f, name, len)"
    and "optional_setting r ''directory'' = Some dir" and "destination_path dir name = None"
    and "SendFileOffer_commit E room2 peer2 fileDetails fdsc st = (True, st1)"
  shows "OnFileOffer E2 doc r = Some r \<and>
    (\<exists>t. run_worker E 3 (AtOfferCheck True []) st1 = Some (AtLoop, t) \<and>
      (\<forall>E' timed_out. worker_step E' timed_out AtLoop t = Blocked))"
  using assms
  by (auto simp: OnFileOffer_def SendFileOffer_commit_def SendMessage_def Let_def stopped_def eval_nat_numeral
      split: if_splits)

theorem dropped_offer_strands_sender_witness:
  "OnFileOffer demo_env intruder_offer demo_client = Some demo_client \<and>
   (\<exists>st1 t. SendFileOffer_commit demo_env ''r'' ''bob'' ''f'' ''{}'' demo_configured = (True, st1) \<and>
     run_worker demo_env 3 (AtOfferCheck True []) st1 = Some (AtLoop, t))"
proof -
  obtain st1 where st1: "SendFileOffer_commit demo_env ''r'' ''bob'' ''f'' ''{}'' demo_configured = (True, st1)"
    by (simp add: SendFileOffer_commit_def SendMessage_def demo_env_def Let_def)
  obtain f where f: "file_offer_fields intruder_offer = Some (''bob'', ''r'', f, ''../../etc/passwd'', 1)"
    by (simp add: intruder_offer_def demo_offer_def demo_transfer_defs)
  have "optional_setting demo_client ''directory'' = Some ''in''" "destination_path ''in'' ''../../etc/passwd'' = None"
    by (simp_all add: demo_client_def client_init_def optional_setting_def setting_def Contains_def Get_string_def demo_transfer_defs)
  from dropped_offer_strands_sender [OF f this st1, of demo_env] st1 show ?thesis by blast
qed

text \<open>
  Losing the connection loses the requests in hand: the worker takes all queued requests at once,
  and when the connection closes while it waits for the first one's peer, it goes back to wait for the
  transport with nothing queued and nothing offered.
\<close>

theorem connection_loss_drops_requests:
  assumes "m_clientState st = CLIENT_RUN" and "m_queuedFiles st = spec # specs"
    and "InRoom (fs_room spec) st = Some True" and "\<not> present (fs_peer spec) (fs_room spec) st"
  shows "\<exists>st1 t. run_worker E 2 AtLoop st = Some (AtOfferWait spec specs, st1) \<and>
    worker_step E False (AtOfferWait spec specs) st1 = Blocked \<and>
    run_worker E 2 (AtOfferWait spec specs) (OnMessageClose st1) = Some (AtLoop, t) \<and>
    m_queuedFiles t = [] \<and> sent t = sent st \<and> m_pendingOffers t = m_pendingOffers st \<and>
    m_clientState t = CLIENT_INIT"
proof -
  let ?st1 = "st\<lparr>m_queuedFiles := []\<rparr>"
  have "InRoom (fs_room spec) ?st1 = Some True" "\<not> present (fs_peer spec) (fs_room spec) ?st1"
    using assms(3,4) setting_cong [of ?st1 st]
    by (cases "m_rooms st (fs_room spec)"; simp add: InRoom_def present_def GetPeers_def)+
  with assms(1,2) have "run_worker E 2 AtLoop st = Some (AtOfferWait spec specs, ?st1)"
      "worker_step E False (AtOfferWait spec specs) ?st1 = Blocked"
    by (simp_all add: eval_nat_numeral join_step_def stopped_def)
  moreover have "run_worker E 2 (AtOfferWait spec specs) (OnMessageClose ?st1) = Some (AtLoop, OnMessageClose ?st1)"
    using assms(1) by (simp add: eval_nat_numeral stopped_def OnMessageClose_def WakeFileTransferWorkers_def ClearRooms_def)
  ultimately show ?thesis
    using assms(1) by (intro exI [of _ ?st1] exI [of _ "OnMessageClose ?st1"])
      (simp add: OnMessageClose_def WakeFileTransferWorkers_def ClearRooms_def)
qed

theorem connection_loss_drops_requests_witness:
  "\<exists>st1 t. run_worker demo_env 2 (AtOfferWait \<lparr>fs_peer = ''eve'', fs_room = ''r'', fs_path = ''f''\<rparr> []) (OnMessageClose st1) = Some (AtLoop, t) \<and>
     m_queuedFiles t = [] \<and> m_clientState t = CLIENT_INIT"
proof -
  let ?s = "\<lparr>fs_peer = ''eve'', fs_room = ''r'', fs_path = ''f''\<rparr>"
  let ?st = "demo_configured\<lparr>m_queuedFiles := [?s]\<rparr>"
  have "setting ?st ''name'' = Some ''me''" using demo_settings(1) by (simp add: setting_def)
  then have "InRoom (fs_room ?s) ?st = Some True" "\<not> present (fs_peer ?s) (fs_room ?s) ?st"
    by (simp_all add: InRoom_def present_def GetPeers_def demo_configured_def demo_connected_client_def)
  from connection_loss_drops_requests [OF _ _ this, of "[]" demo_env] show ?thesis
    by (auto simp: demo_configured_def demo_connected_client_def)
qed

end
