(* ===== verification/Command_Line.thy ===== *)
theory Command_Line
  imports Property_Bag
begin

text \<open>
  Where the settings come from: the parser class \<open>Cmdline\<close> (\<open>src/parse_cl.cpp\<close>), the name a client
  gets when it is given none (\<open>include/RandomName.hpp\<close>), and the property bag \<open>main\<close> fills from both.
  \<open>getopt_long\<close> is the C library's: the parser is a fold over the options and arguments it returns.
  The draws of the random generator are arguments. An \<open>int\<close> is 32 bits wide; \<open>atoi\<close> of a number
  outside it is undefined.
\<close>

record cmdline =
  p_server :: bool
  p_timeout :: int
  p_maxMessageSize :: int
  p_messageAddress :: string
  p_messagePort :: int
  p_stunAddress :: string
  p_stunPort :: int
  p_name :: string
  p_directory :: string
  p_room :: string
  p_peer :: string
  p_file :: string
  p_help :: bool
  p_version :: bool

definition cmdline_defaults :: cmdline where
  "cmdline_defaults = \<lparr>p_server = False, p_timeout = 10, p_maxMessageSize = 2097152,
     p_messageAddress = ''ws://localhost'', p_messagePort = 8080, p_stunAddress = ''stun.l.google.com'',
     p_stunPort = 19302, p_name = [], p_directory = [], p_room = ''DefaultRoom#1'', p_peer = [], p_file = [],
     p_help = False, p_version = False\<rparr>"

text \<open>\<open>atoi\<close>: white space, an optional sign, the longest run of digits.\<close>

definition is_space :: "char \<Rightarrow> bool" where
  "is_space c \<longleftrightarrow> c = CHR '' '' \<or> 9 \<le> (of_char c :: nat) \<and> (of_char c :: nat) \<le> 13"

definition is_digit :: "char \<Rightarrow> bool" where
  "is_digit c \<longleftrightarrow> 48 \<le> (of_char c :: nat) \<and> (of_char c :: nat) \<le> 57"

definition digits_value :: "string \<Rightarrow> int" where
  "digits_value ds = foldl (\<lambda>n c. 10 * n + (of_char c - 48)) 0 ds"

definition atoi_value :: "string \<Rightarrow> int" where
  "atoi_value s = (let t = dropWhile is_space s in
     case t of [] \<Rightarrow> 0
     | c # u \<Rightarrow>
         if c = CHR ''-'' then - digits_value (takeWhile is_digit u)
         else if c = CHR ''+'' then digits_value (takeWhile is_digit u)
         else digits_value (takeWhile is_digit t))"

definition atoi :: "string \<Rightarrow> int option" where
  "atoi s = (if - (2 ^ 31) \<le> atoi_value s \<and> atoi_value s < 2 ^ 31 then Some (atoi_value s) else None)"

datatype cl_option =
    Opt_server
  | Opt_timeout
  | Opt_maxMessageSize
  | Opt_messageAddress
  | Opt_messagePort
  | Opt_stunAddress
  | Opt_stunPort
  | Opt_name
  | Opt_directory
  | Opt_room
  | Opt_peer
  | Opt_file
  | Opt_help
  | Opt_version
  | Opt_unknown

text \<open>The parser goes on, leaves the program through \<open>usage\<close> (with success or not), or is undefined.\<close>

datatype parse_result = Parsed cmdline | Exited bool | Undefined_number

definition with_int :: "string \<Rightarrow> (int \<Rightarrow> cmdline) \<Rightarrow> parse_result" where
  "with_int arg f = (case atoi arg of None \<Rightarrow> Undefined_number | Some i \<Rightarrow> Parsed (f i))"

fun apply_option :: "cl_option \<Rightarrow> string \<Rightarrow> cmdline \<Rightarrow> parse_result" where
  "apply_option Opt_server arg p = Parsed (p\<lparr>p_server := True\<rparr>)"
| "apply_option Opt_timeout arg p = with_int arg (\<lambda>i. p\<lparr>p_timeout := i\<rparr>)"
| "apply_option Opt_maxMessageSize arg p = with_int arg (\<lambda>i. p\<lparr>p_maxMessageSize := i\<rparr>)"
| "apply_option Opt_messageAddress arg p = Parsed (p\<lparr>p_messageAddress := arg\<rparr>)"
| "apply_option Opt_messagePort arg p = with_int arg (\<lambda>i. p\<lparr>p_messagePort := i\<rparr>)"
| "apply_option Opt_stunAddress arg p = Parsed (p\<lparr>p_stunAddress := arg\<rparr>)"
| "apply_option Opt_stunPort arg p = with_int arg (\<lambda>i. p\<lparr>p_stunPort := i\<rparr>)"
| "apply_option Opt_name arg p = Parsed (p\<lparr>p_name := arg\<rparr>)"
| "apply_option Opt_directory arg p = Parsed (p\<lparr>p_directory := arg\<rparr>)"
| "apply_option Opt_room arg p = Parsed (p\<lparr>p_room := arg\<rparr>)"
| "apply_option Opt_peer arg p = Parsed (p\<lparr>p_peer := arg\<rparr>)"
| "apply_option Opt_file arg p = Parsed (p\<lparr>p_file := arg\<rparr>)"
| "apply_option Opt_help arg p = Exited True"
| "apply_option Opt_version arg p = Parsed (p\<lparr>p_version := True\<rparr>)"
| "apply_option Opt_unknown arg p = Exited False"

fun parse_options :: "(cl_option \<times> string) list \<Rightarrow> cmdline \<Rightarrow> parse_result" where
  "parse_options [] p = Parsed p"
| "parse_options ((opt, arg) # rest) p =
     (case apply_option opt arg p of Parsed q \<Rightarrow> parse_options rest q | r \<Rightarrow> r)"

definition Cmdline :: "(cl_option \<times> string) list \<Rightarrow> parse_result" where
  "Cmdline opts = parse_options opts cmdline_defaults"

section \<open>Names\<close>

definition name_animals :: "string list" where
  "name_animals = [''Bear'', ''Eagle'', ''Falcon'', ''Fox'', ''Lion'', ''Otter'', ''Panther'', ''Tiger'', ''Wolf'']"

definition name_objects :: "string list" where
  "name_objects = [''Anchor'', ''Compass'', ''Crystal'', ''Hammer'', ''Lantern'', ''Mirror'', ''Shield'', ''Sword'']"

definition name_verbs :: "string list" where
  "name_verbs = [''Dancing'', ''Flying'', ''Howling'', ''Leaping'', ''Running'', ''Soaring'', ''Stalking'', ''Swimming'']"

definition name_nouns :: "string list" where
  "name_nouns = [''Breeze'', ''Canyon'', ''Forest'', ''Mountain'', ''Ocean'', ''River'', ''Shadow'', ''Thunder'']"

definition digit :: "nat \<Rightarrow> char" where
  "digit n = ''0123456789'' ! n"

text \<open>The draws are uniform over the indices of the lists, and over 100 to 999.\<close>

definition Generate :: "nat \<Rightarrow> nat \<Rightarrow> nat \<Rightarrow> nat \<Rightarrow> nat \<Rightarrow> string" where
  "Generate a obj v n num = name_animals ! a @ name_objects ! obj @ name_verbs ! v @ name_nouns ! n @ ''#'' @
     [digit (num div 100), digit (num div 10 mod 10), digit (num mod 10)]"

section \<open>The property bag\<close>

definition main_name :: "cmdline \<Rightarrow> string \<Rightarrow> string" where
  "main_name p random_name = (if p_name p \<noteq> [] then p_name p else random_name)"

definition main_properties :: "cmdline \<Rightarrow> string \<Rightarrow> PropertyBag" where
  "main_properties p random_name = fold (\<lambda>(k, v). Set_value k v)
     [(''messageAddress'', VString (p_messageAddress p)), (''messagePort'', VInt (p_messagePort p)),
      (''stunAddress'', VString (p_stunAddress p)), (''stunPort'', VInt (p_stunPort p)),
      (''server'', VBool (p_server p)), (''directory'', VString (p_directory p)), (''room'', VString (p_room p)),
      (''peer'', VString (p_peer p)), (''file'', VString (p_file p)), (''help'', VBool (p_help p)),
      (''version'', VBool (p_version p)), (''name'', VString (main_name p random_name)),
      (''timeout'', VInt (p_timeout p)), (''maxMessageSize'', VInt (p_maxMessageSize p))] Map.empty"

text \<open>\<open>WebRTC::Create\<close>: the role, and the settings its constructor and \<open>WebRTC::Start\<close> read.\<close>

definition Create_is_server :: "PropertyBag \<Rightarrow> get_error + bool" where
  "Create_is_server b = Get_bool b ''server''"

definition start_transport :: "PropertyBag \<Rightarrow> get_error + (int option \<times> string \<times> int)" where
  "start_transport b =
     (case (if Contains b ''timeout'' then map_sum id Some (Get_int b ''timeout'') else Inr None) of
        Inl e \<Rightarrow> Inl e
      | Inr delay \<Rightarrow> (case Get_string b ''messageAddress'' of Inl e \<Rightarrow> Inl e
          | Inr address \<Rightarrow> (case Get_int b ''messagePort'' of Inl e \<Rightarrow> Inl e
              | Inr port \<Rightarrow> Inr (delay, address, port))))"

section \<open>Properties\<close>

lemma main_properties_eq:
  "main_properties p r = [''messageAddress'' \<mapsto> VString (p_messageAddress p), ''messagePort'' \<mapsto> VInt (p_messagePort p),
      ''stunAddress'' \<mapsto> VString (p_stunAddress p), ''stunPort'' \<mapsto> VInt (p_stunPort p),
      ''server'' \<mapsto> VBool (p_server p), ''directory'' \<mapsto> VString (p_directory p), ''room'' \<mapsto> VString (p_room p),
      ''peer'' \<mapsto> VString (p_peer p), ''file'' \<mapsto> VString (p_file p), ''help'' \<mapsto> VBool (p_help p),
      ''version'' \<mapsto> VBool (p_version p), ''name'' \<mapsto> VString (main_name p r),
      ''timeout'' \<mapsto> VInt (p_timeout p), ''maxMessageSize'' \<mapsto> VInt (p_maxMessageSize p)]"
  by (simp add: main_properties_def Set_value_def)

lemma main_settings:
  "Get_string (main_properties p r) ''messageAddress'' = Inr (p_messageAddress p)"
  "Get_int (main_properties p r) ''messagePort'' = Inr (p_messagePort p)"
  "Get_string (main_properties p r) ''stunAddress'' = Inr (p_stunAddress p)"
  "Get_int (main_properties p r) ''stunPort'' = Inr (p_stunPort p)"
  "Get_bool (main_properties p r) ''server'' = Inr (p_server p)"
  "Get_string (main_properties p r) ''directory'' = Inr (p_directory p)"
  "Get_string (main_properties p r) ''room'' = Inr (p_room p)"
  "Get_string (main_properties p r) ''peer'' = Inr (p_peer p)"
  "Get_string (main_properties p r) ''file'' = Inr (p_file p)"
  "Get_string (main_properties p r) ''name'' = Inr (main_name p r)"
  "Get_int (main_properties p r) ''timeout'' = Inr (p_timeout p)"
  "Get_int (main_properties p r) ''maxMessageSize'' = Inr (p_maxMessageSize p)"
  "Contains (main_properties p r) ''timeout''"
  by (simp_all add: main_properties_eq Get_string_def Get_int_def Get_bool_def Contains_def)

text \<open>The setting an option gives, and the last one of a command line.\<close>

definition last_arg :: "cl_option \<Rightarrow> (cl_option \<times> string) list \<Rightarrow> string option" where
  "last_arg opt opts = map_of (rev opts) opt"

lemma parse_options_append:
  "parse_options (as @ bs) p = (case parse_options as p of Parsed q \<Rightarrow> parse_options bs q | r \<Rightarrow> r)"
  by (induction as arbitrary: p) (auto split: parse_result.splits)

lemma parse_options_snoc:
  "parse_options (as @ [(opt, arg)]) p = Parsed q \<Longrightarrow>
   \<exists>q0. parse_options as p = Parsed q0 \<and> apply_option opt arg q0 = Parsed q"
  by (auto simp: parse_options_append split: parse_result.splits)

lemma with_int_Parsed: "with_int arg f = Parsed q \<longleftrightarrow> (\<exists>i. atoi arg = Some i \<and> q = f i)"
  by (auto simp: with_int_def split: option.splits)

lemma parse_fields:
  "parse_options opts p = Parsed q \<Longrightarrow>
     p_server q = (p_server p \<or> Opt_server \<in> fst ` set opts) \<and>
     p_messageAddress q = (case last_arg Opt_messageAddress opts of None \<Rightarrow> p_messageAddress p | Some a \<Rightarrow> a) \<and>
     p_room q = (case last_arg Opt_room opts of None \<Rightarrow> p_room p | Some a \<Rightarrow> a) \<and>
     p_peer q = (case last_arg Opt_peer opts of None \<Rightarrow> p_peer p | Some a \<Rightarrow> a) \<and>
     p_file q = (case last_arg Opt_file opts of None \<Rightarrow> p_file p | Some a \<Rightarrow> a) \<and>
     p_name q = (case last_arg Opt_name opts of None \<Rightarrow> p_name p | Some a \<Rightarrow> a) \<and>
     p_directory q = (case last_arg Opt_directory opts of None \<Rightarrow> p_directory p | Some a \<Rightarrow> a) \<and>
     p_timeout q = (case last_arg Opt_timeout opts of None \<Rightarrow> p_timeout p | Some a \<Rightarrow> the (atoi a)) \<and>
     p_maxMessageSize q = (case last_arg Opt_maxMessageSize opts of None \<Rightarrow> p_maxMessageSize p | Some a \<Rightarrow> the (atoi a)) \<and>
     Opt_help \<notin> fst ` set opts \<and> Opt_unknown \<notin> fst ` set opts"
proof (induction opts arbitrary: q rule: rev_induct)
  case Nil
  then show ?case by (simp add: last_arg_def)
next
  case (snoc x opts)
  obtain opt arg where x: "x = (opt, arg)" by (cases x)
  obtain q0 where q0: "parse_options opts p = Parsed q0" "apply_option opt arg q0 = Parsed q"
    using parse_options_snoc snoc.prems unfolding x by blast
  note ih = snoc.IH [OF q0(1)]
  have la: "last_arg o1 (opts @ [x]) = (if o1 = opt then Some arg else last_arg o1 opts)" for o1
    by (simp add: last_arg_def x)
  show ?case unfolding la using ih q0(2)
    by (cases opt) (clarsimp simp: x with_int_Parsed)+
qed



lemma three_digits: "n = 100 * (n div 100) + 10 * (n div 10 mod 10) + n mod 10" for n :: nat
proof -
  have "n div 10 = 10 * (n div 100) + n div 10 mod 10"
    using div_mult2_eq [of n 10 10] mult_div_mod_eq [of 10 "n div 10"] by simp
  then show ?thesis using mult_div_mod_eq [of 10 n] by linarith
qed

text \<open>
  A generated name can be used everywhere a name is pasted or split: it is not empty, consists of
  letters, \<open>#\<close> and digits, so it needs no escape in the JSON the client builds by hand and no entry of
  \<open>--file\<close> is cut short by it, and different draws of the number give different names.
\<close>

theorem generated_name_safe:
  assumes "a < 9" and "obj < 8" and "v < 8" and "n < 8" and "100 \<le> num" and "num \<le> 999"
  shows "Generate a obj v n num \<noteq> [] \<and>
    set (Generate a obj v n num) \<inter> {CHR 0x22, CHR 0x5C, CHR '':'', CHR '','', CHR 0x00, CHR 0x0A} = {} \<and>
    (\<forall>num'. 100 \<le> num' \<and> num' \<le> 999 \<and> Generate a obj v n num' = Generate a obj v n num \<longrightarrow> num' = num)"
proof -
  let ?bad = "{CHR 0x22, CHR 0x5C, CHR '':'', CHR '','', CHR 0x00, CHR 0x0A}"
  have w: "xs ! i \<noteq> [] \<and> set (xs ! i) \<inter> ?bad = {}"
    if "\<forall>x \<in> set xs. x \<noteq> [] \<and> set x \<inter> ?bad = {}" "i < length xs" for xs :: "string list" and i
    using that nth_mem by blast
  have l: "\<forall>x \<in> set name_animals. x \<noteq> [] \<and> set x \<inter> ?bad = {}" "\<forall>x \<in> set name_objects. x \<noteq> [] \<and> set x \<inter> ?bad = {}"
    "\<forall>x \<in> set name_verbs. x \<noteq> [] \<and> set x \<inter> ?bad = {}" "\<forall>x \<in> set name_nouns. x \<noteq> [] \<and> set x \<inter> ?bad = {}"
    by (simp_all add: name_animals_def name_objects_def name_verbs_def name_nouns_def)
  have d: "digit k \<notin> ?bad" if "k < 10" for k
  proof -
    have "k \<in> {0, 1, 2, 3, 4, 5, 6, 7, 8, 9}" using that by auto
    then show ?thesis by (auto simp: digit_def)
  qed
  have inj: "digit j = digit k \<longleftrightarrow> j = k" if "j < 10" "k < 10" for j k
    using that by (simp add: digit_def nth_eq_iff_index_eq)
  have k: "num div 100 < 10" "num div 10 mod 10 < 10" "num mod 10 < 10" using assms by simp_all
  have "Generate a obj v n num \<noteq> []" by (simp add: Generate_def)
  moreover have "set (Generate a obj v n num) \<inter> ?bad = {}"
    using w [OF l(1), of a] w [OF l(2), of obj] w [OF l(3), of v] w [OF l(4), of n] assms d [OF k(1)] d [OF k(2)] d [OF k(3)]
    by (simp add: Generate_def Int_Un_distrib2 name_animals_def name_objects_def name_verbs_def name_nouns_def)
  moreover have "num' = num" if "100 \<le> num'" "num' \<le> 999" "Generate a obj v n num' = Generate a obj v n num" for num'
  proof -
    have k': "num' div 100 < 10" "num' div 10 mod 10 < 10" "num' mod 10 < 10" using that by simp_all
    from that(3) have "digit (num' div 100) = digit (num div 100)"
        "digit (num' div 10 mod 10) = digit (num div 10 mod 10)" "digit (num' mod 10) = digit (num mod 10)"
      unfolding Generate_def by simp_all
    then have "num' div 100 = num div 100" "num' div 10 mod 10 = num div 10 mod 10" "num' mod 10 = num mod 10"
      using inj [OF k'(1) k(1)] inj [OF k'(2) k(2)] inj [OF k'(3) k(3)] by blast+
    then show ?thesis using three_digits [of num] three_digits [of num'] by simp
  qed
  ultimately show ?thesis by blast
qed

theorem generated_name_safe_witness:
  "Generate 3 0 4 1 427 = ''FoxAnchorRunningCanyon#427'' \<and> CHR '':'' \<notin> set (Generate 3 0 4 1 427)"
  using generated_name_safe [of 3 0 4 1 427]
  by (auto simp: Generate_def name_animals_def name_objects_def name_verbs_def name_nouns_def digit_def)

end
