(* ===== verification/Client_Safety.thy ===== *)
theory Client_Safety
  imports Worker_Properties Command_Line
begin

text \<open>
  With the settings \<open>main\<close> supplies, the client does not fail by itself: no step of its worker lets an
  exception of the property bag escape, and no message does harm but the malformed ones named below.
\<close>

section \<open>The settings of main\<close>

definition settled :: "client \<Rightarrow> bool" where
  "settled st \<longleftrightarrow> (\<exists>p r. m_properties st = main_properties p r)"

lemma settledE:
  assumes "settled st"
  obtains "setting_int st ''maxMessageSize'' \<noteq> None" "configured st" "setting st ''name'' \<noteq> None"
    "setting st ''file'' \<noteq> None" "setting st ''room'' \<noteq> None" "optional_setting st ''peer'' \<noteq> None"
    "optional_setting st ''room'' \<noteq> None" "optional_setting st ''directory'' \<noteq> None"
proof -
  obtain p r where "m_properties st = main_properties p r" using assms by (auto simp: settled_def)
  then show thesis
    by (intro that) (simp_all add: setting_def setting_int_def optional_setting_def configured_def main_settings)
qed

lemma settled_cong: "m_properties t = m_properties st \<Longrightarrow> settled t = settled st"
  by (simp add: settled_def)

lemma props_simps [simp]:
  "m_properties (set_state s st) = m_properties st" "m_properties (snd (SendMessage E m st)) = m_properties st"
  "m_properties (rtc p c st) = m_properties st" "m_properties (release_wait st) = m_properties st"
  "m_properties (UpdatePeers room ps st) = m_properties st" "m_properties (snd (Leave peer room st)) = m_properties st"
  "m_properties (put_queue k q st) = m_properties st"
  by (auto simp: set_state_def SendMessage_def rtc_def release_wait_def UpdatePeers_def Leave_def put_queue_def
      split: option.splits)

lemma props_JoinRoom: "JoinRoom E room st = (b, t) \<Longrightarrow> m_properties t = m_properties st"
  by (auto simp: JoinRoom_def SendMessage_def split: if_splits)

lemma InRoom_settled:
  assumes "settled st"
  shows "InRoom room st \<noteq> None"
  using assms by (rule settledE) (auto simp: InRoom_def split: prod.splits bool.splits)

lemma JoinRooms_settled:
  "settled st \<Longrightarrow> JoinRooms E rooms st \<noteq> JoinCrashes \<and>
     (\<forall>b t. JoinRooms E rooms st = JoinReturns b t \<longrightarrow> m_properties t = m_properties st) \<and>
     (\<forall>rs t. JoinRooms E rooms st = JoinWaits rs t \<longrightarrow> m_properties t = m_properties st)"
proof (induction rooms)
  case Nil
  then show ?case by simp
next
  case (Cons room rs)
  let ?s = "set_state CLIENT_WAITING_FOR_JOIN (st\<lparr>m_room := room\<rparr>)"
  obtain b t where j: "JoinRoom E room ?s = (b, t)" by (cases "JoinRoom E room ?s")
  have t: "m_properties t = m_properties st" using props_JoinRoom [OF j] by simp
  obtain r where "InRoom room st = Some r" using InRoom_settled [OF Cons.prems] by auto
  then show ?case using Cons j t
    by (cases "m_clientState st = CLIENT_EXIT"; cases "room = []"; cases r; cases b) auto
qed

lemma join_step_settled:
  assumes "settled st"
  shows "join_step E rooms k st \<noteq> Crashed \<and> (\<forall>p t. join_step E rooms k st = Next p t \<longrightarrow> m_properties t = m_properties st)"
  using JoinRooms_settled [OF assms, of E rooms] by (cases "JoinRooms E rooms st") (simp_all add: join_step_def)

lemma props_MakePeerConnection: "MakePeerConnection peer room st = Some (p, t) \<Longrightarrow> m_properties t = m_properties st"
  by (auto simp: MakePeerConnection_def Let_def bind_eq_Some_conv)

lemma props_MakeDataChannel:
  "MakeDataChannel E peer room st = Some (b, t) \<Longrightarrow> m_properties t = m_properties st"
  using MakeDataChannel_session by (auto simp: same_session_def)

lemma ensure_channel_settled:
  assumes "settled st"
  shows "\<exists>b t. ensure_channel E peer room st = Some (b, t) \<and> m_properties t = m_properties st"
proof -
  obtain b t where e: "ensure_channel E peer room st = Some (b, t)"
    using settledE [OF assms] ensure_channel_Some by metis
  moreover have "m_properties t = m_properties st"
    using e props_MakeDataChannel [of E peer room st b t] by (auto simp: ensure_channel_def split: if_splits)
  ultimately show ?thesis by blast
qed

lemma props_commit: "m_properties (snd (SendFileOffer_commit E room peer f d st)) = m_properties st"
  by (auto simp: SendFileOffer_commit_def SendMessage_def Let_def)

lemma init_step_settled:
  assumes "settled st"
  shows "init_step st \<noteq> Crashed \<and> (\<forall>p t. init_step st = Next p t \<longrightarrow> m_properties t = m_properties st)"
proof -
  have i: "initial_specs st \<noteq> None"
    using assms by (rule settledE) (auto simp: initial_specs_def)
  have r: "initial_rooms st specs \<noteq> None" for specs
    using assms by (rule settledE) (auto simp: initial_rooms_def)
  obtain o1 where o1: "initial_specs st = Some o1" using i by auto
  obtain pn rn where o2: "optional_setting st ''peer'' = Some pn" "optional_setting st ''room'' = Some rn"
    using assms by (rule settledE) auto
  show ?thesis
  proof (cases o1)
    case None
    then show ?thesis using o1 by (simp add: init_step_def)
  next
    case (Some specs)
    obtain rs where "initial_rooms st specs = Some rs" using r [of specs] by auto
    then show ?thesis using o1 o2 Some by (simp add: init_step_def)
  qed
qed

lemma loop_step_settled:
  assumes "settled st"
  shows "loop_step s timed_out st \<noteq> Crashed \<and> (\<forall>p t. loop_step s timed_out st = Next p t \<longrightarrow> m_properties t = m_properties st)"
  using init_step_settled [OF assms] by (cases s) auto



section \<open>Messages\<close>

text \<open>What a leave notice and an SDP offer must not lack. The other messages may lack anything.\<close>

definition harmless :: "handler \<Rightarrow> doc \<Rightarrow> bool" where
  "harmless h doc \<longleftrightarrow>
     (h = HLeave \<longrightarrow> string_at doc ''room'' = None \<or> string_at doc ''peerId'' = None \<or> array_at doc ''peers'' \<noteq> None) \<and>
     (h = HOffer \<longrightarrow> (case array_at doc ''descriptions'' of None \<Rightarrow> True | Some vs \<Rightarrow> vs \<noteq> [] \<and> get_string (hd vs) \<noteq> None) \<and>
        (case array_at doc ''candidates'' of None \<Rightarrow> True | Some vs \<Rightarrow> (\<forall>v \<in> set vs. get_string v \<noteq> None)))"

lemma get_string_nul_free: "get_string v = Some s \<Longrightarrow> nul_free s"
  by (auto simp: get_string_def split: json.splits)

lemma base64Decode_Some:
  "\<forall>s. length (f s) \<le> length s \<Longrightarrow> nul_free s \<Longrightarrow> \<exists>b d. base64Decode f s = Some (b, d)"
  by (cases "s = []") (auto simp: base64Decode_def)

lemma OnAnswer_settled:
  assumes "\<forall>s. length (dec E s) \<le> length s"
  shows "\<exists>t. OnAnswer E doc st = Some t \<and> m_properties t = m_properties st"
proof (cases "FindPeerConnection (fst (answer_key doc st)) (snd (answer_key doc st)) st")
  case None
  then show ?thesis by (simp add: OnAnswer_def)
next
  case (Some p)
  show ?thesis
  proof (cases "string_at doc ''sdp''")
    case None
    with Some show ?thesis by (simp add: OnAnswer_def)
  next
    case (Some sdp)
    obtain b d where "base64Decode (dec E) sdp = Some (b, d)"
      using base64Decode_Some [OF assms string_at_nul_free [OF Some]] by blast
    with Some \<open>FindPeerConnection _ _ st = Some p\<close> show ?thesis by (cases b) (simp_all add: OnAnswer_def)
  qed
qed

lemma OnOffer_settled:
  assumes "settled st" and b64: "\<forall>s. length (dec E s) \<le> length s" and h: "harmless HOffer doc"
  shows "\<exists>t. OnOffer E doc st = Some t \<and> m_properties t = m_properties st"
proof (cases "\<exists>peer room. string_at doc ''peer'' = Some peer \<and> string_at doc ''room'' = Some room")
  case False
  then show ?thesis by (auto simp: OnOffer_def split: option.splits)
next
  case True
  then obtain peer room where pr: "string_at doc ''peer'' = Some peer" "string_at doc ''room'' = Some room" by blast
  obtain d st1 where d: "make_decision st = (d, st1)" by (cases "make_decision st")
  then have p1: "m_properties st1 = m_properties st" by (auto simp: make_decision_def)
  then have "configured st1" using assms(1) settled_cong [OF p1] by (meson settledE)
  then obtain p st2 where p: "MakePeerConnection peer room st1 = Some (p, st2)" using MakePeerConnection_Some by blast
  obtain q st3 where q: "CreateStringQueue st2 = (q, st3)" by (cases "CreateStringQueue st2")
  then have p3: "m_properties st3 = m_properties st" using props_MakePeerConnection [OF p] p1
    by (auto simp: CreateStringQueue_def)
  let ?dc = "\<lparr>pc = p, channel = None, fileQ = Some q, fileDecision = d,
    description = \<lparr>UUID = generateUUID (random_bytes E), descriptions = [], candidates = []\<rparr>\<rparr>"
  let ?st4 = "st3\<lparr>m_incomingChannels := (m_incomingChannels st3)((peer, room) \<mapsto> ?dc)\<rparr>"
  have "\<exists>t. offer_description E p doc ?st4 = Some t \<and> m_properties t = m_properties st"
  proof (cases "array_at doc ''descriptions''")
    case None
    then show ?thesis using p3 by (simp add: offer_description_def)
  next
    case (Some vs)
    then obtain v ws s where v: "vs = v # ws" "get_string v = Some s"
      using h by (cases vs) (auto simp: harmless_def)
    obtain b c where "base64Decode (dec E) s = Some (b, c)"
      using base64Decode_Some [OF b64 get_string_nul_free [OF v(2)]] by blast
    then show ?thesis using Some v p3 by (cases b) (simp_all add: offer_description_def)
  qed
  then obtain st5 where st5: "offer_description E p doc ?st4 = Some st5" "m_properties st5 = m_properties st" by blast
  have "\<exists>t. (case array_at doc ''candidates'' of None \<Rightarrow> Some st5 | Some vs \<Rightarrow> each (offer_candidate E p) vs st5) = Some t \<and>
      m_properties t = m_properties st"
  proof (cases "array_at doc ''candidates''")
    case None
    then show ?thesis using st5 by simp
  next
    case (Some vs)
    have "\<exists>t. each (offer_candidate E p) vs st5 = Some t \<and> m_properties t = m_properties st"
    proof (rule each_Some [where P = "\<lambda>t. m_properties t = m_properties st"])
      fix v and t :: client
      assume v: "v \<in> set vs" and t: "m_properties t = m_properties st"
      obtain s where s: "get_string v = Some s" using h v Some by (auto simp: harmless_def)
      obtain b c where "base64Decode (dec E) s = Some (b, c)"
        using base64Decode_Some [OF b64 get_string_nul_free [OF s]] by blast
      then show "\<exists>u. offer_candidate E p v t = Some u \<and> m_properties u = m_properties st"
        using s t by (cases b) (simp_all add: offer_candidate_def)
    qed (rule st5(2))
    then show ?thesis using Some by simp
  qed
  then show ?thesis using pr d p q st5(1) by (simp add: OnOffer_def)
qed

lemma props_start_next [simp]: "m_properties (start_next E k q st) = m_properties st"
  by (auto simp: start_next_def split: prod.splits)

lemma props_enqueue [simp]: "m_properties (enqueue_incoming E k f st) = m_properties st"
  by (simp add: enqueue_incoming_def Let_def)

lemma OnFileOffer_settled:
  assumes "settled st" and "map_of doc ''type'' \<noteq> None"
  shows "\<exists>t. OnFileOffer E doc st = Some t \<and> m_properties t = m_properties st"
proof (cases "file_offer_fields doc")
  case None
  then show ?thesis by (simp add: OnFileOffer_def)
next
  case (Some fs)
  obtain peer room f name len where fs: "fs = (peer, room, f, name, len)" by (cases fs)
  obtain dir where dir: "optional_setting st ''directory'' = Some dir" using assms(1) by (rule settledE) auto
  have r: "\<exists>d. retype x doc = Some d" for x using assms(2) by (simp add: retype_def)
  have accept: "\<exists>u. SendFileAccept E doc t = Some u \<and> m_properties u = m_properties t" for t
    using r [of "''file_accept''"] by (auto simp: SendFileAccept_def split: option.splits)
  have reject: "\<exists>u. SendFileReject E doc t = Some u \<and> m_properties u = m_properties t" for t
    using r [of "''file_reject''"] by (auto simp: SendFileReject_def split: option.splits)
  show ?thesis
  proof (cases "destination_path dir name")
    case None
    then show ?thesis using Some fs dir by (simp add: OnFileOffer_def)
  next
    case (Some dest)
    then show ?thesis
      using \<open>file_offer_fields doc = Some fs\<close> fs dir reject [of st]
        accept [of "enqueue_incoming E (peer, room) (new_incoming len dest) st"]
      by (auto simp: OnFileOffer_def)
  qed
qed

lemma TakePendingOffer_props: "TakePendingOffer doc st = Some (offer, t) \<Longrightarrow> m_properties t = m_properties st"
  by (auto simp: TakePendingOffer_def split: option.splits)

lemma client_handle_settled:
  assumes "settled st" and "\<forall>s. length (dec E s) \<le> length s" and "map_of doc ''type'' \<noteq> None" and "harmless h doc"
  shows "\<exists>t. client_handle E h doc st = Some t \<and> m_properties t = m_properties st"
proof (cases h)
  case HJoin
  obtain n where "setting st ''name'' = Some n" using assms(1) by (rule settledE) auto
  then show ?thesis using HJoin by (auto simp: OnJoin_def Let_def split: option.splits)
next
  case HLeave
  then show ?thesis using assms(4) by (auto simp: OnLeave_def Let_def harmless_def split: option.splits)
next
  case HFileAccept
  show ?thesis
  proof (cases "TakePendingOffer doc st")
    case None
    then show ?thesis using HFileAccept by (simp add: OnFileAccept_def)
  next
    case (Some x)
    then show ?thesis using HFileAccept TakePendingOffer_props
      by (cases x; cases "Option.bind (m_dataChannels (snd x) (key (fst x))) fileQ") (auto simp: OnFileAccept_def)
  qed
next
  case HFileReject
  show ?thesis
  proof (cases "TakePendingOffer doc st")
    case None
    then show ?thesis using HFileReject by (simp add: OnFileReject_def)
  next
    case (Some x)
    then show ?thesis using HFileReject TakePendingOffer_props by (cases x) (auto simp: OnFileReject_def)
  qed
next
  case HOffer
  then show ?thesis using OnOffer_settled [OF assms(1,2)] assms(4) by simp
next
  case HAnswer
  then show ?thesis using OnAnswer_settled [OF assms(2)] by simp
next
  case HCandidate
  then show ?thesis by (auto simp: OnCandidate_def split: option.splits)
next
  case HFileOffer
  then show ?thesis using OnFileOffer_settled [OF assms(1,3)] by simp
next
  case HFileComplete
  then show ?thesis by (simp add: OnFileComplete_def)
next
  case HPingPong
  obtain n where "setting st ''name'' = Some n" using assms(1) by (rule settledE) auto
  then show ?thesis using HPingPong by (auto simp: OnPingPong_def split: option.splits)
qed



end
