(* ===== verification/File_Watcher.thy ===== *)
theory File_Watcher
  imports Prelude "HOL-Library.Word"
begin

text \<open>
  \<open>src/FileWatcher.cpp\<close>: the directory watcher. A path is the list of its elements, whose order is
  the one \<open>std::map<fs::path, _>\<close> iterates in; time is in milliseconds. The kernel is outside: an
  \<open>inotify_event\<close> is its descriptor, mask and name, and \<open>world\<close> says which watch descriptor
  \<open>inotify_add_watch\<close> returns and what the directories contain. \<open>delivered\<close> is the history of the
  callback's invocations.
\<close>

unbundle bit_operations_syntax

type_synonym fpath = "string list"

datatype FileChange = Added | Modified | Removed

record inotify_event =
  wd :: int
  mask :: "32 word"
  ev_name :: string \<comment> \<open>empty when \<open>len == 0\<close>\<close>

definition IN_CLOSE_WRITE :: "32 word" where "IN_CLOSE_WRITE = 0x8"
definition IN_MOVED_FROM :: "32 word" where "IN_MOVED_FROM = 0x40"
definition IN_MOVED_TO :: "32 word" where "IN_MOVED_TO = 0x80"
definition IN_CREATE :: "32 word" where "IN_CREATE = 0x100"
definition IN_DELETE :: "32 word" where "IN_DELETE = 0x200"
definition IN_IGNORED :: "32 word" where "IN_IGNORED = 0x8000"
definition IN_ISDIR :: "32 word" where "IN_ISDIR = 0x40000000"

lemmas in_masks = IN_CLOSE_WRITE_def IN_MOVED_FROM_def IN_MOVED_TO_def IN_CREATE_def IN_DELETE_def
  IN_IGNORED_def IN_ISDIR_def

definition has :: "32 word \<Rightarrow> 32 word \<Rightarrow> bool" where
  "has m bits \<longleftrightarrow> m AND bits \<noteq> 0"

datatype entry = EFile | ESymlink | EOther | EDir "(string \<times> entry) list"

record world =
  add_watch :: "fpath \<Rightarrow> int option"
  listing :: "fpath \<Rightarrow> (string \<times> entry) list"

record watcher =
  m_running :: bool
  m_callback :: bool \<comment> \<open>a callback is registered\<close>
  m_timeout :: int
  m_pending :: "fpath \<rightharpoonup> FileChange"
  m_deadline :: int
  m_watches :: "int \<rightharpoonup> fpath"
  m_created :: "fpath set"
  delivered :: "(fpath \<times> FileChange) list"

definition watcher_init :: watcher where
  "watcher_init = \<lparr>m_running = False, m_callback = False, m_timeout = 10000, m_pending = Map.empty,
     m_deadline = 0, m_watches = Map.empty, m_created = {}, delivered = []\<rparr>"

definition OnFile :: "int \<Rightarrow> watcher \<Rightarrow> watcher" where
  "OnFile timeout w = w\<lparr>m_callback := True, m_timeout := timeout\<rparr>"

section \<open>Notifications\<close>

definition coalesce :: "FileChange option \<Rightarrow> FileChange \<Rightarrow> FileChange" where
  "coalesce previous change = (case previous of None \<Rightarrow> change
     | Some p \<Rightarrow> if p = Added \<and> change = Modified then Added
         else if p = Removed \<and> change = Added then Modified
         else change)"

definition Notify :: "int \<Rightarrow> fpath \<Rightarrow> FileChange \<Rightarrow> watcher \<Rightarrow> watcher" where
  "Notify now path change w =
     w\<lparr>m_pending := (m_pending w)(path \<mapsto> coalesce (m_pending w path) change), m_deadline := now + m_timeout w\<rparr>"

definition FlushIfQuiet :: "int \<Rightarrow> watcher \<Rightarrow> watcher" where
  "FlushIfQuiet now w =
     (if m_pending w = Map.empty \<or> now < m_deadline w then w
      else w\<lparr>m_pending := Map.empty,
        delivered := delivered w @ (if m_callback w
          then map (\<lambda>p. (p, the (m_pending w p))) (map_keys (m_pending w)) else [])\<rparr>)"

text \<open>The wait of \<open>Run\<close> before \<open>poll\<close>: -1 is no time-out.\<close>

definition wait_ms :: "int \<Rightarrow> watcher \<Rightarrow> int" where
  "wait_ms now w = (if m_pending w = Map.empty then -1 else max 0 (m_deadline w - now))"

section \<open>Watches and events\<close>

text \<open>
  \<open>AddWatchTree\<close> on a directory with the given contents. A directory that cannot be watched is
  skipped with everything below it.
\<close>

fun AddWatchTree :: "(fpath \<Rightarrow> int option) \<Rightarrow> int \<Rightarrow> bool \<Rightarrow> fpath \<Rightarrow> entry \<Rightarrow> watcher \<Rightarrow> watcher"
  and add_entries :: "(fpath \<Rightarrow> int option) \<Rightarrow> int \<Rightarrow> bool \<Rightarrow> fpath \<Rightarrow> (string \<times> entry) list \<Rightarrow> watcher \<Rightarrow> watcher" where
  "AddWatchTree aw now reportExisting dir (EDir es) w =
     (case aw dir of None \<Rightarrow> w
      | Some d \<Rightarrow> add_entries aw now reportExisting dir es (w\<lparr>m_watches := (m_watches w)(d \<mapsto> dir)\<rparr>))"
| "AddWatchTree aw now reportExisting dir EFile w = (if reportExisting then Notify now dir Added w else w)"
| "AddWatchTree aw now reportExisting dir ESymlink w = w"
| "AddWatchTree aw now reportExisting dir EOther w = w"
| "add_entries aw now reportExisting dir [] w = w"
| "add_entries aw now reportExisting dir ((n, e) # es) w =
     add_entries aw now reportExisting dir es (AddWatchTree aw now reportExisting (dir @ [n]) e w)"

definition handle_event :: "world \<Rightarrow> int \<Rightarrow> inotify_event \<Rightarrow> watcher \<Rightarrow> watcher" where
  "handle_event W now ev w =
     (if has (mask ev) IN_IGNORED then w\<lparr>m_watches := (m_watches w)(wd ev := None)\<rparr>
      else (case m_watches w (wd ev) of None \<Rightarrow> w
        | Some dir \<Rightarrow>
            if ev_name ev = [] then w
            else
              let path = dir @ [ev_name ev]; isDir = has (mask ev) IN_ISDIR in
              if has (mask ev) (IN_CREATE OR IN_MOVED_TO) then
                if isDir then AddWatchTree (add_watch W) now True path (EDir (listing W path)) w
                else if has (mask ev) IN_MOVED_TO then Notify now path Added w
                else w\<lparr>m_created := insert path (m_created w)\<rparr>
              else if has (mask ev) IN_CLOSE_WRITE then
                if \<not> isDir then Notify now path (if path \<in> m_created w then Added else Modified)
                  (w\<lparr>m_created := m_created w - {path}\<rparr>)
                else w
              else if has (mask ev) (IN_DELETE OR IN_MOVED_FROM) then
                if \<not> isDir then Notify now path Removed (w\<lparr>m_created := m_created w - {path}\<rparr>) else w
              else w))"

definition HandleEvents :: "world \<Rightarrow> int \<Rightarrow> inotify_event list \<Rightarrow> watcher \<Rightarrow> watcher" where
  "HandleEvents W now evs w = fold (handle_event W now) evs w"

text \<open>\<open>Start\<close> on a root directory, and one round of \<open>Run\<close> (\<open>None\<close> when it returns).\<close>

definition watcher_start :: "world \<Rightarrow> int \<Rightarrow> fpath \<Rightarrow> bool \<Rightarrow> bool \<Rightarrow> watcher \<Rightarrow> bool \<times> watcher" where
  "watcher_start W now root is_dir inotify_ok w =
     (if m_running w then (False, w)
      else if \<not> is_dir \<or> \<not> inotify_ok then (False, w\<lparr>m_running := False\<rparr>)
      else (True, AddWatchTree (add_watch W) now False root (EDir (listing W root))
        (w\<lparr>m_running := True, m_watches := Map.empty, m_created := {}, m_pending := Map.empty\<rparr>)))"

definition run_round :: "world \<Rightarrow> int \<Rightarrow> bool \<Rightarrow> inotify_event list \<Rightarrow> watcher \<Rightarrow> watcher option" where
  "run_round W now woken evs w = (if \<not> m_running w \<or> woken then None
     else Some (FlushIfQuiet now (HandleEvents W now evs w)))"

definition watcher_stop :: "watcher \<Rightarrow> watcher" where
  "watcher_stop w = w\<lparr>m_running := False\<rparr>"

section \<open>Coalescing\<close>

text \<open>A batch of notifications, and the changes of one path in it.\<close>

type_synonym notice = "int \<times> fpath \<times> FileChange"

definition notify_all :: "notice list \<Rightarrow> watcher \<Rightarrow> watcher" where
  "notify_all ns w = fold (\<lambda>(t, p, c). Notify t p c) ns w"

definition changes_of :: "fpath \<Rightarrow> notice list \<Rightarrow> FileChange list" where
  "changes_of p ns = map (\<lambda>(t, q, c). c) (filter (\<lambda>(t, q, c). q = p) ns)"

fun merged :: "FileChange option \<Rightarrow> FileChange list \<Rightarrow> FileChange option" where
  "merged o1 [] = o1"
| "merged o1 (c # cs) = merged (Some (coalesce o1 c)) cs"

lemma merged_snoc: "merged o1 (cs @ [c]) = Some (coalesce (merged o1 cs) c)"
  by (induction cs arbitrary: o1) auto

lemma merged_Removed: "cs \<noteq> [] \<Longrightarrow> merged o1 cs = Some c \<Longrightarrow> c = Removed \<longleftrightarrow> last cs = Removed"
  by (cases cs rule: rev_cases) (auto simp: merged_snoc coalesce_def split: option.splits if_splits)

lemma notify_all_snoc: "notify_all (ns @ [(t, p, c)]) w = Notify t p c (notify_all ns w)"
  by (simp add: notify_all_def)

lemma notify_all_fields [simp]:
  "m_timeout (notify_all ns w) = m_timeout w" "m_callback (notify_all ns w) = m_callback w"
  "delivered (notify_all ns w) = delivered w"
  by (induction ns rule: rev_induct) (auto simp: notify_all_snoc Notify_def notify_all_def)

lemma m_pending_notify_all:
  "m_pending (notify_all ns w) p = merged (m_pending w p) (changes_of p ns)"
proof (induction ns rule: rev_induct)
  case Nil
  then show ?case by (simp add: notify_all_def changes_of_def)
next
  case (snoc n ns)
  obtain t q c where "n = (t, q, c)" by (cases n)
  with snoc show ?case
    by (auto simp: notify_all_snoc Notify_def changes_of_def merged_snoc)
qed

lemma changes_of_Nil: "changes_of p ns = [] \<longleftrightarrow> p \<notin> (\<lambda>(t, q, c). q) ` set ns"
  by (force simp: changes_of_def filter_empty_conv)

lemma in_graph: "(q, d) \<in> set (map (\<lambda>p. (p, f p)) xs) \<Longrightarrow> q \<in> set xs \<and> d = f q"
  by auto

lemma dom_notify_all:
  "m_pending w = Map.empty \<Longrightarrow> dom (m_pending (notify_all ns w)) = (\<lambda>(t, q, c). q) ` set ns"
proof -
  assume w: "m_pending w = Map.empty"
  have "merged None cs = None \<longleftrightarrow> cs = []" for cs
    by (cases cs rule: rev_cases) (auto simp: merged_snoc)
  then show ?thesis using w by (auto simp: dom_def m_pending_notify_all changes_of_Nil)
qed

text \<open>
  C29: changes are debounced and coalesced: after any burst of notifications nothing is delivered
  until the time-out has passed since the last of them; then every path touched is delivered once,
  in path order, and nothing is left pending. A path is delivered as removed exactly when the last
  thing that happened to it was its removal.
\<close>

theorem watcher_debounce:
  assumes "m_pending w = Map.empty" and "m_callback w"
  shows "(now < u + m_timeout w \<longrightarrow>
      FlushIfQuiet now (notify_all (ns @ [(u, p, c)]) w) = notify_all (ns @ [(u, p, c)]) w) \<and>
    (\<not> now < u + m_timeout w \<longrightarrow>
      (let t = FlushIfQuiet now (notify_all (ns @ [(u, p, c)]) w); out = drop (length (delivered w)) (delivered t) in
       delivered t = delivered w @ out \<and> m_pending t = Map.empty \<and>
       map fst out = sorted_list_of_set (insert p ((\<lambda>(t, q, c). q) ` set ns)) \<and>
       (\<forall>(q, d) \<in> set out. d = Removed \<longleftrightarrow> last (changes_of q (ns @ [(u, p, c)])) = Removed)))"
proof -
  let ?ns = "ns @ [(u, p, c)]"
  let ?w = "notify_all ?ns w"
  have dl: "m_deadline ?w = u + m_timeout w" by (simp add: notify_all_snoc Notify_def)
  have dom: "dom (m_pending ?w) = insert p ((\<lambda>(t, q, c). q) ` set ns)"
    using dom_notify_all [OF assms(1), of ?ns] by auto
  then have ne: "m_pending ?w \<noteq> Map.empty" by auto
  let ?out = "map (\<lambda>p. (p, the (m_pending ?w p))) (map_keys (m_pending ?w))"
  have fl: "FlushIfQuiet now ?w = ?w\<lparr>m_pending := Map.empty, delivered := delivered w @ ?out\<rparr>"
    if "\<not> now < u + m_timeout w"
    using that ne assms(2) by (simp add: FlushIfQuiet_def dl)
  have keys: "map fst ?out = sorted_list_of_set (insert p ((\<lambda>(t, q, c). q) ` set ns))"
    by (simp add: map_keys_def dom o_def)
  have rem: "d = Removed \<longleftrightarrow> last (changes_of q ?ns) = Removed" if "(q, d) \<in> set ?out" for q d
  proof -
    have "finite (dom (m_pending ?w))" by (simp add: dom)
    then have "set (map_keys (m_pending ?w)) = dom (m_pending ?w)" by (simp add: map_keys_def)
    then have q: "q \<in> dom (m_pending ?w)" "d = the (m_pending ?w q)"
      using in_graph [OF that] by simp_all
    then have "merged None (changes_of q ?ns) = Some d"
      using m_pending_notify_all [of ?ns w q] assms(1) by (auto dest!: sym [of "Some _"])
    moreover have "changes_of q ?ns \<noteq> []" using q(1) dom by (auto simp: changes_of_Nil)
    ultimately show ?thesis using merged_Removed by blast
  qed
  show ?thesis
    using fl keys rem by (auto simp: FlushIfQuiet_def dl Let_def)
qed

theorem watcher_debounce_witness:
  "delivered (FlushIfQuiet 110 (notify_all [(0, [''d'', ''x''], Added), (5, [''d'', ''a''], Removed), (10, [''d'', ''x''], Modified)]
     (OnFile 100 watcher_init))) = [([''d'', ''a''], Removed), ([''d'', ''x''], Added)] \<and>
   delivered (FlushIfQuiet 109 (notify_all [(0, [''d'', ''x''], Added), (10, [''d'', ''x''], Modified)] (OnFile 100 watcher_init))) = []"
proof
  show "delivered (FlushIfQuiet 109 (notify_all [(0, [''d'', ''x''], Added), (10, [''d'', ''x''], Modified)] (OnFile 100 watcher_init))) = []"
    using watcher_debounce [of "OnFile 100 watcher_init" 109 10 "[(0, [''d'', ''x''], Added)]" "[''d'', ''x'']" Modified]
    by (simp add: OnFile_def watcher_init_def)
qed (simp add: FlushIfQuiet_def notify_all_def Notify_def coalesce_def OnFile_def watcher_init_def map_keys_def)

section \<open>New directories\<close>

text \<open>The directories, and the regular files reached through directories only, of a tree.\<close>

fun tree_dirs :: "fpath \<Rightarrow> entry \<Rightarrow> fpath list" and entry_dirs :: "fpath \<Rightarrow> (string \<times> entry) list \<Rightarrow> fpath list" where
  "tree_dirs p (EDir es) = p # entry_dirs p es"
| "tree_dirs p EFile = []"
| "tree_dirs p ESymlink = []"
| "tree_dirs p EOther = []"
| "entry_dirs p [] = []"
| "entry_dirs p ((n, e) # es) = tree_dirs (p @ [n]) e @ entry_dirs p es"

fun tree_files :: "fpath \<Rightarrow> entry \<Rightarrow> fpath list" and entry_files :: "fpath \<Rightarrow> (string \<times> entry) list \<Rightarrow> fpath list" where
  "tree_files p (EDir es) = entry_files p es"
| "tree_files p EFile = [p]"
| "tree_files p ESymlink = []"
| "tree_files p EOther = []"
| "entry_files p [] = []"
| "entry_files p ((n, e) # es) = tree_files (p @ [n]) e @ entry_files p es"

lemma notify_all_append: "notify_all (ms @ ns) w = notify_all ns (notify_all ms w)"
  by (simp add: notify_all_def)

lemma Notify_watches: "Notify t p c (w\<lparr>m_watches := ws\<rparr>) = (Notify t p c w)\<lparr>m_watches := ws\<rparr>"
  by (simp add: Notify_def)

lemma notify_all_watches: "notify_all ns (w\<lparr>m_watches := ws\<rparr>) = (notify_all ns w)\<lparr>m_watches := ws\<rparr>"
  by (induction ns rule: rev_induct) (auto simp: notify_all_def Notify_watches)

lemma m_watches_notify_all [simp]: "m_watches (notify_all ns w) = m_watches w"
  by (induction ns rule: rev_induct) (auto simp: notify_all_def Notify_def)

definition add_watches :: "(fpath \<Rightarrow> int) \<Rightarrow> fpath list \<Rightarrow> (int \<rightharpoonup> fpath) \<Rightarrow> (int \<rightharpoonup> fpath)" where
  "add_watches k ds m = fold (\<lambda>d m. m(k d \<mapsto> d)) ds m"

lemma add_watches_append: "add_watches k (ds @ es) m = add_watches k es (add_watches k ds m)"
  by (simp add: add_watches_def)

lemma add_watches_other: "i \<notin> k ` set ds \<Longrightarrow> add_watches k ds m i = m i"
  unfolding add_watches_def by (induction ds arbitrary: m) auto

lemma add_watches_in: "inj_on k (set ds) \<Longrightarrow> d \<in> set ds \<Longrightarrow> add_watches k ds m (k d) = Some d"
proof (induction ds arbitrary: m rule: rev_induct)
  case (snoc x ds)
  then show ?case by (cases "x = d") (auto simp: add_watches_append add_watches_def inj_on_def)
qed simp

lemma AddWatchTree_eq:
  "(\<And>d. d \<in> set (tree_dirs p e) \<Longrightarrow> aw d = Some (k d)) \<Longrightarrow> AddWatchTree aw now rep p e w =
     (notify_all (if rep then map (\<lambda>q. (now, q, Added)) (tree_files p e) else []) w)
       \<lparr>m_watches := add_watches k (tree_dirs p e) (m_watches w)\<rparr>"
  "(\<And>d. d \<in> set (entry_dirs p es) \<Longrightarrow> aw d = Some (k d)) \<Longrightarrow> add_entries aw now rep p es w =
     (notify_all (if rep then map (\<lambda>q. (now, q, Added)) (entry_files p es) else []) w)
       \<lparr>m_watches := add_watches k (entry_dirs p es) (m_watches w)\<rparr>"
proof (induction aw now rep p e w and aw now rep p es w rule: AddWatchTree_add_entries.induct)
  case (1 aw now rep dir es w)
  then show ?case by (cases rep) (simp_all add: notify_all_watches add_watches_def fun_upd_def)
next
  case (6 aw now rep dir n e es w)
  then show ?case by (cases rep) (simp_all add: notify_all_append add_watches_append notify_all_watches, simp add: notify_all_def)
qed (auto simp: notify_all_def add_watches_def Notify_def)

text \<open>
  No file of a new directory is missed: when a directory appears under the watch (created or
  moved in, with contents the watcher did not see being written), every directory of its tree is
  watched from then on and every regular file in it, and nothing else, is pending as a change;
  links are not followed.
\<close>

theorem new_directory_watched:
  assumes "m_watches w d = Some dir" and "n \<noteq> []" and "move = IN_CREATE \<or> move = IN_MOVED_TO"
    and "\<forall>q \<in> set (tree_dirs (dir @ [n]) (EDir (listing W (dir @ [n])))). add_watch W q = Some (k q)"
    and "inj_on k (set (tree_dirs (dir @ [n]) (EDir (listing W (dir @ [n])))))"
  shows "let t = handle_event W now \<lparr>wd = d, mask = move OR IN_ISDIR, ev_name = n\<rparr> w;
      tree = EDir (listing W (dir @ [n])) in
    (\<forall>q \<in> set (tree_dirs (dir @ [n]) tree). m_watches t (k q) = Some q) \<and>
    dom (m_pending t) = dom (m_pending w) \<union> set (tree_files (dir @ [n]) tree) \<and>
    (\<forall>q. q \<notin> set (tree_files (dir @ [n]) tree) \<longrightarrow> m_pending t q = m_pending w q)"
proof -
  let ?tree = "EDir (listing W (dir @ [n]))"
  let ?ns = "map (\<lambda>q. (now, q, Added)) (tree_files (dir @ [n]) ?tree)"
  let ?t = "handle_event W now \<lparr>wd = d, mask = move OR IN_ISDIR, ev_name = n\<rparr> w"
  have "?t = AddWatchTree (add_watch W) now True (dir @ [n]) ?tree w"
    using assms(1,2,3) by (auto simp: handle_event_def has_def in_masks Let_def)
  also have "\<dots> = (notify_all ?ns w)\<lparr>m_watches := add_watches k (tree_dirs (dir @ [n]) ?tree) (m_watches w)\<rparr>"
    using AddWatchTree_eq(1) [of "dir @ [n]" ?tree "add_watch W" k now True w] assms(4) by simp
  finally have t: "?t = \<dots>" .
  have ch: "changes_of q ?ns = [] \<longleftrightarrow> q \<notin> set (tree_files (dir @ [n]) ?tree)" for q
    by (auto simp: changes_of_Nil image_image)
  have mg: "merged x cs \<noteq> None" if "x \<noteq> None \<or> cs \<noteq> []" for x cs
    using that by (cases cs rule: rev_cases) (auto simp: merged_snoc)
  have pend: "m_pending ?t q = merged (m_pending w q) (changes_of q ?ns)" for q
    by (simp add: t m_pending_notify_all del: tree_files.simps)
  have "q \<in> dom (m_pending ?t) \<longleftrightarrow> q \<in> dom (m_pending w) \<union> set (tree_files (dir @ [n]) ?tree)" for q
    using mg [of "m_pending w q" "changes_of q ?ns"] ch [of q] pend [of q] by (auto simp: dom_def)
  then have "dom (m_pending ?t) = dom (m_pending w) \<union> set (tree_files (dir @ [n]) ?tree)" by blast
  moreover have "m_pending ?t q = m_pending w q" if "q \<notin> set (tree_files (dir @ [n]) ?tree)" for q
    using that ch [of q] pend [of q] by simp
  moreover have "m_watches ?t (k q) = Some q" if "q \<in> set (tree_dirs (dir @ [n]) ?tree)" for q
    using add_watches_in [OF assms(5) that] by (simp add: t)
  ultimately show ?thesis by (simp add: Let_def)
qed

definition demo_world :: world where
  "demo_world = \<lparr>add_watch = (\<lambda>p. Some (int (length p))),
     listing = (\<lambda>p. if p = [''d'', ''new''] then [(''a'', EFile), (''l'', ESymlink), (''sub'', EDir [(''b'', EFile)])] else [])\<rparr>"

theorem new_directory_watched_witness:
  "let t = handle_event demo_world 0 \<lparr>wd = 1, mask = IN_CREATE OR IN_ISDIR, ev_name = ''new''\<rparr> (watcher_init\<lparr>m_watches := [1 \<mapsto> [''d'']]\<rparr>) in
   m_watches t 3 = Some [''d'', ''new'', ''sub''] \<and>
   dom (m_pending t) = {[''d'', ''new'', ''a''], [''d'', ''new'', ''sub'', ''b'']}"
proof -
  have "let t = handle_event demo_world 0 \<lparr>wd = 1, mask = IN_CREATE OR IN_ISDIR, ev_name = ''new''\<rparr> (watcher_init\<lparr>m_watches := [1 \<mapsto> [''d'']]\<rparr>);
      tree = EDir (listing demo_world ([''d''] @ [''new''])) in
    (\<forall>q \<in> set (tree_dirs ([''d''] @ [''new'']) tree). m_watches t (int (length q)) = Some q) \<and>
    dom (m_pending t) = dom (m_pending (watcher_init\<lparr>m_watches := [1 \<mapsto> [''d'']]\<rparr>)) \<union> set (tree_files ([''d''] @ [''new'']) tree) \<and>
    (\<forall>q. q \<notin> set (tree_files ([''d''] @ [''new'']) tree) \<longrightarrow> m_pending t q = m_pending (watcher_init\<lparr>m_watches := [1 \<mapsto> [''d'']]\<rparr>) q)"
    by (rule new_directory_watched) (auto simp: demo_world_def watcher_init_def inj_on_def)
  then show ?thesis by (simp add: Let_def demo_world_def watcher_init_def)
qed

text \<open>
  A directory moved out of the tree is not forgotten: its files are not reported as removed, its
  watch stays, and a later write to a file in it is reported under the path it no longer has.
\<close>

theorem moved_out_directory_stays_watched:
  assumes "m_watches w d = Some dir" and "m_watches w i = Some (dir @ [n])" and "n \<noteq> []" and "f \<noteq> []"
    and "dir @ [n, f] \<notin> m_created w"
  shows "HandleEvents W now [\<lparr>wd = d, mask = IN_MOVED_FROM OR IN_ISDIR, ev_name = n\<rparr>] w = w \<and>
    m_pending (HandleEvents W now [\<lparr>wd = d, mask = IN_MOVED_FROM OR IN_ISDIR, ev_name = n\<rparr>,
      \<lparr>wd = i, mask = IN_CLOSE_WRITE, ev_name = f\<rparr>] w) =
      (m_pending w)(dir @ [n, f] \<mapsto> coalesce (m_pending w (dir @ [n, f])) Modified)"
  using assms by (simp add: HandleEvents_def handle_event_def has_def in_masks Notify_def Let_def)

theorem moved_out_directory_stays_watched_witness:
  "m_pending (HandleEvents demo_world 0 [\<lparr>wd = 1, mask = IN_MOVED_FROM OR IN_ISDIR, ev_name = ''new''\<rparr>,
      \<lparr>wd = 2, mask = IN_CLOSE_WRITE, ev_name = ''a''\<rparr>]
     (watcher_init\<lparr>m_watches := [1 \<mapsto> [''d''], 2 \<mapsto> [''d'', ''new'']]\<rparr>)) = [[''d'', ''new'', ''a''] \<mapsto> Modified]"
  using moved_out_directory_stays_watched [of "watcher_init\<lparr>m_watches := [1 \<mapsto> [''d''], 2 \<mapsto> [''d'', ''new'']]\<rparr>" 1 "[''d'']" 2 "''new''" "''a''" demo_world 0]
  by (simp add: watcher_init_def coalesce_def)

end
