(* ===== verification/Cloud_Node.thy ===== *)
theory Cloud_Node
  imports Client_Safety File_Watcher
begin

text \<open>
  \<open>src/CloudNode.cpp\<close>: what \<open>main\<close> does with the watcher and the client. The callback it registers sends
  every changed file of \<open>--directory\<close> to all peers, unless the change is a removal or the file has just
  been received. The watcher's paths are relative to the directory here, \<open>watched_path\<close> is the path the
  callback sees; the watcher's thread runs the callback, so its calls interleave with the client's.
\<close>

definition watched_path :: "string \<Rightarrow> fpath \<Rightarrow> string" where
  "watched_path directory p = foldl path_append directory p"

definition on_directory_change :: "env \<Rightarrow> string \<Rightarrow> FileChange \<Rightarrow> client \<Rightarrow> client" where
  "on_directory_change E path change st =
     (if change = Removed then st
      else (case TakeReceivedFile E path st of (True, st1) \<Rightarrow> st1 | (False, st1) \<Rightarrow> snd (QueueFileToAll path st1)))"

definition deliver_changes :: "env \<Rightarrow> (string \<times> FileChange) list \<Rightarrow> client \<Rightarrow> client" where
  "deliver_changes E out st = fold (\<lambda>(path, change). on_directory_change E path change) out st"

text \<open>\<open>FlushIfQuiet\<close> with the callback of \<open>main\<close>: what it newly delivers reaches the client.\<close>

definition flush_to_client :: "env \<Rightarrow> string \<Rightarrow> int \<Rightarrow> watcher \<times> client \<Rightarrow> watcher \<times> client" where
  "flush_to_client E directory now ws = (case ws of (w, st) \<Rightarrow>
     let w' = FlushIfQuiet now w in
     (w', deliver_changes E (map (\<lambda>(p, c). (watched_path directory p, c)) (drop (length (delivered w)) (delivered w'))) st))"

text \<open>The condition of the polling loop of \<open>main\<close>.\<close>

definition main_goes_on :: "bool \<Rightarrow> bool \<Rightarrow> client \<Rightarrow> bool" where
  "main_goes_on stop_requested isServer st \<longleftrightarrow> \<not> stop_requested \<and> (isServer \<or> IsRunning st)"

section \<open>Queueing\<close>

definition requests :: "client \<Rightarrow> string \<Rightarrow> FileSpec list" where
  "requests st path = map (\<lambda>(p, r). \<lparr>fs_peer = p, fs_room = r, fs_path = path\<rparr>) (map_keys (m_dataChannels st))"

lemma queue_to_all:
  assumes "m_clientState st \<noteq> CLIENT_EXIT" and "path \<noteq> []" and "\<forall>k \<in> set ks. fst k \<noteq> [] \<and> snd k \<noteq> []"
  shows "queue_to ks path (n, st) = (n + length ks,
    st\<lparr>m_queuedFiles := m_queuedFiles st @ map (\<lambda>(p, r). \<lparr>fs_peer = p, fs_room = r, fs_path = path\<rparr>) ks\<rparr>)"
  using assms
proof (induction ks arbitrary: n st)
  case Nil
  then show ?case by simp
next
  case (Cons k ks)
  obtain p r where k: "k = (p, r)" by (cases k)
  let ?st = "st\<lparr>m_queuedFiles := m_queuedFiles st @ [\<lparr>fs_peer = p, fs_room = r, fs_path = path\<rparr>]\<rparr>"
  have "QueueFile p r path st = (True, ?st)" using Cons.prems k by (simp add: QueueFile_def)
  with Cons.IH [of ?st "n + 1"] Cons.prems k show ?case by simp
qed

definition named_channels :: "client \<Rightarrow> bool" where
  "named_channels st \<longleftrightarrow> finite (dom (m_dataChannels st)) \<and> (\<forall>k \<in> dom (m_dataChannels st). fst k \<noteq> [] \<and> snd k \<noteq> [])"

lemma on_directory_change_eq:
  assumes "m_clientState st \<noteq> CLIENT_EXIT" and "path \<noteq> []" and "named_channels st" and "change \<noteq> Removed"
  shows "on_directory_change E path change st = st\<lparr>m_receivedPaths := m_receivedPaths st - {normal_path E path},
    m_queuedFiles := m_queuedFiles st @ (if normal_path E path \<in> m_receivedPaths st then [] else requests st path)\<rparr>"
proof -
  let ?st = "st\<lparr>m_receivedPaths := m_receivedPaths st - {normal_path E path}\<rparr>"
  have "set (map_keys (m_dataChannels ?st)) = dom (m_dataChannels st)" using assms(3) by (simp add: named_channels_def)
  then have "\<forall>k \<in> set (map_keys (m_dataChannels ?st)). fst k \<noteq> [] \<and> snd k \<noteq> []"
    using assms(3) unfolding named_channels_def by blast
  from queue_to_all [OF _ assms(2) this, of ?st 0] assms(1,4) show ?thesis
    by (auto simp: on_directory_change_def TakeReceivedFile_def QueueFileToAll_def requests_def)
qed

text \<open>The requests a batch of changes leads to.\<close>

fun batch_requests :: "env \<Rightarrow> client \<Rightarrow> (string \<times> FileChange) list \<Rightarrow> FileSpec list" where
  "batch_requests E st [] = []"
| "batch_requests E st ((path, change) # out) =
     (if change = Removed \<or> normal_path E path \<in> m_receivedPaths st then [] else requests st path) @ batch_requests E st out"

definition announced :: "env \<Rightarrow> (string \<times> FileChange) list \<Rightarrow> string set" where
  "announced E out = set (map (normal_path E \<circ> fst) (filter (\<lambda>x. snd x \<noteq> Removed) out))"

lemma batch_requests_cong:
  "m_dataChannels t = m_dataChannels st \<Longrightarrow>
   \<forall>x \<in> set out. normal_path E (fst x) \<in> m_receivedPaths t \<longleftrightarrow> normal_path E (fst x) \<in> m_receivedPaths st \<Longrightarrow>
   batch_requests E t out = batch_requests E st out"
  by (induction out) (auto simp: requests_def)

text \<open>
  C21: a quiet directory is sent once and nothing received is sent back: when a batch of changes of
  different files is delivered, each file that was added or modified is queued exactly once for every
  peer there is a channel to, in the order of the batch, except the files an incoming transfer wrote,
  whose records are used up by it; removals are not announced.
\<close>

theorem changes_sent_once:
  assumes "m_clientState st \<noteq> CLIENT_EXIT" and "named_channels st" and "\<forall>x \<in> set out. fst x \<noteq> []"
    and "distinct (map (normal_path E \<circ> fst) out)"
  shows "deliver_changes E out st = st\<lparr>m_queuedFiles := m_queuedFiles st @ batch_requests E st out,
    m_receivedPaths := m_receivedPaths st - announced E out\<rparr>"
  using assms
proof (induction out arbitrary: st)
  case Nil
  then show ?case by (simp add: deliver_changes_def announced_def)
next
  case (Cons x out)
  obtain path change where x: "x = (path, change)" by (cases x)
  show ?case
  proof (cases "change = Removed")
    case True
    then show ?thesis using Cons.IH [OF Cons.prems(1,2)] Cons.prems(3,4) x
      by (simp add: deliver_changes_def on_directory_change_def announced_def)
  next
    case False
    let ?st = "on_directory_change E path change st"
    have eq: "?st = st\<lparr>m_receivedPaths := m_receivedPaths st - {normal_path E path},
        m_queuedFiles := m_queuedFiles st @ (if normal_path E path \<in> m_receivedPaths st then [] else requests st path)\<rparr>"
      using on_directory_change_eq [OF Cons.prems(1) _ Cons.prems(2) False, of path E] Cons.prems(3) x by simp
    have n: "\<forall>y \<in> set out. normal_path E (fst y) \<noteq> normal_path E path"
    proof (intro ballI notI)
      fix y assume "y \<in> set out" and "normal_path E (fst y) = normal_path E path"
      then have "normal_path E path \<in> set (map (normal_path E \<circ> fst) out)"
        unfolding set_map by (rule_tac image_eqI [of _ _ y]) simp_all
      then show False using Cons.prems(4) x by simp
    qed
    have b: "batch_requests E ?st out = batch_requests E st out"
      by (rule batch_requests_cong) (use n eq in auto)
    have "deliver_changes E out ?st = ?st\<lparr>m_queuedFiles := m_queuedFiles ?st @ batch_requests E ?st out,
        m_receivedPaths := m_receivedPaths ?st - announced E out\<rparr>"
      by (rule Cons.IH) (use Cons.prems eq in \<open>auto simp: named_channels_def\<close>)
    moreover have "deliver_changes E (x # out) st = deliver_changes E out ?st"
      by (simp add: deliver_changes_def x)
    moreover have "m_receivedPaths st - {normal_path E path} - announced E out = m_receivedPaths st - announced E (x # out)"
      using x False by (auto simp: announced_def)
    ultimately show ?thesis unfolding b using x False by (simp add: eq)
  qed
qed

theorem changes_sent_once_witness:
  "deliver_changes demo_env [(''in/a'', Added), (''in/b'', Removed), (''in/c'', Modified)]
     (demo_connected_client\<lparr>m_receivedPaths := {''/w/in/a''}\<rparr>) =
   demo_connected_client\<lparr>m_receivedPaths := {}, m_queuedFiles := [\<lparr>fs_peer = ''bob'', fs_room = ''r'', fs_path = ''in/c''\<rparr>]\<rparr>"
proof -
  have n: "normal_path demo_env ''in/a'' = ''/w/in/a''" "normal_path demo_env ''in/b'' = ''/w/in/b''"
    "normal_path demo_env ''in/c'' = ''/w/in/c''"
    by (simp_all add: normal_path_def demo_env_def demo_transfer_defs)
  have c: "m_clientState demo_connected_client = CLIENT_RUN" "m_queuedFiles demo_connected_client = []"
    "dom (m_dataChannels demo_connected_client) = {(''bob'', ''r'')}"
    by (simp_all add: demo_connected_client_def demo_client_def client_init_def)
  then have k: "map_keys (m_dataChannels demo_connected_client) = [(''bob'', ''r'')]" by (simp add: map_keys_def)
  show ?thesis
    by (subst changes_sent_once) (simp_all add: n c k named_channels_def requests_def announced_def)
qed

section \<open>A received file\<close>

lemma StartNextIncoming_received:
  "StartNextIncoming E q fs received = (q', fs', received') \<Longrightarrow> received \<subseteq> received'"
proof (induction E q fs received arbitrary: q' fs' received' rule: StartNextIncoming.induct)
  case (2 E f q fs received)
  then show ?case by (auto simp: Let_def split: if_splits option.splits prod.splits bool.splits)
qed simp

lemma start_next_received: "m_receivedPaths st \<subseteq> m_receivedPaths (start_next E k q st)"
  using StartNextIncoming_received by (auto simp: start_next_def put_queue_def split: prod.splits)

lemma start_next_frame [simp, frame_simps]:
  "m_dataChannels (start_next E k q st) = m_dataChannels st" "m_queuedFiles (start_next E k q st) = m_queuedFiles st"
  "m_clientState (start_next E k q st) = m_clientState st"
  by (auto simp: start_next_def put_queue_def split: prod.splits)

text \<open>
  A file that has just been received is not sent back to the peers: when the last chunk of a transfer
  has been written, the watcher's report of that file queues nothing, and only a further change of it,
  reported in a later batch, is sent, to every peer.
\<close>

theorem received_file_not_echoed:
  assumes "m_incomingFiles st (peer, room) = Some (f # q)" and "stream f" and "write_ok E"
    and "int (written f + length bs) = expectedSize f" and "named_channels st"
    and "path \<noteq> []" and "normal_path E path = normal_path E (destination f)" and "change \<noteq> Removed" and "change' \<noteq> Removed"
  shows "let t = OnIncomingChunk E peer room bs st; u = on_directory_change E path change t in
    m_queuedFiles u = m_queuedFiles st \<and>
    m_queuedFiles (on_directory_change E path change' u) = m_queuedFiles st @ requests st path"
proof -
  let ?t = "OnIncomingChunk E peer room bs st"
  have t: "\<exists>s0. ?t = (start_next E (peer, room) q s0)\<lparr>m_clientState := CLIENT_RUN\<rparr> \<and>
      normal_path E (destination f) \<in> m_receivedPaths s0 \<and> m_dataChannels s0 = m_dataChannels st \<and>
      m_queuedFiles s0 = m_queuedFiles st"
    using assms(1-4) by (simp add: OnIncomingChunk_def Let_def) (rule exI, rule conjI, rule refl, simp)
  then obtain s0 where "?t = (start_next E (peer, room) q s0)\<lparr>m_clientState := CLIENT_RUN\<rparr>"
      "normal_path E (destination f) \<in> m_receivedPaths s0" "m_dataChannels s0 = m_dataChannels st"
      "m_queuedFiles s0 = m_queuedFiles st" by blast
  then have r: "normal_path E path \<in> m_receivedPaths ?t" "m_dataChannels ?t = m_dataChannels st"
      "m_queuedFiles ?t = m_queuedFiles st" "m_clientState ?t = CLIENT_RUN"
    using subsetD [OF start_next_received [of s0 E "(peer, room)" q], of "normal_path E path"] assms(7) by simp_all
  let ?u = "on_directory_change E path change ?t"
  have u: "?u = ?t\<lparr>m_receivedPaths := m_receivedPaths ?t - {normal_path E path}, m_queuedFiles := m_queuedFiles ?t\<rparr>"
    using on_directory_change_eq [of ?t path change E] r assms(5,6,8) by (simp add: named_channels_def)
  have "on_directory_change E path change' ?u = ?u\<lparr>m_receivedPaths := m_receivedPaths ?u - {normal_path E path},
      m_queuedFiles := m_queuedFiles ?u @ requests ?u path\<rparr>"
    using on_directory_change_eq [of ?u path change' E] r assms(5,6,9) by (simp add: named_channels_def u)
  then show ?thesis using r by (simp add: Let_def u requests_def)
qed

definition demo_receiver :: client where
  "demo_receiver = demo_connected_client\<lparr>m_incomingFiles := [(''bob'', ''r'') \<mapsto>
     [\<lparr>lock = None, stream = True, written = 2, expectedSize = 3, destination = ''in/a''\<rparr>]]\<rparr>"

theorem received_file_not_echoed_witness:
  "let t = OnIncomingChunk demo_env ''bob'' ''r'' ''c'' demo_receiver; u = on_directory_change demo_env ''./in/a'' Added t in
    m_queuedFiles u = [] \<and> m_queuedFiles (on_directory_change demo_env ''./in/a'' Modified u) = requests demo_receiver ''./in/a''"
proof -
  have n: "normal_path demo_env ''in/a'' = ''/w/in/a''" "normal_path demo_env ''./in/a'' = ''/w/in/a''"
    by (simp_all add: normal_path_def demo_env_def demo_transfer_defs)
  have c: "named_channels demo_receiver" "m_queuedFiles demo_receiver = []"
    "m_incomingFiles demo_receiver (''bob'', ''r'') =
      Some [\<lparr>lock = None, stream = True, written = 2, expectedSize = 3, destination = ''in/a''\<rparr>]"
    by (simp_all add: demo_receiver_def demo_connected_client_def demo_client_def client_init_def named_channels_def)
  have w: "write_ok demo_env" by (simp add: demo_env_def)
  show ?thesis
    using received_file_not_echoed [OF c(3) _ w, of "''c''" "''./in/a''" Added Modified] c(1,2) n by simp
qed

end
