(* ===== verification/Signal_Server.thy ===== *)
theory Signal_Server
  imports Rooms Message_Port Message_Router
begin

text \<open>
  \<open>src/WebRTCServer.cpp\<close>: every handler of the signalling server, over the state it inherits
  (\<open>webrtc\<close>), its client table \<open>m_clientDB\<close> of raw socket pointers, and the transport. A handler
  returns \<open>None\<close> when it would use a socket that is gone or fail an assertion of the JSON library.
  \<open>writer\<close> is the JSON writer and \<open>sent_ok\<close> the result of \<open>send\<close>. Events of the transport
  (\<open>server_open\<close>, \<open>server_message\<close>, \<open>server_close\<close>) are the callbacks the base class installs;
  \<open>server_step\<close> is their interleaving.
\<close>

record server = webrtc +
  m_clientDB :: "string \<rightharpoonup> ws"
  net :: port_server

definition server_init :: "port_server \<Rightarrow> server" where
  "server_init p = \<lparr>m_rooms = Map.empty, m_currentWebSocket = None, m_clientDB = Map.empty, net = p\<rparr>"

text \<open>\<open>auto ws = CurrentWebSocket(); if (!ws) return; ws->getUserData()->x_client_id\<close>.\<close>

definition with_client :: "server \<Rightarrow> (ws \<Rightarrow> string \<Rightarrow> server option) \<Rightarrow> server option" where
  "with_client st k = (case m_currentWebSocket st of None \<Rightarrow> Some st
     | Some w \<Rightarrow> (case ws_data (net st) w of None \<Rightarrow> None | Some cid \<Rightarrow> k w cid))"

definition send_to :: "ws \<Rightarrow> string \<Rightarrow> server \<Rightarrow> server option" where
  "send_to w msg st = map_option (\<lambda>p. st\<lparr>net := p\<rparr>) (ws_send w msg (net st))"

definition Server_OnPingPong :: "doc \<Rightarrow> server \<Rightarrow> server option" where
  "Server_OnPingPong doc st = with_client st (\<lambda>w peer.
     send_to w (''{\"type\" : \"pong\", \"id\" : \"'' @ peer @ ''\"}'') st)"

definition join_doc :: "string \<Rightarrow> string \<Rightarrow> string set \<Rightarrow> json" where
  "join_doc whoJoined room peers = JObj [(''type'', JStr ''peer_joined''), (''peerId'', JCstr whoJoined),
     (''room'', JCstr room), (''peers'', JArr (map JCstr (sorted_list_of_set peers)))]"

definition SendJoinNotification ::
    "(json \<Rightarrow> string) \<Rightarrow> string \<Rightarrow> string \<Rightarrow> string \<Rightarrow> string set \<Rightarrow> server \<Rightarrow> server option" where
  "SendJoinNotification writer whoToNotify whoJoined room peers st =
     (case m_clientDB st whoToNotify of None \<Rightarrow> Some st
      | Some w \<Rightarrow> send_to w (writer (join_doc whoJoined room peers)) st)"

definition Server_OnJoin :: "(json \<Rightarrow> string) \<Rightarrow> doc \<Rightarrow> server \<Rightarrow> server option" where
  "Server_OnJoin writer doc st = with_client st (\<lambda>w peer.
     case string_at doc ''room'' of None \<Rightarrow> Some st
     | Some room \<Rightarrow>
         (case Join peer room st of (joined, st1) \<Rightarrow>
            if \<not> joined then Some st1
            else let st2 = st1\<lparr>m_clientDB := (m_clientDB st1)(peer \<mapsto> w)\<rparr>;
                     peers = members st2 room
                 in each (\<lambda>u. SendJoinNotification writer u peer room peers) (sorted_list_of_set peers) st2))"

definition leave_doc :: "string \<Rightarrow> string \<Rightarrow> string set \<Rightarrow> json" where
  "leave_doc whoLeft room peers = JObj [(''type'', JStr ''peer_left''), (''peerId'', JCstr whoLeft),
     (''room'', JCstr room), (''peers'', JArr (map JCstr (sorted_list_of_set peers)))]"

definition SendLeaveNotification ::
    "(json \<Rightarrow> string) \<Rightarrow> string \<Rightarrow> string \<Rightarrow> string \<Rightarrow> string set \<Rightarrow> server \<Rightarrow> server option" where
  "SendLeaveNotification writer whoToNotify whoLeft room peers st =
     (case m_clientDB st whoToNotify of None \<Rightarrow> Some st
      | Some w \<Rightarrow> send_to w (writer (leave_doc whoLeft room peers)) st)"

definition Server_Leave :: "(json \<Rightarrow> string) \<Rightarrow> string \<Rightarrow> string \<Rightarrow> server \<Rightarrow> server option" where
  "Server_Leave writer peer room st =
     (case room_index room (snd (Leave peer room st)) of (peers, st1) \<Rightarrow>
        each (\<lambda>u. SendLeaveNotification writer u peer room peers) (sorted_list_of_set peers) st1)"

definition Server_OnLeave :: "(json \<Rightarrow> string) \<Rightarrow> doc \<Rightarrow> server \<Rightarrow> server option" where
  "Server_OnLeave writer doc st = with_client st (\<lambda>w peer.
     case string_at doc ''room'' of None \<Rightarrow> Some st | Some room \<Rightarrow> Server_Leave writer peer room st)"

section \<open>Relaying\<close>

text \<open>The document with the sender's identity in place of the target's.\<close>

definition relayed :: "string \<Rightarrow> doc \<Rightarrow> json" where
  "relayed from doc = JObj (set_string ''peer'' from doc)"

definition HandleFile ::
    "(ws \<Rightarrow> string \<Rightarrow> bool) \<Rightarrow> (json \<Rightarrow> string) \<Rightarrow> doc \<Rightarrow> server \<Rightarrow> (bool \<times> server) option" where
  "HandleFile sent_ok writer doc st =
     (case (string_at doc ''room'', string_at doc ''peer'', object_at doc ''file'') of
        (Some room, Some peerId, Some file) \<Rightarrow>
          (case m_currentWebSocket st of
             None \<Rightarrow> Some (False, st)
           | Some w \<Rightarrow> (case ws_data (net st) w of
               None \<Rightarrow> None
             | Some fromId \<Rightarrow> (case room_index room st of (peers, st1) \<Rightarrow>
                 if fromId \<notin> peers \<or> peerId \<notin> peers then Some (False, st1)
                 else (case m_clientDB st1 peerId of
                     None \<Rightarrow> Some (False, st1)
                   | Some toWs \<Rightarrow> map_option (\<lambda>t. (sent_ok toWs (writer (relayed fromId doc)), t))
                       (send_to toWs (writer (relayed fromId doc)) st1)))))
      | _ \<Rightarrow> Some (False, st))"

text \<open>The log line of \<open>OnFileOffer\<close> and \<open>OnFileAccept\<close> reads \<open>doc["peer"]\<close> before it is checked.\<close>

definition Server_OnFileOffer ::
    "(ws \<Rightarrow> string \<Rightarrow> bool) \<Rightarrow> (json \<Rightarrow> string) \<Rightarrow> doc \<Rightarrow> server \<Rightarrow> server option" where
  "Server_OnFileOffer sent_ok writer doc st =
     (case object_at doc ''file'' of None \<Rightarrow> Some st
      | Some file \<Rightarrow>
          if string_at file ''name'' = None \<or> int64_at file ''size'' = None \<or>
             string_at file ''mimeType'' = None then Some st
          else with_client st (\<lambda>w cid.
            case string_at doc ''peer'' of None \<Rightarrow> None
            | Some logged \<Rightarrow> map_option snd (HandleFile sent_ok writer doc st)))"

definition Server_OnFileComplete :: "(json \<Rightarrow> string) \<Rightarrow> doc \<Rightarrow> server \<Rightarrow> server option" where
  "Server_OnFileComplete writer doc st =
     (case (string_at doc ''peer'', string_at doc ''room'') of
        (Some peer, Some room) \<Rightarrow> with_client st (\<lambda>w from.
          case m_rooms st room of None \<Rightarrow> Some st
          | Some ps \<Rightarrow>
              if from \<notin> ps \<or> peer \<notin> ps then Some st
              else (case m_clientDB st peer of None \<Rightarrow> Some st
                | Some recipient \<Rightarrow> send_to recipient (writer (relayed from doc)) st))
      | _ \<Rightarrow> Some st)"

definition Server_OnOffer :: "(json \<Rightarrow> string) \<Rightarrow> doc \<Rightarrow> server \<Rightarrow> server option" where
  "Server_OnOffer writer doc st =
     (case (string_at doc ''peer'', string_at doc ''room'', array_at doc ''descriptions'') of
        (Some peer, Some room, Some descriptions) \<Rightarrow>
          (case m_rooms st room of None \<Rightarrow> Some st
           | Some ps \<Rightarrow> with_client st (\<lambda>w from.
               if from \<notin> ps \<or> peer \<notin> ps then Some st
               else (case m_clientDB st peer of None \<Rightarrow> Some st
                 | Some toWs \<Rightarrow> send_to toWs (writer (relayed from doc)) st)))
      | _ \<Rightarrow> Some st)"

definition Server_OnAnswer :: "(json \<Rightarrow> string) \<Rightarrow> doc \<Rightarrow> server \<Rightarrow> server option" where
  "Server_OnAnswer writer doc st =
     (case (string_at doc ''peer'', string_at doc ''sdp'') of
        (Some peer, Some sdp) \<Rightarrow>
          (case m_clientDB st peer of None \<Rightarrow> Some st
           | Some toWs \<Rightarrow> with_client st (\<lambda>w from. send_to toWs (writer (relayed from doc)) st))
      | _ \<Rightarrow> Some st)"

definition Server_OnCandidate :: "(json \<Rightarrow> string) \<Rightarrow> doc \<Rightarrow> server \<Rightarrow> server option" where
  "Server_OnCandidate writer doc st =
     (case (string_at doc ''peer'', string_at doc ''candidate'', string_at doc ''mid'') of
        (Some peer, Some cand, Some mid) \<Rightarrow>
          (case m_clientDB st peer of None \<Rightarrow> Some st
           | Some toWs \<Rightarrow> with_client st (\<lambda>w from. send_to toWs (writer (relayed from doc)) st))
      | _ \<Rightarrow> Some st)"

definition Server_OnFileAccept ::
    "(ws \<Rightarrow> string \<Rightarrow> bool) \<Rightarrow> (json \<Rightarrow> string) \<Rightarrow> doc \<Rightarrow> server \<Rightarrow> server option" where
  "Server_OnFileAccept sent_ok writer doc st =
     (case object_at doc ''file'' of None \<Rightarrow> Some st
      | Some file \<Rightarrow>
          if string_at file ''name'' = None then Some st
          else with_client st (\<lambda>w cid.
            case string_at doc ''peer'' of None \<Rightarrow> None
            | Some logged \<Rightarrow> map_option snd (HandleFile sent_ok writer doc st)))"

definition Server_OnFileReject ::
    "(ws \<Rightarrow> string \<Rightarrow> bool) \<Rightarrow> (json \<Rightarrow> string) \<Rightarrow> doc \<Rightarrow> server \<Rightarrow> server option" where
  "Server_OnFileReject sent_ok writer doc st =
     (case object_at doc ''file'' of None \<Rightarrow> Some st
      | Some file \<Rightarrow>
          if string_at file ''name'' = None \<or> string_at doc ''peer'' = None then Some st
          else map_option snd (HandleFile sent_ok writer doc st))"

section \<open>The events of the transport\<close>

definition Server_OnMessageOpen :: "string \<Rightarrow> server \<Rightarrow> server" where
  "Server_OnMessageOpen peer st = st"

text \<open>The loop over \<open>m_rooms\<close>: \<open>Leave\<close> adds no room while the room it is given exists.\<close>

definition Server_OnMessageClose :: "(json \<Rightarrow> string) \<Rightarrow> server \<Rightarrow> server option" where
  "Server_OnMessageClose writer st = with_client st (\<lambda>w peer.
     each (\<lambda>room u. if peer \<in> members u room then Server_Leave writer peer room u else Some u)
       (map_keys (m_rooms st)) st)"

fun server_handle ::
    "(ws \<Rightarrow> string \<Rightarrow> bool) \<Rightarrow> (json \<Rightarrow> string) \<Rightarrow> handler \<Rightarrow> doc \<Rightarrow> server \<Rightarrow> server option" where
  "server_handle sent_ok writer HJoin doc st = Server_OnJoin writer doc st"
| "server_handle sent_ok writer HLeave doc st = Server_OnLeave writer doc st"
| "server_handle sent_ok writer HFileAccept doc st = Server_OnFileAccept sent_ok writer doc st"
| "server_handle sent_ok writer HFileReject doc st = Server_OnFileReject sent_ok writer doc st"
| "server_handle sent_ok writer HOffer doc st = Server_OnOffer writer doc st"
| "server_handle sent_ok writer HAnswer doc st = Server_OnAnswer writer doc st"
| "server_handle sent_ok writer HCandidate doc st = Server_OnCandidate writer doc st"
| "server_handle sent_ok writer HFileOffer doc st = Server_OnFileOffer sent_ok writer doc st"
| "server_handle sent_ok writer HFileComplete doc st = Server_OnFileComplete writer doc st"
| "server_handle sent_ok writer HPingPong doc st = Server_OnPingPong doc st"

definition server_open :: "ws \<Rightarrow> string \<Rightarrow> server \<Rightarrow> server" where
  "server_open w cid st = Server_OnMessageOpen cid
     (st\<lparr>m_currentWebSocket := Some w, net := PortServer_open w (PortServer_upgrade w cid (net st))\<rparr>)"

definition server_message :: "(ws \<Rightarrow> string \<Rightarrow> bool) \<Rightarrow> (json \<Rightarrow> string) \<Rightarrow> (string \<Rightarrow> json option) \<Rightarrow>
    ws \<Rightarrow> string \<Rightarrow> server \<Rightarrow> server option" where
  "server_message sent_ok writer parse w text st =
     MessageRouter (server_handle sent_ok writer) parse text (st\<lparr>m_currentWebSocket := Some w\<rparr>)"

definition server_close :: "(json \<Rightarrow> string) \<Rightarrow> ws \<Rightarrow> server \<Rightarrow> server option" where
  "server_close writer w st =
     map_option (\<lambda>t. t\<lparr>net := PortServer_free w (net t)\<rparr>)
       (Server_OnMessageClose writer
          (st\<lparr>m_currentWebSocket := Some w, net := PortServer_close w (net st)\<rparr>))"

inductive server_step :: "(ws \<Rightarrow> string \<Rightarrow> bool) \<Rightarrow> (json \<Rightarrow> string) \<Rightarrow> (string \<Rightarrow> json option) \<Rightarrow>
    server \<Rightarrow> server \<Rightarrow> bool"
  for sent_ok :: "ws \<Rightarrow> string \<Rightarrow> bool" and writer :: "json \<Rightarrow> string" and parse :: "string \<Rightarrow> json option" where
  sv_open: "ws_data (net s) w = None \<Longrightarrow> server_step sent_ok writer parse s (server_open w cid s)"
| sv_message: "ws_data (net s) w \<noteq> None \<Longrightarrow> server_message sent_ok writer parse w text s = Some t \<Longrightarrow>
     server_step sent_ok writer parse s t"
| sv_close: "ws_data (net s) w \<noteq> None \<Longrightarrow> server_close writer w s = Some t \<Longrightarrow>
     server_step sent_ok writer parse s t"

abbreviation server_reach where
  "server_reach sent_ok writer parse \<equiv>
     reach (\<lambda>s. s = server_init port_server_init) (server_step sent_ok writer parse)"

end
