(* ===== verification/Server_Facts.thy ===== *)
theory Server_Facts
  imports Signal_Server
begin

text \<open>
  What the signalling server keeps true and what its handlers send. \<open>server_inv\<close> says that the
  members of every room have a live socket of their own in the client table; the handlers are shown
  to keep it and, under it, to send exactly the messages they should (\<open>deliver\<close>).
\<close>

definition deliver :: "(ws \<times> string) list \<Rightarrow> server \<Rightarrow> server" where
  "deliver msgs st = st\<lparr>net := (net st)\<lparr>outgoing := outgoing (net st) @ msgs\<rparr>\<rparr>"

lemma deliver_fields [simp, frame_simps]:
  "m_rooms (deliver msgs st) = m_rooms st" "m_currentWebSocket (deliver msgs st) = m_currentWebSocket st"
  "m_clientDB (deliver msgs st) = m_clientDB st" "ws_data (net (deliver msgs st)) = ws_data (net st)"
  "clients (net (deliver msgs st)) = clients (net st)"
  "outgoing (net (deliver msgs st)) = outgoing (net st) @ msgs"
  "members (deliver msgs st) = members st"
  by (simp_all add: deliver_def members_def fun_eq_iff)

lemma deliver_Nil [simp]: "deliver [] st = st"
  by (simp add: deliver_def)

lemma deliver_deliver [simp]: "deliver b (deliver a st) = deliver (a @ b) st"
  by (simp add: deliver_def)

lemma send_to_eq:
  "send_to w msg st = (if ws_data (net st) w = None then None else Some (deliver [(w, msg)] st))"
  by (simp add: send_to_def ws_send_def deliver_def)

section \<open>The invariant\<close>

definition server_inv :: "server \<Rightarrow> bool" where
  "server_inv s \<longleftrightarrow> port_inv (net s) \<and> finite (dom (m_rooms s)) \<and> (\<forall>r. finite (members s r)) \<and>
     (\<forall>r p. p \<in> members s r \<longrightarrow> (\<exists>w. m_clientDB s p = Some w \<and> ws_data (net s) w = Some p))"

lemma server_invD:
  "server_inv s \<Longrightarrow> port_inv (net s)" "server_inv s \<Longrightarrow> finite (dom (m_rooms s))"
  "server_inv s \<Longrightarrow> finite (members s r)"
  "server_inv s \<Longrightarrow> p \<in> members s r \<Longrightarrow> \<exists>w. m_clientDB s p = Some w \<and> ws_data (net s) w = Some p"
  by (auto simp: server_inv_def)

lemma server_invI:
  assumes "port_inv (net s)" and "finite (dom (m_rooms s))" and "\<And>r. finite (members s r)"
    and "\<And>r p. p \<in> members s r \<Longrightarrow> \<exists>w. m_clientDB s p = Some w \<and> ws_data (net s) w = Some p"
  shows "server_inv s"
  using assms by (simp add: server_inv_def)

lemma server_inv_init: "server_inv (server_init port_server_init)"
  by (auto simp: server_inv_def server_init_def members_def port_inv_init)

lemma server_inv_deliver [simp]: "server_inv (deliver msgs st) = server_inv st"
  by (simp add: server_inv_def) (simp add: port_inv_def)

lemma server_inv_current [simp]: "server_inv (st\<lparr>m_currentWebSocket := x\<rparr>) = server_inv st"
  by (simp add: server_inv_def members_def)

lemma members_update [simp]:
  "members (st\<lparr>m_clientDB := c\<rparr>) = members st" "members (st\<lparr>net := p\<rparr>) = members st"
  "members (st\<lparr>m_currentWebSocket := x\<rparr>) = members st"
  by (simp_all add: members_def fun_eq_iff)

lemma server_inv_net:
  assumes "server_inv st" and "port_inv p"
    and "\<And>q r. q \<in> members st r \<Longrightarrow> \<exists>v. m_clientDB st q = Some v \<and> ws_data p v = Some q"
  shows "server_inv (st\<lparr>net := p\<rparr>)"
  by (rule server_invI) (simp_all add: assms(2,3) server_invD(2,3) [OF assms(1)])

text \<open>The room operations, as they act on a server.\<close>

lemma room_op_frame [simp, frame_simps]:
  "m_clientDB (snd (room_index r st)) = m_clientDB st" "net (snd (room_index r st)) = net st"
  "m_currentWebSocket (snd (room_index r st)) = m_currentWebSocket st"
  "m_clientDB (snd (Join p r st)) = m_clientDB st" "net (snd (Join p r st)) = net st"
  "m_currentWebSocket (snd (Join p r st)) = m_currentWebSocket st"
  "m_clientDB (snd (Leave p r st)) = m_clientDB st" "net (snd (Leave p r st)) = net st"
  "m_currentWebSocket (snd (Leave p r st)) = m_currentWebSocket st"
  by (auto simp: room_defs split: option.splits)

lemma finite_dom_rooms [simp]:
  "finite (dom (m_rooms (snd (room_index r st)))) = finite (dom (m_rooms st))"
  "finite (dom (m_rooms (snd (Join p r st)))) = finite (dom (m_rooms st))"
  "finite (dom (m_rooms (snd (Leave p r st)))) = finite (dom (m_rooms st))"
  by (auto simp: room_defs split: option.splits)

lemma server_inv_room_index [inv_intros]: "server_inv st \<Longrightarrow> server_inv (snd (room_index r st))"
  by (simp add: server_inv_def)

lemma server_inv_Leave [inv_intros]: "server_inv st \<Longrightarrow> server_inv (snd (Leave p r st))"
  by (auto simp: server_inv_def rooms.mem_leave)

lemma server_inv_Join [inv_intros]:
  assumes "server_inv st" and "ws_data (net st) w = Some p"
  shows "server_inv ((snd (Join p r st))\<lparr>m_clientDB := (m_clientDB st)(p \<mapsto> w)\<rparr>)"
  using assms by (auto simp: server_inv_def rooms.mem_join split: if_splits)

section \<open>Notifications\<close>

definition notices :: "string \<Rightarrow> server \<Rightarrow> string set \<Rightarrow> (ws \<times> string) list" where
  "notices msg st peers = map (\<lambda>u. (the (m_clientDB st u), msg)) (sorted_list_of_set peers)"

lemma notify_all:
  assumes "\<And>u. u \<in> set us \<Longrightarrow> \<exists>w. m_clientDB st u = Some w \<and> ws_data (net st) w \<noteq> None"
  shows "each (\<lambda>u st. case m_clientDB st u of None \<Rightarrow> Some st | Some w \<Rightarrow> send_to w msg st) us st =
    Some (deliver (map (\<lambda>u. (the (m_clientDB st u), msg)) us) st)"
  using assms
proof (induction us arbitrary: st)
  case Nil
  then show ?case by simp
next
  case (Cons u us)
  from Cons.prems [of u] obtain w where w: "m_clientDB st u = Some w" "ws_data (net st) w \<noteq> None"
    by auto
  have "each (\<lambda>u st. case m_clientDB st u of None \<Rightarrow> Some st | Some w \<Rightarrow> send_to w msg st) us
      (deliver [(w, msg)] st) = Some (deliver (map (\<lambda>u. (the (m_clientDB st u), msg)) us) (deliver [(w, msg)] st))"
    using Cons.IH [of "deliver [(w, msg)] st"] Cons.prems by simp
  with w show ?case by (simp add: send_to_eq)
qed

lemma notify_members:
  assumes "server_inv st" and "S \<subseteq> members st r"
  shows "each (\<lambda>u. SendJoinNotification writer u p r S) (sorted_list_of_set S) st =
      Some (deliver (notices (writer (join_doc p r S)) st S) st)"
    and "each (\<lambda>u. SendLeaveNotification writer u p r S) (sorted_list_of_set S) st =
      Some (deliver (notices (writer (leave_doc p r S)) st S) st)"
proof -
  have "finite S" using assms by (meson finite_subset server_invD(3))
  then have "\<exists>w. m_clientDB st u = Some w \<and> ws_data (net st) w \<noteq> None"
    if "u \<in> set (sorted_list_of_set S)" for u
    using that assms by (force dest: server_invD(4))
  from notify_all [OF this]
  show "each (\<lambda>u. SendJoinNotification writer u p r S) (sorted_list_of_set S) st =
      Some (deliver (notices (writer (join_doc p r S)) st S) st)"
    and "each (\<lambda>u. SendLeaveNotification writer u p r S) (sorted_list_of_set S) st =
      Some (deliver (notices (writer (leave_doc p r S)) st S) st)"
    by (simp_all add: SendJoinNotification_def [abs_def] SendLeaveNotification_def [abs_def] notices_def)
qed

section \<open>Joining and leaving\<close>

lemma Server_OnJoin_eq:
  assumes "server_inv st" and "m_currentWebSocket st = Some w" and "ws_data (net st) w = Some p"
    and "string_at doc ''room'' = Some r"
  shows "Server_OnJoin writer doc st =
    (if p \<in> members st r then Some (snd (Join p r st))
     else let S = insert p (members st r);
              st2 = (snd (Join p r st))\<lparr>m_clientDB := (m_clientDB st)(p \<mapsto> w)\<rparr>
          in Some (deliver (notices (writer (join_doc p r S)) st2 S) st2))"
proof -
  let ?st2 = "(snd (Join p r st))\<lparr>m_clientDB := (m_clientDB st)(p \<mapsto> w)\<rparr>"
  have m: "members ?st2 r = insert p (members st r)"
    by (simp add: rooms.mem_join)
  have inv: "server_inv ?st2" by (rule server_inv_Join [OF assms(1,3)])
  have "insert p (members st r) \<subseteq> members ?st2 r" by (simp add: rooms.mem_join)
  note n = notify_members(1) [OF inv this, of writer p]
  show ?thesis
    unfolding Server_OnJoin_def with_client_def
    using assms(2-4) m n
    by (simp add: case_prod_unfold rooms.fst_join Let_def del: members_update)
qed

lemma Server_Leave_eq:
  assumes "server_inv st"
  shows "Server_Leave writer p r st =
    (let S = members st r - {p} in
     Some (deliver (notices (writer (leave_doc p r S)) st S) (snd (room_index r (snd (Leave p r st))))))"
proof -
  let ?st1 = "snd (Leave p r st)"
  let ?st2 = "snd (room_index r ?st1)"
  have i: "room_index r ?st1 = (members st r - {p}, ?st2)"
    by (metis fst_room_index fun_upd_same prod.collapse rooms.mem_leave)
  have inv: "server_inv ?st2" using assms by (intro inv_intros)
  have "members st r - {p} \<subseteq> members ?st2 r" by (simp add: rooms.mem_leave)
  from notify_members(2) [OF inv this, of writer p] show ?thesis
    unfolding Server_Leave_def by (subst i) (simp add: Let_def notices_def)
qed

lemma Server_Leave_Some:
  assumes "server_inv st" and "Server_Leave writer p r st = Some t"
  shows "server_inv t" "members t = (members st)(r := members st r - {p})"
    "m_clientDB t = m_clientDB st" "ws_data (net t) = ws_data (net st)"
    "m_currentWebSocket t = m_currentWebSocket st" "clients (net t) = clients (net st)"
    "outgoing (net t) = outgoing (net st) @
       notices (writer (leave_doc p r (members st r - {p}))) st (members st r - {p})"
  using assms
  by (auto simp: Server_Leave_eq Let_def rooms.mem_leave intro!: inv_intros)

abbreviation leave_rooms where
  "leave_rooms writer p \<equiv>
     each (\<lambda>room u. if p \<in> members u room then Server_Leave writer p room u else Some u)"

definition leave_notices :: "(json \<Rightarrow> string) \<Rightarrow> string \<Rightarrow> server \<Rightarrow> string \<Rightarrow> (ws \<times> string) list" where
  "leave_notices writer p st r =
     notices (writer (leave_doc p r (members st r - {p}))) st (members st r - {p})"

lemma leave_all_rooms:
  assumes "server_inv st" and "distinct rs"
  shows "\<exists>t. leave_rooms writer p rs st = Some t \<and> server_inv t \<and>
    members t = (\<lambda>r. members st r - (if r \<in> set rs then {p} else {})) \<and>
    m_clientDB t = m_clientDB st \<and> ws_data (net t) = ws_data (net st) \<and>
    clients (net t) = clients (net st) \<and>
    outgoing (net t) = outgoing (net st) @
      concat (map (leave_notices writer p st) (filter (\<lambda>r. p \<in> members st r) rs))"
  using assms
proof (induction rs arbitrary: st)
  case Nil
  then show ?case by (simp add: fun_eq_iff)
next
  case (Cons r rs)
  show ?case
  proof (cases "p \<in> members st r")
    case False
    with Cons.IH [OF Cons.prems(1)] Cons.prems(2) show ?thesis by (auto simp: fun_eq_iff)
  next
    case True
    obtain u where u: "Server_Leave writer p r st = Some u"
      using Cons.prems by (simp add: Server_Leave_eq Let_def)
    note f = Server_Leave_Some [OF Cons.prems(1) u]
    have "map (leave_notices writer p u) (filter (\<lambda>r. p \<in> members u r) rs) =
        map (leave_notices writer p st) (filter (\<lambda>r. p \<in> members st r) rs)"
      using f(2,3) Cons.prems(2)
      by (auto simp: leave_notices_def notices_def intro!: map_cong filter_cong)
    note eq = this
    obtain t where t: "leave_rooms writer p rs u = Some t" "server_inv t"
        "members t = (\<lambda>r. members u r - (if r \<in> set rs then {p} else {}))"
        "m_clientDB t = m_clientDB u" "ws_data (net t) = ws_data (net u)"
        "clients (net t) = clients (net u)"
        "outgoing (net t) = outgoing (net u) @
          concat (map (leave_notices writer p u) (filter (\<lambda>r. p \<in> members u r) rs))"
      using Cons.IH [OF f(1)] Cons.prems(2) by auto
    have m: "members t = (\<lambda>x. members st x - (if x \<in> set (r # rs) then {p} else {}))"
      using t(3) f(2) by (auto simp: fun_eq_iff)
    have o: "outgoing (net t) = outgoing (net st) @
        concat (map (leave_notices writer p st) (filter (\<lambda>r. p \<in> members st r) (r # rs)))"
      unfolding t(7) eq f(7) using True by (simp add: leave_notices_def)
    from True u t f show ?thesis
      unfolding m [symmetric] o [symmetric] by simp
  qed
qed

section \<open>Relaying\<close>

text \<open>The handlers that change no membership and no client table.\<close>

definition quiet :: "server \<Rightarrow> server \<Rightarrow> bool" where
  "quiet st t \<longleftrightarrow> members t = members st \<and> m_clientDB t = m_clientDB st \<and>
     ws_data (net t) = ws_data (net st) \<and> (server_inv st \<longrightarrow> server_inv t)"

lemma quiet_intros [intro]:
  "quiet st st" "quiet st (deliver msgs st)" "quiet st (snd (room_index r st))"
  "quiet st (deliver msgs (snd (room_index r st)))"
  by (auto simp: quiet_def intro: inv_intros)

lemma quiet_with_client:
  "with_client st k = Some t \<Longrightarrow> (\<And>w cid u. k w cid = Some u \<Longrightarrow> quiet st u) \<Longrightarrow> quiet st t"
  by (auto simp: with_client_def split: option.splits)

lemma quiet_HandleFile: "HandleFile sent_ok writer doc st = Some (b, t) \<Longrightarrow> quiet st t"
  unfolding HandleFile_def
  by (auto simp: case_prod_unfold send_to_eq split: option.splits if_splits)

lemma quiet_handle:
  assumes "server_handle sent_ok writer h doc st = Some t" and "h \<noteq> HJoin" and "h \<noteq> HLeave"
  shows "quiet st t"
  using assms
  by (cases h)
    (auto simp: Server_OnFileOffer_def Server_OnFileAccept_def Server_OnFileReject_def
      Server_OnFileComplete_def Server_OnOffer_def Server_OnAnswer_def Server_OnCandidate_def
      Server_OnPingPong_def send_to_eq elim!: quiet_with_client
      intro: quiet_HandleFile split: option.splits if_splits)

lemma Server_OnJoin_inv:
  assumes "server_inv st" and "Server_OnJoin writer doc st = Some t"
  shows "server_inv t \<and> ws_data (net t) = ws_data (net st)"
proof (cases "m_currentWebSocket st")
  case None
  with assms show ?thesis by (simp add: Server_OnJoin_def with_client_def)
next
  case (Some w)
  show ?thesis
  proof (cases "ws_data (net st) w")
    case None
    with Some assms show ?thesis by (simp add: Server_OnJoin_def with_client_def)
  next
    case (Some p)
    show ?thesis
    proof (cases "string_at doc ''room''")
      case None
      with Some \<open>m_currentWebSocket st = Some w\<close> assms show ?thesis
        by (simp add: Server_OnJoin_def with_client_def)
    next
      case (Some r)
      have "server_inv ((snd (Join p r st))\<lparr>m_clientDB := (m_clientDB st)(p \<mapsto> w)\<rparr>)"
        using assms(1) \<open>ws_data (net st) w = Some p\<close> by (rule server_inv_Join)
      moreover have "p \<in> members st r \<Longrightarrow> server_inv (snd (Join p r st))"
        using assms(1) by (auto simp: server_inv_def rooms.mem_join insert_absorb)
      ultimately show ?thesis
        using assms(2) Server_OnJoin_eq [OF assms(1) \<open>m_currentWebSocket st = Some w\<close>
            \<open>ws_data (net st) w = Some p\<close> Some, of writer]
        by (auto simp: Let_def split: if_splits)
    qed
  qed
qed

lemma Server_OnLeave_inv:
  assumes "server_inv st" and "Server_OnLeave writer doc st = Some t"
  shows "server_inv t \<and> ws_data (net t) = ws_data (net st)"
  using assms
  by (auto simp: Server_OnLeave_def with_client_def dest: Server_Leave_Some split: option.splits)

lemma server_handle_inv [inv_intros]:
  assumes "server_inv st" and "server_handle sent_ok writer h doc st = Some t"
  shows "server_inv t" and "ws_data (net t) = ws_data (net st)"
proof -
  have "server_inv t \<and> ws_data (net t) = ws_data (net st)"
  proof (cases "h = HJoin \<or> h = HLeave")
    case True
    with assms show ?thesis by (auto dest: Server_OnJoin_inv Server_OnLeave_inv)
  next
    case False
    with quiet_handle [OF assms(2)] assms(1) show ?thesis by (auto simp: quiet_def)
  qed
  then show "server_inv t" and "ws_data (net t) = ws_data (net st)" by auto
qed

lemma server_message_inv:
  "server_inv st \<Longrightarrow> server_message sent_ok writer parse w text st = Some t \<Longrightarrow> server_inv t"
  by (auto simp: server_message_def MessageRouter_def split: option.splits json.splits
      dest: server_handle_inv(1) [rotated])

lemma server_open_inv:
  assumes "server_inv st" and "ws_data (net st) w = None"
  shows "server_inv (server_open w cid st)"
proof -
  let ?p = "PortServer_open w (PortServer_upgrade w cid (net st))"
  have wd: "ws_data ?p v = (if v = w then Some cid else ws_data (net st) v)" for v
    by (simp add: PortServer_open_def PortServer_upgrade_def)
  have "port_inv ?p" by (rule port_inv_open [OF server_invD(1) [OF assms(1)] assms(2)])
  moreover have "\<exists>v. m_clientDB st q = Some v \<and> ws_data ?p v = Some q"
    if m: "q \<in> members st r" for q r
  proof -
    obtain v where v: "m_clientDB st q = Some v" "ws_data (net st) v = Some q"
      using server_invD(4) [OF assms(1) m] by auto
    moreover have "v \<noteq> w" using v assms(2) by auto
    ultimately show ?thesis by (simp add: wd)
  qed
  ultimately have "server_inv ((st\<lparr>m_currentWebSocket := Some w\<rparr>)\<lparr>net := ?p\<rparr>)"
    using assms(1) by (intro server_inv_net) simp_all
  then show ?thesis
    unfolding server_open_def Server_OnMessageOpen_def by simp
qed

text \<open>A closing socket: its client leaves every room before the socket is freed.\<close>

lemma server_close_Some:
  assumes "server_inv st" and "ws_data (net st) w = Some p"
  shows "\<exists>t. server_close writer w st = Some t \<and> server_inv t \<and>
    members t = (\<lambda>r. members st r - {p}) \<and> m_clientDB t = m_clientDB st \<and>
    ws_data (net t) = (ws_data (net st))(w := None) \<and>
    outgoing (net t) = outgoing (net st) @
      concat (map (leave_notices writer p st) (filter (\<lambda>r. p \<in> members st r) (map_keys (m_rooms st))))"
proof -
  let ?st = "st\<lparr>m_currentWebSocket := Some w, net := PortServer_close w (net st)\<rparr>"
  have wd: "ws_data (net ?st) = ws_data (net st)"
    by (auto simp: PortServer_close_def split: option.splits)
  have inv: "server_inv ?st"
    using assms(1) wd by (simp add: server_inv_def port_inv_close)
  from leave_all_rooms [OF inv, where writer = writer and p = p and rs = "map_keys (m_rooms ?st)"] obtain u
    where u: "leave_rooms writer p (map_keys (m_rooms ?st)) ?st = Some u"
      and iu: "server_inv u"
      and mu: "members u = (\<lambda>r. members ?st r - (if r \<in> set (map_keys (m_rooms ?st)) then {p} else {}))"
      and cu: "m_clientDB u = m_clientDB st" and wu: "ws_data (net u) = ws_data (net st)"
      and ku: "clients (net u) = clients (net ?st)"
      and ou: "outgoing (net u) = outgoing (net ?st) @ concat (map (leave_notices writer p ?st)
        (filter (\<lambda>r. p \<in> members ?st r) (map_keys (m_rooms ?st))))"
    using wd by auto
  have ou': "outgoing (net u) = outgoing (net st) @ concat (map (leave_notices writer p st)
      (filter (\<lambda>r. p \<in> members st r) (map_keys (m_rooms st))))"
    using ou by (simp add: leave_notices_def [abs_def] notices_def PortServer_close_def split: option.splits)
  have "members st r = {}" if "r \<notin> dom (m_rooms st)" for r
    using that by (auto simp: members_def dom_def split: option.splits)
  then have mu': "members u = (\<lambda>r. members st r - {p})"
    using mu server_invD(2) [OF assms(1)] by (auto simp: fun_eq_iff)
  let ?t = "u\<lparr>net := PortServer_free w (net u)\<rparr>"
  have "server_close writer w st = Some ?t"
    using u wd assms(2) by (simp add: server_close_def Server_OnMessageClose_def with_client_def)
  moreover have "server_inv ?t"
  proof -
    have "port_inv (net u)" by (rule server_invD(1) [OF iu])
    moreover have "clients (net u) cid \<noteq> Some w" for cid
      using server_invD(1) [OF assms(1)] assms(2) ku
      by (auto simp: PortServer_close_def port_inv_def split: if_splits) (metis option.inject)
    ultimately have "port_inv (PortServer_free w (net u))"
      by (auto simp: port_inv_def PortServer_free_def)
    moreover have "\<exists>v. m_clientDB u q = Some v \<and> ws_data (PortServer_free w (net u)) v = Some q"
      if m: "q \<in> members u r" for q r
    proof -
      obtain v where v: "m_clientDB u q = Some v" "ws_data (net u) v = Some q"
        using server_invD(4) [OF iu m] by auto
      moreover have "v \<noteq> w" using v m mu' wu assms(2) by auto
      ultimately show ?thesis by (simp add: PortServer_free_def)
    qed
    ultimately show ?thesis by (intro server_inv_net [OF iu])
  qed
  ultimately show ?thesis
    using mu' cu wu ou' by (auto simp: PortServer_free_def)
qed

lemma server_close_inv:
  assumes "server_inv st" and "ws_data (net st) w \<noteq> None" and "server_close writer w st = Some t"
  shows "server_inv t"
proof -
  from assms(2) obtain p where "ws_data (net st) w = Some p" by auto
  from server_close_Some [OF assms(1) this, of writer] assms(3) show ?thesis by auto
qed

section \<open>Relays in a room\<close>

text \<open>The guards of the relaying handlers, and the handlers that relay within a room.\<close>

fun well_formed :: "handler \<Rightarrow> doc \<Rightarrow> bool" where
  "well_formed HOffer doc \<longleftrightarrow> string_at doc ''peer'' \<noteq> None \<and> string_at doc ''room'' \<noteq> None \<and>
     array_at doc ''descriptions'' \<noteq> None"
| "well_formed HFileComplete doc \<longleftrightarrow> string_at doc ''peer'' \<noteq> None \<and> string_at doc ''room'' \<noteq> None"
| "well_formed HFileOffer doc \<longleftrightarrow> string_at doc ''peer'' \<noteq> None \<and> string_at doc ''room'' \<noteq> None \<and>
     (\<exists>f. object_at doc ''file'' = Some f \<and> string_at f ''name'' \<noteq> None \<and> int64_at f ''size'' \<noteq> None \<and>
       string_at f ''mimeType'' \<noteq> None)"
| "well_formed HFileAccept doc \<longleftrightarrow> string_at doc ''peer'' \<noteq> None \<and> string_at doc ''room'' \<noteq> None \<and>
     (\<exists>f. object_at doc ''file'' = Some f \<and> string_at f ''name'' \<noteq> None)"
| "well_formed HFileReject doc \<longleftrightarrow> string_at doc ''peer'' \<noteq> None \<and> string_at doc ''room'' \<noteq> None \<and>
     (\<exists>f. object_at doc ''file'' = Some f \<and> string_at f ''name'' \<noteq> None)"
| "well_formed _ doc \<longleftrightarrow> False"

definition room_relay :: "(json \<Rightarrow> string) \<Rightarrow> string \<Rightarrow> string \<Rightarrow> string \<Rightarrow> doc \<Rightarrow> server \<Rightarrow> (ws \<times> string) list" where
  "room_relay writer p q r doc st =
     (if p \<in> members st r \<and> q \<in> members st r
      then [(the (m_clientDB st q), writer (relayed p doc))] else [])"

lemma members_room: "m_rooms st r = Some S \<Longrightarrow> members st r = S"
  by (simp add: members_def)

lemma not_member_no_room: "m_rooms st r = None \<Longrightarrow> p \<notin> members st r"
  by (simp add: members_def)

lemma HandleFile_relay:
  assumes "server_inv st" and "m_currentWebSocket st = Some w" and "ws_data (net st) w = Some p"
    and "string_at doc ''peer'' = Some q" and "string_at doc ''room'' = Some r"
    and "object_at doc ''file'' = Some f"
  shows "\<exists>b. HandleFile sent_ok writer doc st =
    Some (b, deliver (room_relay writer p q r doc st) (snd (room_index r st)))"
proof (cases "p \<in> members st r \<and> q \<in> members st r")
  case True
  then obtain v where "m_clientDB st q = Some v" "ws_data (net st) v = Some q"
    using server_invD(4) [OF assms(1)] by blast
  with True assms show ?thesis
    by (simp add: HandleFile_def case_prod_unfold send_to_eq room_relay_def)
next
  case False
  with assms show ?thesis
    by (auto simp: HandleFile_def case_prod_unfold room_relay_def)
qed

lemma room_relay_handle:
  assumes "server_inv st" and "m_currentWebSocket st = Some w" and "ws_data (net st) w = Some p"
    and "string_at doc ''peer'' = Some q" and "string_at doc ''room'' = Some r" and "well_formed h doc"
  shows "\<exists>t. server_handle sent_ok writer h doc st = Some t \<and> quiet st t \<and>
    outgoing (net t) = outgoing (net st) @ room_relay writer p q r doc st"
proof -
  have hf: "\<exists>t. map_option snd (HandleFile sent_ok writer doc st) = Some t \<and> quiet st t \<and>
      outgoing (net t) = outgoing (net st) @ room_relay writer p q r doc st"
    if "object_at doc ''file'' = Some f" for f
    using HandleFile_relay [OF assms(1-5) that, of sent_ok writer] by auto
  have room: "\<exists>t. (if p \<notin> S \<or> q \<notin> S then Some st
        else case m_clientDB st q of None \<Rightarrow> Some st
          | Some v \<Rightarrow> send_to v (writer (relayed p doc)) st) = Some t \<and> quiet st t \<and>
      outgoing (net t) = outgoing (net st) @ room_relay writer p q r doc st"
    if rS: "m_rooms st r = Some S" for S
  proof (cases "p \<in> S \<and> q \<in> S")
    case True
    then obtain v where "m_clientDB st q = Some v" "ws_data (net st) v = Some q"
      using server_invD(4) [OF assms(1), of q r] members_room [OF rS] by auto
    with True rS show ?thesis
      by (auto simp: send_to_eq room_relay_def members_room)
  next
    case False
    with rS show ?thesis by (auto simp: room_relay_def members_room)
  qed
  have none: "quiet st st \<and> outgoing (net st) = outgoing (net st) @ room_relay writer p q r doc st"
    if "m_rooms st r = None"
    using that by (auto simp: room_relay_def not_member_no_room)
  show ?thesis
    using assms(2-6) hf room none
    by (cases h)
      (auto simp: Server_OnFileOffer_def Server_OnFileAccept_def Server_OnFileReject_def
        Server_OnFileComplete_def Server_OnOffer_def with_client_def split: option.splits)
qed

lemma relay_succeeds:
  assumes "server_inv st" and "m_currentWebSocket st = Some w" and "ws_data (net st) w = Some p"
    and "well_formed h doc"
  shows "\<exists>t. server_handle sent_ok writer h doc st = Some t"
proof -
  from assms(4) obtain q r where "string_at doc ''peer'' = Some q" "string_at doc ''room'' = Some r"
    by (cases h) auto
  from room_relay_handle [OF assms(1-3) this assms(4), of sent_ok writer] show ?thesis by auto
qed

end
