(* ===== verification/Server_Properties.thy ===== *)
theory Server_Properties
  imports Server_Facts
begin

text \<open>
  The properties of the signalling server: its room table only names live clients, its relays are
  authenticated and confined to a room, joins and departures are announced to exactly the members,
  and two places where a message can make the server use a freed socket or fail an assertion. The
  demo states are a run with three clients, two of which join a room; one leaves by closing its socket.
\<close>

interpretation srv: invariant_system "\<lambda>s. s = server_init port_server_init"
    "server_step sent_ok writer parse" server_inv for sent_ok writer parse
proof (unfold_locales, goal_cases)
  case (1 s)
  then show ?case by (simp add: server_inv_init)
next
  case (2 s t)
  from 2(2,1) show ?case
    by (cases rule: server_step.cases)
      (blast intro: server_open_inv server_message_inv server_close_inv)+
qed

lemmas reach_server_inv = srv.inv_reach

section \<open>A run\<close>

definition demo_parse :: "string \<Rightarrow> json option" where
  "demo_parse = map_of
     [(''J'', JObj [(''type'', JStr ''join''), (''room'', JStr ''r'')]),
      (''O'', JObj [(''type'', JStr ''offer''), (''peer'', JStr ''bob''), (''room'', JStr ''r''), (''descriptions'', JArr [])]),
      (''A'', JObj [(''type'', JStr ''answer''), (''peer'', JStr ''bob''), (''sdp'', JStr ''x'')]),
      (''F'', JObj [(''type'', JStr ''file_offer''), (''file'', JObj [(''name'', JStr ''n''), (''size'', JInt 1), (''mimeType'', JStr ''t'')])])]"

definition demo_writer :: "json \<Rightarrow> string" where
  "demo_writer v = (case v of JObj d \<Rightarrow> (case string_at d ''type'' of Some t \<Rightarrow> t | None \<Rightarrow> []) | _ \<Rightarrow> [])"

definition demo_sent :: "ws \<Rightarrow> string \<Rightarrow> bool" where
  "demo_sent w m = True"

abbreviation demo_reach where "demo_reach \<equiv> server_reach demo_sent demo_writer demo_parse"

definition demo_connected :: server where
  "demo_connected = server_open 2 ''bob'' (server_open 1 ''alice'' (server_init port_server_init))"

definition demo_net :: "(ws \<times> string) list \<Rightarrow> port_server" where
  "demo_net out = port_server_init\<lparr>ws_data := [1 \<mapsto> ''alice'', 2 \<mapsto> ''bob''],
     clients := [''alice'' \<mapsto> 1, ''bob'' \<mapsto> 2], outgoing := out\<rparr>"

definition demo_joined :: server where
  "demo_joined = \<lparr>m_rooms = [''r'' \<mapsto> {''alice'', ''bob''}], m_currentWebSocket = Some 2,
     m_clientDB = [''alice'' \<mapsto> 1, ''bob'' \<mapsto> 2],
     net = demo_net [(1, ''peer_joined''), (1, ''peer_joined''), (2, ''peer_joined'')]\<rparr>"

definition demo_left :: server where
  "demo_left = \<lparr>m_rooms = [''r'' \<mapsto> {''alice''}], m_currentWebSocket = Some 2,
     m_clientDB = [''alice'' \<mapsto> 1, ''bob'' \<mapsto> 2],
     net = port_server_init\<lparr>ws_data := [1 \<mapsto> ''alice''], clients := [''alice'' \<mapsto> 1],
       outgoing := [(1, ''peer_joined''), (1, ''peer_joined''), (2, ''peer_joined''), (1, ''peer_left'')]\<rparr>\<rparr>"

lemmas demo_eval = demo_parse_def demo_writer_def string_at_def get_string_def c_str_def
  MessageRouter_def server_message_def with_client_def room_defs members_def

lemma demo_connected_eq:
  "demo_connected = \<lparr>m_rooms = Map.empty, m_currentWebSocket = Some 2, m_clientDB = Map.empty, net = demo_net []\<rparr>"
  by (simp add: demo_connected_def server_open_def Server_OnMessageOpen_def server_init_def demo_net_def
      port_server_defs port_server_init_def fun_eq_iff)

lemma demo_connected_facts:
  "members demo_connected = (\<lambda>_. {})" "ws_data (net demo_connected) = [1 \<mapsto> ''alice'', 2 \<mapsto> ''bob'']"
  "outgoing (net demo_connected) = []"
  by (simp_all add: demo_connected_eq members_def demo_net_def fun_eq_iff)

lemma demo_reach_connected: "demo_reach demo_connected"
proof -
  let ?s0 = "server_init port_server_init"
  have "demo_reach ?s0" by (rule reach_init) simp
  moreover have "ws_data (net ?s0) 1 = None" "ws_data (net (server_open 1 ''alice'' ?s0)) 2 = None"
    by (simp_all add: server_open_def Server_OnMessageOpen_def server_init_def port_server_init_def port_server_defs)
  ultimately show ?thesis
    unfolding demo_connected_def by (blast intro: reach_step sv_open)
qed

lemma demo_join_both:
  "\<exists>s. server_message demo_sent demo_writer demo_parse 1 ''J'' demo_connected = Some s \<and>
     server_message demo_sent demo_writer demo_parse 2 ''J'' s = Some demo_joined"
  by (simp add: demo_connected_eq demo_joined_def demo_eval Server_OnJoin_def SendJoinNotification_def
      send_to_eq deliver_def demo_net_def join_doc_def Let_def insert_commute)

lemma demo_joined_facts:
  "members demo_joined = (\<lambda>r. if r = ''r'' then {''alice'', ''bob''} else {})"
  "ws_data (net demo_joined) = [1 \<mapsto> ''alice'', 2 \<mapsto> ''bob'']"
  "m_clientDB demo_joined = [''alice'' \<mapsto> 1, ''bob'' \<mapsto> 2]"
  "map_keys (m_rooms demo_joined) = [''r'']" "{''alice'', ''bob''} - {''bob''} = {''alice''}"
  by (auto simp: demo_joined_def members_def demo_net_def fun_eq_iff map_keys_def)

lemma demo_reach_joined: "demo_reach demo_joined"
proof -
  obtain s where s: "server_message demo_sent demo_writer demo_parse 1 ''J'' demo_connected = Some s"
      "server_message demo_sent demo_writer demo_parse 2 ''J'' s = Some demo_joined"
    using demo_join_both by auto
  have "ws_data (net demo_connected) 1 \<noteq> None" by (simp add: demo_connected_eq demo_net_def)
  with s(1) have 1: "server_step demo_sent demo_writer demo_parse demo_connected s"
    by (intro sv_message)
  have "ws_data (net s) = ws_data (net demo_connected)"
    using s(1) by (auto simp: demo_connected_eq demo_eval Server_OnJoin_def SendJoinNotification_def
        send_to_eq deliver_def demo_net_def join_doc_def Let_def)
  then have "ws_data (net s) 2 \<noteq> None" by (simp add: demo_connected_eq demo_net_def)
  with s(2) have "server_step demo_sent demo_writer demo_parse s demo_joined"
    by (intro sv_message)
  with 1 demo_reach_connected show ?thesis by (blast intro: reach_step)
qed

lemma demo_close_bob: "server_close demo_writer 2 demo_joined = Some demo_left"
  by (simp add: demo_joined_def demo_left_def demo_net_def server_close_def Server_OnMessageClose_def
      Server_Leave_def SendLeaveNotification_def send_to_eq deliver_def leave_doc_def port_server_defs
      demo_eval map_keys_def fun_eq_iff insert_Diff_if)

lemma demo_reach_left: "demo_reach demo_left"
  by (rule reach_step [OF demo_reach_joined sv_close [OF _ demo_close_bob]])
    (simp add: demo_joined_def demo_net_def)

section \<open>Properties\<close>

text \<open>
  C8: in every state the server can get to, each member of each room has an entry in the client
  table, that socket is live, and it is the member's own.
\<close>

theorem room_members_live:
  assumes "server_reach sent_ok writer parse s" and "p \<in> members s r"
  shows "\<exists>w. m_clientDB s p = Some w \<and> ws_data (net s) w = Some p"
  by (rule server_invD(4) [OF reach_server_inv [OF assms(1)] assms(2)])

theorem room_members_live_witness:
  "\<exists>w. m_clientDB demo_joined ''bob'' = Some w \<and> ws_data (net demo_joined) w = Some ''bob''"
  by (rule room_members_live [OF demo_reach_joined, where r = "''r''"])
    (simp add: demo_joined_def members_def)



lemma server_join:
  assumes "server_reach sent_ok writer parse s" and "ws_data (net s) w = Some p"
    and "parse text = Some (JObj doc)" and "string_at doc ''type'' = Some ''join''"
    and "string_at doc ''room'' = Some r"
  shows "\<exists>t. server_message sent_ok writer parse w text s = Some t \<and>
    members t = (members s)(r := insert p (members s r)) \<and>
    outgoing (net t) = outgoing (net s) @
      (if p \<in> members s r then []
       else map (\<lambda>u. (if u = p then w else the (m_clientDB s u),
           writer (join_doc p r (insert p (members s r))))) (sorted_list_of_set (insert p (members s r))))"
proof -
  let ?s = "s\<lparr>m_currentWebSocket := Some w\<rparr>"
  have inv: "server_inv ?s" using reach_server_inv [OF assms(1)] by simp
  from Server_OnJoin_eq [OF inv _ _ assms(5), of w p writer] assms(2-4) show ?thesis
    by (auto simp: server_message_def MessageRouter_doc [where h = HJoin] Let_def rooms.mem_join
        notices_def insert_absorb fun_eq_iff)
qed

text \<open>
  A join is announced to everybody concerned and only once: when the client was not yet a
  member, each member of the room, the newcomer included, is sent exactly one \<open>peer_joined\<close> message,
  in the order of the set, with the complete roster; when it already was one, nothing is sent.
\<close>

theorem join_announced:
  assumes "server_reach sent_ok writer parse s" and "ws_data (net s) w = Some p"
    and "parse text = Some (JObj doc)" and "string_at doc ''type'' = Some ''join''"
    and "string_at doc ''room'' = Some r"
  shows "\<exists>t. server_message sent_ok writer parse w text s = Some t \<and>
    members t = (members s)(r := insert p (members s r)) \<and>
    outgoing (net t) = outgoing (net s) @
      (if p \<in> members s r then []
       else map (\<lambda>u. (if u = p then w else the (m_clientDB s u),
           writer (join_doc p r (insert p (members s r))))) (sorted_list_of_set (insert p (members s r))))"
  by (rule server_join [OF assms])

theorem join_announced_witness:
  "\<exists>t. server_message demo_sent demo_writer demo_parse 1 ''J'' demo_connected = Some t \<and>
     members t ''r'' = {''alice''} \<and> outgoing (net t) = [(1, ''peer_joined'')]"
  using join_announced [OF demo_reach_connected, of 1 "''alice''" "''J''"
      "[(''type'', JStr ''join''), (''room'', JStr ''r'')]" "''r''"]
  by (auto simp: demo_connected_facts join_doc_def string_at_def get_string_def c_str_def
      demo_parse_def demo_writer_def)

text \<open>
  A lost connection leaves no trace in the rooms: closing a client's socket never fails,
  removes the client from every room and from nothing else, and tells each remaining member of each
  room it was in exactly once, with the roster that is left.
\<close>

theorem close_leaves_all_rooms:
  assumes "server_reach sent_ok writer parse s" and "ws_data (net s) w = Some p"
  shows "\<exists>t. server_close writer w s = Some t \<and> members t = (\<lambda>r. members s r - {p}) \<and>
    ws_data (net t) = (ws_data (net s))(w := None) \<and>
    outgoing (net t) = outgoing (net s) @ concat (map
      (\<lambda>r. map (\<lambda>u. (the (m_clientDB s u), writer (leave_doc p r (members s r - {p}))))
         (sorted_list_of_set (members s r - {p})))
      (filter (\<lambda>r. p \<in> members s r) (map_keys (m_rooms s))))"
proof -
  obtain t where "server_close writer w s = Some t" "members t = (\<lambda>r. members s r - {p})"
      "ws_data (net t) = (ws_data (net s))(w := None)"
      "outgoing (net t) = outgoing (net s) @
        concat (map (leave_notices writer p s) (filter (\<lambda>r. p \<in> members s r) (map_keys (m_rooms s))))"
    using server_close_Some [OF reach_server_inv [OF assms(1)] assms(2), of writer]
    by (auto simp: leave_notices_def [abs_def] notices_def)
  then show ?thesis by (simp add: leave_notices_def [abs_def] notices_def)
qed

theorem close_leaves_all_rooms_witness:
  "\<exists>t. server_close demo_writer 2 demo_joined = Some t \<and> members t ''r'' = {''alice''} \<and>
     outgoing (net t) = outgoing (net demo_joined) @ [(1, ''peer_left'')]"
  using close_leaves_all_rooms [OF demo_reach_joined, of 2 "''bob''"]
  by (auto simp: demo_joined_facts leave_doc_def demo_writer_def string_at_def get_string_def c_str_def)



text \<open>
  A departed client is still addressable: once the socket the client table holds for \<open>q\<close> has been
  closed and freed, the next answer or candidate any client sends to \<open>q\<close> makes the server use the
  freed socket.
\<close>

theorem answer_uses_freed_socket:
  assumes "server_reach sent_ok writer parse s" and "ws_data (net s) v = Some q"
    and "m_clientDB s q = Some v" and "server_close writer v s = Some t"
    and "ws_data (net t) w = Some p" and "parse text = Some (JObj doc)"
    and "string_at doc ''type'' = Some l" and "route l = Some h" and "string_at doc ''peer'' = Some q"
    and "h = HAnswer \<and> string_at doc ''sdp'' \<noteq> None \<or>
      h = HCandidate \<and> string_at doc ''candidate'' \<noteq> None \<and> string_at doc ''mid'' \<noteq> None"
  shows "server_message sent_ok writer parse w text t = None"
proof -
  have "m_clientDB t = m_clientDB s" "ws_data (net t) v = None"
    using server_close_Some [OF reach_server_inv [OF assms(1)] assms(2), of writer] assms(4) by auto
  with assms show ?thesis
    by (auto simp: server_message_def MessageRouter_doc Server_OnAnswer_def Server_OnCandidate_def
        with_client_def send_to_eq)
qed

theorem answer_uses_freed_socket_witness:
  "server_message demo_sent demo_writer demo_parse 1 ''A'' demo_left = None"
  by (rule answer_uses_freed_socket [OF demo_reach_joined _ _ demo_close_bob,
        where q = "''bob''" and p = "''alice''" and l = "''answer''" and h = HAnswer
          and doc = "[(''type'', JStr ''answer''), (''peer'', JStr ''bob''), (''sdp'', JStr ''x'')]"])
    (simp_all add: demo_joined_def demo_left_def demo_net_def demo_eval)

text \<open>
  A file offer or accept whose file metadata is complete but which names no peer (or a \<open>peer\<close> that
  is no string) fails an assertion of the JSON library in the log line that precedes the check.
\<close>

theorem file_offer_without_peer_aborts:
  assumes "ws_data (net s) w = Some p" and "parse text = Some (JObj doc)"
    and "string_at doc ''type'' = Some l" and "route l = Some h" and "string_at doc ''peer'' = None"
    and "object_at doc ''file'' = Some f" and "string_at f ''name'' \<noteq> None"
    and "h = HFileAccept \<or> h = HFileOffer \<and> int64_at f ''size'' \<noteq> None \<and> string_at f ''mimeType'' \<noteq> None"
  shows "server_message sent_ok writer parse w text s = None"
  using assms
  by (auto simp: server_message_def MessageRouter_doc Server_OnFileOffer_def Server_OnFileAccept_def
      with_client_def)

theorem file_offer_without_peer_aborts_witness:
  "server_message demo_sent demo_writer demo_parse 1 ''F'' demo_joined = None"
  by (rule file_offer_without_peer_aborts [where p = "''alice''" and l = "''file_offer''" and h = HFileOffer
          and f = "[(''name'', JStr ''n''), (''size'', JInt 1), (''mimeType'', JStr ''t'')]"
          and doc = "[(''type'', JStr ''file_offer''), (''file'', JObj [(''name'', JStr ''n''), (''size'', JInt 1), (''mimeType'', JStr ''t'')])]"])
    (simp_all add: demo_joined_def demo_net_def demo_eval object_at_def int64_at_def)

end
