(* ===== verification/Node_Properties.thy ===== *)
theory Node_Properties
  imports Cloud_Node Server_Properties
begin

text \<open>
  Server and clients together: what the server sends is what a client receives, parsed by the same
  library (\<open>json_codec\<close>). The rosters the clients keep follow the server's, and a message of one member
  can end the program of another.
\<close>

lemma peer_set_names:
  "\<forall>x \<in> set xs. nul_free x \<Longrightarrow> peer_set (map JCstr xs) S = Some (set xs \<union> S)"
  by (induction xs arbitrary: S) auto

lemma members_UpdatePeers_client [simp]:
  "members (UpdatePeers room S st) = (members st)(room := S)"
  by (rule rooms.mem_update)

lemma members_client_state [simp]: "members (st\<lparr>m_clientState := x\<rparr>) = members st"
  by (simp add: members_def fun_eq_iff)

lemma roster_doc_fields:
  assumes "finite S" and "nul_free who" and "nul_free room" and "\<forall>x \<in> S. nul_free x"
    and "v = JObj doc" and "v = join_doc who room S \<and> l = ''peer_joined'' \<or> v = leave_doc who room S \<and> l = ''peer_left''"
  shows "string_at doc ''type'' = Some l" "string_at doc ''room'' = Some room" "string_at doc ''peerId'' = Some who"
    "array_at doc ''peers'' = Some (map JCstr (sorted_list_of_set S))"
    "peer_set (map JCstr (sorted_list_of_set S)) {} = Some S"
proof -
  have "peer_set (map JCstr (sorted_list_of_set S)) {} = Some (set (sorted_list_of_set S) \<union> {})"
    by (rule peer_set_names) (use assms(1,4) in simp)
  with assms(1) show "peer_set (map JCstr (sorted_list_of_set S)) {} = Some S" by simp
qed (use assms(2,3,5,6) in \<open>auto simp: join_doc_def leave_doc_def string_at_Cons array_at_def c_str_def get_string_def
      nul_free_def takeWhile_eq_all_conv JCstr_def\<close>)

lemma client_takes_roster:
  assumes "json_codec parse writer" and "settled st" and "finite S" and "nul_free who" and "nul_free room"
    and "\<forall>x \<in> S. nul_free x" and "v = join_doc who room S \<or> v = leave_doc who room S"
  shows "\<exists>st'. client_message E parse (writer v) st = Some st' \<and> members st' = (members st)(room := S)"
proof -
  obtain doc where doc: "v = JObj doc" using assms(7) by (auto simp: join_doc_def leave_doc_def)
  obtain n where n: "setting st ''name'' = Some n" using assms(2) by (rule settledE) auto
  from assms(7) show ?thesis
  proof
    assume j: "v = join_doc who room S"
    note f = roster_doc_fields [OF assms(3-6) doc, of "''peer_joined''"]
    have "route ''peer_joined'' = Some HJoin" by simp
    moreover have "string_at doc ''type'' = Some ''peer_joined''" using f(1) j by blast
    ultimately have "client_message E parse (writer v) st = OnJoin doc st"
      unfolding client_message_def MessageRouter_def json_codecD [OF assms(1)] doc by simp
    with f(2-5) j n show ?thesis by (auto simp: OnJoin_def Let_def)
  next
    assume l: "v = leave_doc who room S"
    note f = roster_doc_fields [OF assms(3-6) doc, of "''peer_left''"]
    have "route ''peer_left'' = Some HLeave" by simp
    moreover have "string_at doc ''type'' = Some ''peer_left''" using f(1) l by blast
    ultimately have "client_message E parse (writer v) st = OnLeave doc st"
      unfolding client_message_def MessageRouter_def json_codecD [OF assms(1)] doc by simp
    with f(2-5) l show ?thesis by (auto simp: OnLeave_def Let_def rooms.mem_leave)
  qed
qed

section \<open>Rosters\<close>

text \<open>Every client that handles the message ends up with the given roster for the room.\<close>

definition tells_roster :: "(string \<Rightarrow> json option) \<Rightarrow> string \<Rightarrow> string \<Rightarrow> string set \<Rightarrow> bool" where
  "tells_roster parse m r S \<longleftrightarrow> (\<forall>E (st :: client) c n. m_properties st = main_properties c n \<longrightarrow>
     (\<exists>st'. client_message E parse m st = Some st' \<and> members st' = (members st)(r := S)))"

lemma tells_rosterI:
  assumes "json_codec parse writer" and "finite S" and "nul_free who" and "nul_free r" and "\<forall>x \<in> S. nul_free x"
    and "v = join_doc who r S \<or> v = leave_doc who r S"
  shows "tells_roster parse (writer v) r S"
  unfolding tells_roster_def using client_takes_roster [OF assms(1) _ assms(2-6)] by (auto simp: settled_def)

lemma server_join_room: "server_reach sent_ok writer parse s \<Longrightarrow> finite (members s r)"
  by (rule server_invD(3) [OF reach_server_inv])

text \<open>
  C17: after a join every member's roster is the server's: the client that joins and each client already
  in the room are sent one message each on their own live sockets, and a client that handles it lists for
  that room exactly the server's members, its other rooms unchanged, whatever it listed before.
\<close>

theorem roster_after_join:
  assumes "server_reach sent_ok writer parse s" and "ws_data (net s) w = Some p"
    and "parse text = Some (JObj doc)" and "string_at doc ''type'' = Some ''join''"
    and "string_at doc ''room'' = Some r" and "p \<notin> members s r" and "json_codec parse writer"
    and "\<forall>x \<in> insert p (members s r). nul_free x"
  shows "\<exists>t. server_message sent_ok writer parse w text s = Some t \<and> members t r = insert p (members s r) \<and>
    (\<forall>u \<in> members t r. \<exists>v m. (v, m) \<in> set (drop (length (outgoing (net s))) (outgoing (net t))) \<and>
      (u = p \<and> v = w \<or> u \<noteq> p \<and> ws_data (net s) v = Some u) \<and>
      tells_roster parse m r (members t r))"
proof -
  let ?S = "insert p (members s r)"
  note inv = reach_server_inv [OF assms(1)]
  let ?m = "writer (join_doc p r ?S)"
  let ?new = "map (\<lambda>u. (if u = p then w else the (m_clientDB s u), ?m)) (sorted_list_of_set ?S)"
  have fin: "finite ?S" using server_invD(3) [OF inv] by simp
  obtain t where t: "server_message sent_ok writer parse w text s = Some t"
      "members t = (members s)(r := ?S)" "outgoing (net t) = outgoing (net s) @ ?new"
    using server_join [OF assms(1-5)] assms(6) by auto
  have new: "drop (length (outgoing (net s))) (outgoing (net t)) = ?new" using t(3) by simp
  have "nul_free r" using string_at_nul_free [OF assms(5)] .
  then have client: "tells_roster parse ?m r ?S" using tells_rosterI [OF assms(7) fin _ _ assms(8)] assms(8) by blast
  have elt: "x \<in> A \<Longrightarrow> finite A \<Longrightarrow> f x \<in> set (map f (sorted_list_of_set A))" for f :: "string \<Rightarrow> ws \<times> string" and x A
    unfolding set_map by (rule imageI) simp
  have owner: "ws_data (net s) (the (m_clientDB s u)) = Some u" if "u \<in> members s r" for u
    using server_invD(4) [OF inv that] by auto
  have "\<exists>v. (v, ?m) \<in> set ?new \<and> (u = p \<and> v = w \<or> u \<noteq> p \<and> ws_data (net s) v = Some u)" if "u \<in> ?S" for u
  proof (intro exI conjI)
    show "(if u = p then w else the (m_clientDB s u), ?m) \<in> set ?new" by (rule elt [OF that fin])
    show "u = p \<and> (if u = p then w else the (m_clientDB s u)) = w \<or>
        u \<noteq> p \<and> ws_data (net s) (if u = p then w else the (m_clientDB s u)) = Some u"
      using owner [of u] that by (cases "u = p") simp_all
  qed
  then have all: "\<forall>u \<in> ?S. \<exists>v m. (v, m) \<in> set ?new \<and> (u = p \<and> v = w \<or> u \<noteq> p \<and> ws_data (net s) v = Some u) \<and>
      tells_roster parse m r ?S"
    using client by blast
  have S: "members t r = ?S" using t(2) by simp
  show ?thesis
  proof (intro exI conjI)
    show "server_message sent_ok writer parse w text s = Some t" by (rule t(1))
  qed (use all in \<open>simp_all only: S new\<close>)
qed

text \<open>
  C18: after a client's connection is lost, the others forget it: for every room it was in, each remaining
  member is sent a message on its own socket, and a client that handles it lists for that room exactly the
  members left, the departed client not among them.
\<close>

theorem roster_after_close:
  assumes "server_reach sent_ok writer parse s" and "ws_data (net s) w = Some p" and "p \<in> members s r"
    and "json_codec parse writer" and "nul_free r" and "\<forall>x \<in> members s r. nul_free x"
  shows "\<exists>t. server_close writer w s = Some t \<and> members t r = members s r - {p} \<and>
    (\<forall>u \<in> members t r. \<exists>v m. (v, m) \<in> set (drop (length (outgoing (net s))) (outgoing (net t))) \<and>
      ws_data (net s) v = Some u \<and>
      tells_roster parse m r (members t r))"
proof -
  note inv = reach_server_inv [OF assms(1)]
  let ?S = "members s r - {p}"
  let ?m = "writer (leave_doc p r ?S)"
  let ?rooms = "filter (\<lambda>r. p \<in> members s r) (map_keys (m_rooms s))"
  obtain t where t: "server_close writer w s = Some t" "members t = (\<lambda>r. members s r - {p})"
      "outgoing (net t) = outgoing (net s) @ concat (map (leave_notices writer p s) ?rooms)"
    using server_close_Some [OF inv assms(2), of writer] by auto
  have new: "drop (length (outgoing (net s))) (outgoing (net t)) = concat (map (leave_notices writer p s) ?rooms)"
    using t(3) by simp
  have "r \<in> dom (m_rooms s)" using assms(3) by (auto simp: members_def split: option.splits)
  then have r: "r \<in> set ?rooms" using assms(3) server_invD(2) [OF inv] by simp
  have fin: "finite ?S" using server_invD(3) [OF inv] by simp
  have client: "tells_roster parse ?m r ?S"
    by (rule tells_rosterI [OF assms(4) fin, of p]) (use assms(3,5,6) in auto)
  have "(the (m_clientDB s u), ?m) \<in> set (concat (map (leave_notices writer p s) ?rooms)) \<and>
      ws_data (net s) (the (m_clientDB s u)) = Some u" if "u \<in> ?S" for u
  proof
    have "(the (m_clientDB s u), ?m) \<in> set (leave_notices writer p s r)"
      using that fin by (auto simp: leave_notices_def notices_def)
    then show "(the (m_clientDB s u), ?m) \<in> set (concat (map (leave_notices writer p s) ?rooms))"
      using r by auto
    show "ws_data (net s) (the (m_clientDB s u)) = Some u"
      using server_invD(4) [OF inv, of u r] that by auto
  qed
  then have all: "\<forall>u \<in> ?S. \<exists>v m. (v, m) \<in> set (concat (map (leave_notices writer p s) ?rooms)) \<and>
      ws_data (net s) v = Some u \<and> tells_roster parse m r ?S"
    using client by blast
  have S: "members t r = ?S" using t(2) by simp
  show ?thesis
  proof (intro exI conjI)
    show "server_close writer w s = Some t" by (rule t(1))
  qed (use all in \<open>simp_all only: S new\<close>)
qed

text \<open>
  One member can end another's program: an SDP offer with an empty list of descriptions, sent by a
  member of a room to another member, passes the server's checks and is relayed to the other's socket,
  and the client that receives it fails an assertion of the JSON library, whatever its state.
\<close>

theorem relayed_offer_kills_client:
  assumes "server_reach sent_ok writer parse s" and "ws_data (net s) w = Some p"
    and "parse text = Some (JObj doc)" and "string_at doc ''type'' = Some ''offer''"
    and "string_at doc ''peer'' = Some q" and "string_at doc ''room'' = Some r"
    and "array_at doc ''descriptions'' = Some []" and "p \<in> members s r" and "q \<in> members s r"
    and "json_codec parse writer"
  shows "\<exists>t v m. server_message sent_ok writer parse w text s = Some t \<and> ws_data (net s) v = Some q \<and>
    outgoing (net t) = outgoing (net s) @ [(v, m)] \<and>
    (\<forall>E st c n. m_properties st = main_properties c n \<longrightarrow> client_message E parse m st = None)"
proof -
  let ?s = "s\<lparr>m_currentWebSocket := Some w\<rparr>"
  let ?m = "writer (relayed p doc)"
  note inv = reach_server_inv [OF assms(1)]
  have "server_inv ?s" using inv by simp
  from room_relay_handle [OF this _ _ assms(5,6), of w p HOffer sent_ok writer] assms(2,5,6,7)
  obtain t where t: "server_handle sent_ok writer HOffer doc ?s = Some t"
      "outgoing (net t) = outgoing (net ?s) @ room_relay writer p q r doc ?s" by auto
  have r: "route ''offer'' = Some HOffer" by simp
  have "server_message sent_ok writer parse w text s = Some t"
    using t(1) assms(3,4) r by (simp add: server_message_def MessageRouter_doc)
  moreover obtain v where v: "m_clientDB s q = Some v" "ws_data (net s) v = Some q"
    using server_invD(4) [OF inv assms(9)] by auto
  moreover have "outgoing (net t) = outgoing (net s) @ [(v, ?m)]"
    using t(2) assms(8,9) v(1) by (simp add: room_relay_def)
  moreover have "client_message E parse ?m st = None" if "m_properties st = main_properties c n"
    for E and st :: client and c n
  proof -
    let ?d = "set_string ''peer'' p doc"
    have f: "string_at ?d ''type'' = Some ''offer''" "string_at ?d ''peer'' = Some (c_str p)" "string_at ?d ''room'' = Some r"
        "array_at ?d ''descriptions'' = Some []"
      using assms(4-7) by (simp_all add: array_at_def map_of_set_string)
    have "client_message E parse ?m st = OnOffer E ?d st"
      unfolding client_message_def MessageRouter_def json_codecD [OF assms(10)] relayed_def using f(1) r by simp
    also have "OnOffer E ?d st = None"
      using f by (auto simp: OnOffer_def offer_description_def make_decision_def CreateStringQueue_def Let_def
          split: bind_splits)
    finally show ?thesis .
  qed
  ultimately show ?thesis by blast
qed

section \<open>A run with a codec\<close>

lemma server_message_ws_data:
  "server_inv st \<Longrightarrow> server_message sent_ok writer parse w text st = Some t \<Longrightarrow> ws_data (net t) = ws_data (net st)"
  by (auto simp: server_message_def MessageRouter_def split: option.splits json.splits
      dest!: server_handle_inv(2) [rotated])

definition demo_join_msg :: json where
  "demo_join_msg = JObj [(''type'', JStr ''join''), (''room'', JStr ''r'')]"

definition demo_bad_offer :: doc where
  "demo_bad_offer = [(''type'', JStr ''offer''), (''peer'', JStr ''bob''), (''room'', JStr ''r''), (''descriptions'', JArr [])]"

lemma reach_connected: "server_reach sent_ok writer parse demo_connected"
proof -
  let ?s0 = "server_init port_server_init"
  have "server_reach sent_ok writer parse ?s0" by (rule reach_init) simp
  moreover have "ws_data (net ?s0) 1 = None" "ws_data (net (server_open 1 ''alice'' ?s0)) 2 = None"
    by (simp_all add: server_open_def Server_OnMessageOpen_def server_init_def port_server_init_def port_server_defs)
  ultimately show ?thesis
    unfolding demo_connected_def by (blast intro: reach_step sv_open)
qed

lemma codec_run:
  assumes "json_codec parse writer"
  shows "\<exists>s. server_reach demo_sent writer parse s \<and> members s ''r'' = {''alice'', ''bob''} \<and>
    ws_data (net s) = [1 \<mapsto> ''alice'', 2 \<mapsto> ''bob'']"
proof -
  let ?J = "writer demo_join_msg"
  have J: "parse ?J = Some (JObj [(''type'', JStr ''join''), (''room'', JStr ''r'')])"
    using assms by (simp add: demo_join_msg_def)
  obtain s1 where s1: "server_message demo_sent writer parse 1 ?J demo_connected = Some s1"
      "members s1 ''r'' = {''alice''}" "ws_data (net s1) = ws_data (net demo_connected)"
    using J by (simp add: demo_connected_eq string_at_def get_string_def c_str_def MessageRouter_def server_message_def
        with_client_def room_defs members_def Server_OnJoin_def SendJoinNotification_def send_to_eq deliver_def demo_net_def Let_def)
  have 1: "server_reach demo_sent writer parse s1"
    by (rule reach_step [OF reach_connected sv_message [OF _ s1(1)]]) (simp add: demo_connected_facts)
  have w2: "ws_data (net s1) 2 = Some ''bob''" using s1(3) by (simp add: demo_connected_facts)
  from server_join [OF 1 w2 J, of "''r''"] obtain s2 where s2: "server_message demo_sent writer parse 2 ?J s1 = Some s2"
      "members s2 = (members s1)(''r'' := insert ''bob'' (members s1 ''r''))"
    by (auto simp: string_at_def get_string_def c_str_def)
  have "server_reach demo_sent writer parse s2"
    by (rule reach_step [OF 1 sv_message [OF _ s2(1)]]) (simp add: w2)
  moreover have "members s2 ''r'' = {''alice'', ''bob''}" using s2(2) s1(2) by auto
  moreover have "ws_data (net s2) = ws_data (net s1)"
    using server_message_ws_data [OF reach_server_inv [OF 1] s2(1)] .
  ultimately show ?thesis using s1(3) demo_connected_facts(2) by auto
qed

theorem roster_after_join_witness:
  "\<exists>t. server_message demo_sent unary_write unary_parse 1 (unary_write demo_join_msg) demo_connected = Some t \<and>
     members t ''r'' = {''alice''} \<and>
     (\<exists>m. (1, m) \<in> set (outgoing (net t)) \<and> tells_roster unary_parse m ''r'' {''alice''})"
proof -
  have J: "unary_parse (unary_write demo_join_msg) = Some (JObj [(''type'', JStr ''join''), (''room'', JStr ''r'')])"
    by (simp add: json_codecD [OF unary_codec]) (simp add: demo_join_msg_def)
  have "ws_data (net demo_connected) 1 = Some ''alice''" "members demo_connected ''r'' = {}"
    by (simp_all add: demo_connected_facts)
  note c = this
  have d: "string_at [(''type'', JStr ''join''), (''room'', JStr ''r'')] ''type'' = Some ''join''"
    "string_at [(''type'', JStr ''join''), (''room'', JStr ''r'')] ''room'' = Some ''r''"
    by (simp_all add: string_at_def get_string_def c_str_def)
  have n: "\<forall>x \<in> insert ''alice'' (members demo_connected ''r''). nul_free x" by (simp add: c nul_free_def)
  have o: "''alice'' \<notin> members demo_connected ''r''" by (simp add: c)
  from roster_after_join [OF reach_connected [of demo_sent unary_write unary_parse] c(1) J d o unary_codec n]
  obtain t where t: "server_message demo_sent unary_write unary_parse 1 (unary_write demo_join_msg) demo_connected = Some t"
      "members t ''r'' = {''alice''}"
      "\<forall>u \<in> members t ''r''. \<exists>v m. (v, m) \<in> set (drop (length (outgoing (net demo_connected))) (outgoing (net t))) \<and>
        (u = ''alice'' \<and> v = 1 \<or> u \<noteq> ''alice'' \<and> ws_data (net demo_connected) v = Some u) \<and>
        tells_roster unary_parse m ''r'' (members t ''r'')"
    unfolding c(2) by blast
  then have "\<exists>m. (1, m) \<in> set (drop (length (outgoing (net demo_connected))) (outgoing (net t))) \<and>
      tells_roster unary_parse m ''r'' {''alice''}" by simp
  then have "\<exists>m. (1, m) \<in> set (outgoing (net t)) \<and> tells_roster unary_parse m ''r'' {''alice''}"
    by (simp add: demo_connected_facts)
  with t(1,2) show ?thesis by blast
qed

theorem roster_after_close_witness:
  "\<exists>s t. server_close unary_write 2 s = Some t \<and> members s ''r'' = {''alice'', ''bob''} \<and> members t ''r'' = {''alice''} \<and>
     (\<exists>v m. (v, m) \<in> set (outgoing (net t)) \<and> tells_roster unary_parse m ''r'' {''alice''})"
proof -
  obtain s where s: "server_reach demo_sent unary_write unary_parse s" "members s ''r'' = {''alice'', ''bob''}"
      "ws_data (net s) = [1 \<mapsto> ''alice'', 2 \<mapsto> ''bob'']"
    using codec_run [OF unary_codec] by blast
  have d: "{''alice'', ''bob''} - {''bob''} = {''alice''}" by auto
  have w: "ws_data (net s) 2 = Some ''bob''" by (simp add: s(3))
  have i: "''bob'' \<in> members s ''r''" "nul_free ''r''" "\<forall>x \<in> members s ''r''. nul_free x"
    by (simp_all add: s(2) nul_free_def)
  from roster_after_close [OF s(1) w i(1) unary_codec i(2,3)]
  obtain t where t: "server_close unary_write 2 s = Some t" "members t ''r'' = {''alice''}"
      "\<forall>u \<in> members t ''r''. \<exists>v m. (v, m) \<in> set (drop (length (outgoing (net s))) (outgoing (net t))) \<and>
        ws_data (net s) v = Some u \<and> tells_roster unary_parse m ''r'' (members t ''r'')"
    unfolding s(2) d by blast
  have "''alice'' \<in> members t ''r''" by (simp add: t(2))
  from bspec [OF t(3) this, unfolded t(2)]
  have "\<exists>v m. (v, m) \<in> set (drop (length (outgoing (net s))) (outgoing (net t))) \<and> tells_roster unary_parse m ''r'' {''alice''}"
    by (elim exE conjE) (intro exI conjI)
  then obtain v m where "(v, m) \<in> set (outgoing (net t))" "tells_roster unary_parse m ''r'' {''alice''}"
    by (elim exE conjE) (drule in_set_dropD, blast)
  with t(1,2) s(2) show ?thesis by blast
qed

theorem relayed_offer_kills_client_witness:
  "\<exists>s t m. server_message demo_sent unary_write unary_parse 1 (unary_write (JObj demo_bad_offer)) s = Some t \<and>
     outgoing (net t) = outgoing (net s) @ [(2, m)] \<and>
     client_message demo_env unary_parse m (client_init (main_properties cmdline_defaults ''bob'')) = None"
proof -
  obtain s where s: "server_reach demo_sent unary_write unary_parse s" "members s ''r'' = {''alice'', ''bob''}"
      "ws_data (net s) = [1 \<mapsto> ''alice'', 2 \<mapsto> ''bob'']"
    using codec_run [OF unary_codec] by blast
  have w: "ws_data (net s) 1 = Some ''alice''" by (simp add: s(3))
  have v: "ws_data (net s) v = Some ''bob'' \<Longrightarrow> v = 2" for v using s(3) by (auto split: if_splits)
  have d: "string_at demo_bad_offer ''type'' = Some ''offer''" "string_at demo_bad_offer ''peer'' = Some ''bob''"
    "string_at demo_bad_offer ''room'' = Some ''r''" "array_at demo_bad_offer ''descriptions'' = Some []"
    by (simp_all add: demo_bad_offer_def string_at_def get_string_def c_str_def array_at_def)
  have p: "m_properties (client_init (main_properties cmdline_defaults ''bob'')) = main_properties cmdline_defaults ''bob''"
    by (simp add: client_init_def)
  obtain t u m where t: "server_message demo_sent unary_write unary_parse 1 (unary_write (JObj demo_bad_offer)) s = Some t"
      "ws_data (net s) u = Some ''bob''" "outgoing (net t) = outgoing (net s) @ [(u, m)]"
      "\<forall>E st c n. m_properties st = main_properties c n \<longrightarrow> client_message E unary_parse m st = None"
    using relayed_offer_kills_client [OF s(1) w json_codecD [OF unary_codec] d] s(2) unary_codec by auto
  with v [OF t(2)] p show ?thesis by blast
qed

end
