(* ===== verification/Offer_Exchange.thy ===== *)
theory Offer_Exchange
  imports Node_Properties
begin

text \<open>
  Two clients and the server between them: how a file that one client announces gets to the other. Each
  message is the text one part sends and the next one reads; the server and the clients read with the
  same \<open>parse\<close>. \<open>offer_doc\<close> is the document that the concatenated text of a file offer spells,
  \<open>response_doc\<close> what a receiver makes of it.
\<close>

definition offer_doc :: "string \<Rightarrow> string \<Rightarrow> string \<Rightarrow> doc \<Rightarrow> doc" where
  "offer_doc uuid room peer meta = [(''type'', JStr ''file_offer''), (''uuid'', JStr uuid),
     (''room'', JStr room), (''peer'', JStr peer), (''file'', JObj meta)]"

definition response_doc :: "string \<Rightarrow> string \<Rightarrow> string \<Rightarrow> string \<Rightarrow> doc \<Rightarrow> doc" where
  "response_doc ty uuid room peer meta = [(''type'', JStr ty), (''uuid'', JStr uuid),
     (''room'', JStr room), (''file'', JObj meta), (''peer'', JStr peer)]"

text \<open>The document that the metadata of a file (\<open>file_text\<close>) spells.\<close>

definition file_meta :: "string \<Rightarrow> bytes \<Rightarrow> string \<Rightarrow> doc" where
  "file_meta name content mime = [(''name'', JStr name), (''size'', JInt (int (length content))),
     (''mimeType'', JStr mime), (''crc'', JInt (uint (the (get_crc (Some content)))))]"

lemma file_meta_fields:
  "nul_free name \<Longrightarrow> string_at (file_meta name content mime) ''name'' = Some name"
  "length content < 2 ^ 63 \<Longrightarrow> int64_at (file_meta name content mime) ''size'' = Some (int (length content))"
  "nul_free mime \<Longrightarrow> string_at (file_meta name content mime) ''mimeType'' = Some mime"
  "uint64_at (file_meta name content mime) ''crc'' = Some (uint (the (get_crc (Some content))))"
  by (simp_all add: file_meta_def string_at_def int64_at_def uint64_at_def uint_bounded order.strict_trans2 [OF uint_bounded])

lemmas exchange_docs = offer_doc_def response_doc_def string_at_Cons object_at_def

section \<open>The server's hop\<close>

lemma server_relays:
  assumes "server_inv s" and "ws_data (net s) w = Some p" and "parse text = Some (JObj doc)"
    and "string_at doc ''type'' = Some l" and "route l = Some h" and "well_formed h doc"
    and "string_at doc ''peer'' = Some q" and "string_at doc ''room'' = Some r"
    and "p \<in> members s r" and "q \<in> members s r"
  shows "\<exists>t v. server_message sent_ok writer parse w text s = Some t \<and> quiet s t \<and> ws_data (net s) v = Some q \<and>
    outgoing (net t) = outgoing (net s) @ [(v, writer (relayed p doc))]"
proof -
  let ?s = "s\<lparr>m_currentWebSocket := Some w\<rparr>"
  have "server_inv ?s" using assms(1) by simp
  from room_relay_handle [OF this _ _ assms(7,8,6), of w p sent_ok writer] assms(2)
  obtain t where t: "server_handle sent_ok writer h doc ?s = Some t" "quiet ?s t"
      "outgoing (net t) = outgoing (net ?s) @ room_relay writer p q r doc ?s" by auto
  obtain v where v: "m_clientDB s q = Some v" "ws_data (net s) v = Some q"
    using server_invD(4) [OF assms(1,10)] by auto
  have "server_message sent_ok writer parse w text s = Some t"
    using t(1) assms(3-5) by (simp add: server_message_def MessageRouter_doc)
  moreover have "quiet s t" using t(2) assms(1) by (simp add: quiet_def)
  moreover have "outgoing (net t) = outgoing (net s) @ [(v, writer (relayed p doc))]"
    using t(3) assms(9,10) v(1) by (simp add: room_relay_def)
  ultimately show ?thesis using v(2) by blast
qed

text \<open>The two relays of an exchange: the offer from \<open>a\<close> to \<open>b\<close>, the response from \<open>b\<close> to \<open>a\<close>.\<close>

lemma offer_relayed:
  assumes "server_inv s" and "ws_data (net s) w = Some a" and "a \<in> members s r" and "b \<in> members s r"
    and "nul_free b" and "nul_free r" and "parse text = Some (JObj (offer_doc uuid r b meta))"
    and "string_at meta ''name'' = Some nm" and "int64_at meta ''size'' = Some len" and "string_at meta ''mimeType'' = Some mime"
  shows "\<exists>t v. server_message sent_ok writer parse w text s = Some t \<and> quiet s t \<and> ws_data (net s) v = Some b \<and>
    outgoing (net t) = outgoing (net s) @ [(v, writer (JObj (offer_doc uuid r a meta)))]"
proof -
  have "relayed a (offer_doc uuid r b meta) = JObj (offer_doc uuid r a meta)"
    by (simp add: relayed_def offer_doc_def)
  moreover have d: "string_at (offer_doc uuid r b meta) ''type'' = Some ''file_offer''"
    "well_formed HFileOffer (offer_doc uuid r b meta)"
    "string_at (offer_doc uuid r b meta) ''peer'' = Some b" "string_at (offer_doc uuid r b meta) ''room'' = Some r"
    using assms(5,6,8-10) by (simp_all add: exchange_docs nul_free_def)
  ultimately show ?thesis
    using server_relays [where parse = parse, OF assms(1,2,7) d(1) route_labels(10) d(2-4) assms(3,4), of sent_ok writer] by simp
qed

lemma response_relayed:
  assumes "server_inv s" and "ws_data (net s) w = Some b" and "a \<in> members s r" and "b \<in> members s r"
    and "nul_free a" and "nul_free r" and "parse text = Some (JObj (response_doc ty uuid r a meta))"
    and "string_at meta ''name'' = Some nm"
    and "ty = ''file_accept'' \<and> h = HFileAccept \<or> ty = ''file_reject'' \<and> h = HFileReject"
  shows "\<exists>t v. server_message sent_ok writer parse w text s = Some t \<and> quiet s t \<and> ws_data (net s) v = Some a \<and>
    outgoing (net t) = outgoing (net s) @ [(v, writer (JObj (response_doc ty uuid r b meta)))]"
proof -
  let ?d = "response_doc ty uuid r a meta"
  have "relayed b ?d = JObj (response_doc ty uuid r b meta)"
    by (simp add: relayed_def response_doc_def)
  moreover have d: "string_at ?d ''type'' = Some ty" "route ty = Some h" "well_formed h ?d"
    "string_at ?d ''peer'' = Some a" "string_at ?d ''room'' = Some r"
    using assms(5,6,8,9) by (auto simp: exchange_docs nul_free_def)
  ultimately show ?thesis
    using server_relays [where parse = parse, OF assms(1,2,7) d assms(4,3), of sent_ok writer] by simp
qed

section \<open>The receiver's and the sender's hop\<close>

lemma client_takes:
  assumes "json_codec parse writer" and "string_at doc ''type'' = Some l" and "route l = Some h"
  shows "client_message E parse (writer (JObj doc)) st = client_handle E h doc st"
  using assms by (simp add: client_message_def MessageRouter_doc)

lemma offer_fields:
  assumes "nul_free a" and "nul_free r" and "string_at meta ''name'' = Some nm" and "int64_at meta ''size'' = Some len"
    and "string_at meta ''mimeType'' = Some mime"
  shows "file_offer_fields (offer_doc uuid r a meta) = Some (a, r, meta, nm, len)"
  using assms by (simp add: file_offer_fields_def exchange_docs)

lemma response_made:
  assumes "nul_free a"
  shows "SendFileAccept E (offer_doc uuid r a meta) st =
      Some (snd (SendMessage E (c_str (json_writer E (JObj (response_doc ''file_accept'' uuid r a meta)))) st))"
    and "nul_free uuid \<Longrightarrow> SendFileReject E (offer_doc uuid r a meta) st =
      Some (snd (SendMessage E (c_str (json_writer E (JObj (response_doc ''file_reject'' uuid r a meta)))) st))"
  using assms
  by (simp_all add: SendFileAccept_def SendFileReject_def retype_def add_member_def JCstr_def exchange_docs)

lemma pending_taken:
  assumes "nul_free uuid" and "m_pendingOffers st uuid = Some offer"
  shows "TakePendingOffer (response_doc ty uuid r b meta) st =
    Some (offer, st\<lparr>m_pendingOffers := (m_pendingOffers st)(uuid := None)\<rparr>)"
  using assms by (simp add: TakePendingOffer_def exchange_docs)

lemma uuid_nul_free [simp]: "nul_free (generateUUID r)"
  using generateUUID_chars [of r] by (auto simp: nul_free_def)

text \<open>What an announced offer leaves in its sender.\<close>

lemma offer_announced:
  assumes "SendFileOffer_commit E room peer path fdsc st = (True, t)" and "uuid = generateUUID (random_bytes E)"
  shows "sent t = sent st @ [file_offer_payload uuid room peer fdsc]"
    and "m_pendingOffers t uuid = Some \<lparr>key = (peer, room), offer_path = path\<rparr>"
    and "m_clientState t = CLIENT_WAIT_FOR_FILE_ACCEPT" and "m_dataChannels t = m_dataChannels st" and "queues t = queues st"
  using assms by (auto simp: SendFileOffer_commit_def SendMessage_def Let_def split: if_splits)

lemma offer_prepared:
  assumes "SendFileOffer E room peer path st = (True, t)" and "optional_setting st ''directory'' = Some dir"
    and "offered_path (cwd E) dir path = Some nm" and "nm \<noteq> []" and "file_bytes E path st = Some content"
    and "get_mime_type (magic E) (Some content) path = Inr mime"
  shows "SendFileOffer_commit E room peer path (file_text nm content mime) st = (True, t)"
    and "\<exists>dc q. m_dataChannels st (peer, room) = Some dc \<and> fileQ dc = Some q"
  using assms
  by (auto simp: SendFileOffer_def SendFileOffer_prepare_def get_file_info_def usable_def split: option.splits if_splits)

lemma send_file_all:
  assumes "0 < n" and "file_bytes E path st = Some c" and "send_file E w n peer room path st = Returned (True, out, t)"
  shows "out = blocks n c"
  using send_file_block_sizes [OF assms] by simp

lemma accept_queues:
  assumes "nul_free uuid" and "m_pendingOffers st uuid = Some \<lparr>key = (b, r), offer_path = path\<rparr>"
    and "m_dataChannels st (b, r) = Some dc" and "fileQ dc = Some q"
  shows "\<exists>t. OnFileAccept (response_doc ''file_accept'' uuid r b meta) st = Some t \<and>
    m_Items (queues t q) = m_Items (queues st q) @ [path] \<and> m_pendingOffers t uuid = None \<and>
    (m_clientState st = CLIENT_WAIT_FOR_FILE_ACCEPT \<longrightarrow> m_clientState t = CLIENT_RUN)"
  using assms by (simp add: OnFileAccept_def pending_taken [OF assms(1,2)] release_wait_def AddItem_def)

lemma reject_releases:
  assumes "nul_free uuid" and "m_pendingOffers st uuid = Some offer"
  shows "\<exists>t. OnFileReject (response_doc ''file_reject'' uuid r b meta) st = Some t \<and>
    queues t = queues st \<and> m_pendingOffers t uuid = None \<and>
    (m_clientState st = CLIENT_WAIT_FOR_FILE_ACCEPT \<longrightarrow> m_clientState t = CLIENT_RUN)"
  by (simp add: OnFileReject_def pending_taken [OF assms] release_wait_def)

text \<open>A receiver that has nothing pending from a sender takes one file of it.\<close>

lemma each_chunks: "each (transfer_step E a r) (map Inr bs) st = Some (fold (OnIncomingChunk E a r) bs st)"
  by (induction bs arbitrary: st) (simp_all add: transfer_step_def)

lemma feasible_chunks: "feasible n (map Inr bs) bs"
  by (induction bs) auto

lemma one_file_received:
  assumes "0 < n" and "write_ok E" and "optional_setting st ''directory'' = Some dir"
    and "m_incomingFiles st (a, r) = None" and "fsys_inv (files st)"
    and "file_offer_fields doc = Some (a, r, meta, nm, int (length content))" and "map_of doc ''type'' \<noteq> None"
    and "destination_path dir nm = Some dest" and "parent_path dest = [] \<or> dirs_ok E (parent_path dest)"
    and "disk (files st) (resolve (cwd E) dest) = None" and "room_for E (flocks (files st)) [(dest, content)]"
  shows "\<exists>st1. OnFileOffer E doc st = Some st1 \<and>
    (let t = fold (OnIncomingChunk E a r) (blocks n content) st1 in
      disk (files t) = (disk (files st))(resolve (cwd E) dest \<mapsto> content) \<and> m_incomingFiles t (a, r) = None \<and>
      normal_path E dest \<in> m_receivedPaths t)"
proof -
  let ?evs = "Inl (doc, content) # map Inr (blocks n content)"
  have off: "map (offered_file dir) (offers ?evs) = [(dest, content)]"
  proof -
    have "offers (map Inr bs) = []" for bs by (induction bs) auto
    then show ?thesis using assms(6,8) by (simp add: offered_file_def)
  qed
  have i: "recv_inv E (a, r) (flocks (files st)) (disk (files st)) [] None [] st"
    using assms(4,5) by (simp add: recv_inv_None completed_def fs_frame_def idle_locks_def fsys_inv_def)
  have f: "feasible n ?evs (todo n None [])"
    using feasible_chunks [of n "blocks n content"] by (simp add: todo_def)
  have ok: "\<forall>oc \<in> set (offers ?evs). offer_ok E dir a r oc \<and> disk (files st) (path_of E (offered_file dir oc)) = None"
  proof -
    have "offers ?evs = [(doc, content)]" using off by (cases "offers (map Inr (blocks n content))") auto
    then show ?thesis using assms(6-10) off by (auto simp: offer_ok_def)
  qed
  from run_events [OF f i assms(1-3) ok] off assms(11) obtain t where t: "each (transfer_step E a r) ?evs st = Some t"
      "recv_inv E (a, r) (flocks (files st)) (disk (files st)) [(dest, content)] None [] t"
    by (auto simp: cur_files_def)
  from t(1) obtain st1 where st1: "OnFileOffer E doc st = Some st1"
      "t = fold (OnIncomingChunk E a r) (blocks n content) st1"
    by (auto simp: each_chunks transfer_step_def split: option.splits)
  have "disk (files t) = (disk (files st))(resolve (cwd E) dest \<mapsto> content)"
    using t(2) by (auto simp: recv_inv_None completed_def fs_frame_def fun_eq_iff)
  moreover have "m_incomingFiles t (a, r) = None" "normal_path E dest \<in> m_receivedPaths t"
    using t(2) by (auto simp: recv_inv_None completed_def)
  ultimately show ?thesis using st1 by (auto simp: Let_def)
qed

section \<open>The exchange\<close>

text \<open>The announcement up to the receiver's handler, the response up to the sender's.\<close>

lemma offer_hop:
  assumes "server_inv s" and "ws_data (net s) w = Some a" and "a \<in> members s r" and "b \<in> members s r"
    and "nul_free a" and "nul_free b" and "nul_free r" and "json_codec parse writer"
    and "parse text = Some (JObj (offer_doc uuid r b meta))" and "string_at meta ''name'' = Some nm"
    and "int64_at meta ''size'' = Some len" and "string_at meta ''mimeType'' = Some mime"
  shows "\<exists>t v m. server_message sent_ok writer parse w text s = Some t \<and> outgoing (net t) = outgoing (net s) @ [(v, m)] \<and>
    ws_data (net s) v = Some b \<and> server_inv t \<and> ws_data (net t) = ws_data (net s) \<and> members t = members s \<and>
    (\<forall>E st. client_message E parse m st = OnFileOffer E (offer_doc uuid r a meta) st)"
proof -
  obtain t v where t: "server_message sent_ok writer parse w text s = Some t" "quiet s t" "ws_data (net s) v = Some b"
      "outgoing (net t) = outgoing (net s) @ [(v, writer (JObj (offer_doc uuid r a meta)))]"
    using offer_relayed [where parse = parse, OF assms(1-4,6,7,9-12)] by blast
  moreover have "client_message E parse (writer (JObj (offer_doc uuid r a meta))) st = OnFileOffer E (offer_doc uuid r a meta) st"
    for E st
    using client_takes [OF assms(8), of "offer_doc uuid r a meta" "''file_offer''" HFileOffer]
    by (simp add: exchange_docs nul_free_def)
  ultimately show ?thesis using assms(1) by (auto simp: quiet_def)
qed

lemma response_hop:
  assumes "server_inv s" and "ws_data (net s) w = Some b" and "a \<in> members s r" and "b \<in> members s r"
    and "nul_free a" and "nul_free r" and "json_codec parse writer" and "json_codec parse own_writer"
    and "string_at meta ''name'' = Some nm"
    and "ty = ''file_accept'' \<and> h = HFileAccept \<or> ty = ''file_reject'' \<and> h = HFileReject"
  shows "\<exists>t v m. server_message sent_ok writer parse w (own_writer (JObj (response_doc ty uuid r a meta))) s = Some t \<and>
    outgoing (net t) = outgoing (net s) @ [(v, m)] \<and> ws_data (net s) v = Some a \<and>
    (\<forall>E st. client_message E parse m st = client_handle E h (response_doc ty uuid r b meta) st)"
proof -
  have p: "parse (own_writer (JObj (response_doc ty uuid r a meta))) = Some (JObj (response_doc ty uuid r a meta))"
    using assms(8) by simp
  have l: "string_at (response_doc ty uuid r b meta) ''type'' = Some ty" "route ty = Some h"
    using assms(10) by (auto simp: exchange_docs nul_free_def)
  then have "client_message E parse (writer (JObj (response_doc ty uuid r b meta))) st =
      client_handle E h (response_doc ty uuid r b meta) st" for E st
    by (rule client_takes [OF assms(7)])
  with response_relayed [where parse = parse, OF assms(1-6) p assms(9,10), of sent_ok writer] show ?thesis by blast
qed

text \<open>
  An announced file gets there. Client \<open>a\<close> announces a file to \<open>b\<close>, both members of the room: the
  server hands the announcement to \<open>b\<close>'s socket, \<open>b\<close> prepares the destination and accepts, the
  server hands the acceptance to \<open>a\<close>'s socket, and \<open>a\<close> puts the path into the queue of its channel to
  \<open>b\<close> and leaves its wait. Whatever way the sending thread of that channel then goes to the end of the
  file, the chunks it hands to the channel leave \<open>b\<close> with the very contents at the destination, no other
  file changed, and nothing pending.
\<close>

theorem offer_reaches_peer:
  fixes sA sB :: client
  assumes "server_reach sent_ok writer parse s" and "ws_data (net s) wa = Some a" and "ws_data (net s) wb = Some b"
    and "a \<in> members s r" and "b \<in> members s r" and "nul_free a" and "nul_free b" and "nul_free r"
    and "json_codec parse writer" and "json_codec parse (json_writer EB)" and "\<forall>v. nul_free (json_writer EB v)"
    and "SendFileOffer EA r b path sA = (True, sA1)" and "optional_setting sA ''directory'' = Some dirA"
    and "offered_path (cwd EA) dirA path = Some nm" and "nm \<noteq> []" and "file_bytes EA path sA = Some content"
    and "get_mime_type (magic EA) (Some content) path = Inr mime" and "nul_free nm" and "nul_free mime" and "length content < 2 ^ 63"
    and "uuid = generateUUID (random_bytes EA)" and "parse (file_offer_payload uuid r b (file_text nm content mime)) =
      Some (JObj (offer_doc uuid r b (file_meta nm content mime)))"
    and "0 < n" and "write_ok EB" and "sends EB = (\<lambda>m. True)" and "optional_setting sB ''directory'' = Some dirB"
    and "m_incomingFiles sB (a, r) = None" and "fsys_inv (files sB)"
    and "destination_path dirB nm = Some dest" and "parent_path dest = [] \<or> dirs_ok EB (parent_path dest)"
    and "disk (files sB) (resolve (cwd EB) dest) = None" and "room_for EB (flocks (files sB)) [(dest, content)]"
  shows "\<exists>s1 m1 va vb sB1 s2 m2 sA2 q.
    server_message sent_ok writer parse wa (last (sent sA1)) s = Some s1 \<and>
    outgoing (net s1) = outgoing (net s) @ [(vb, m1)] \<and> ws_data (net s) vb = Some b \<and>
    client_message EB parse m1 sB = Some sB1 \<and>
    server_message sent_ok writer parse wb (last (sent sB1)) s1 = Some s2 \<and>
    outgoing (net s2) = outgoing (net s1) @ [(va, m2)] \<and> ws_data (net s) va = Some a \<and>
    client_message E parse m2 sA1 = Some sA2 \<and> m_clientState sA2 = CLIENT_RUN \<and>
    Option.bind (m_dataChannels sA (b, r)) fileQ = Some q \<and>
    m_Items (queues sA2 q) = m_Items (queues sA q) @ [path] \<and>
    (\<forall>E' w sA3 out t. file_bytes E' path sA3 = Some content \<and>
      send_file E' w n b r path sA3 = Returned (True, out, t) \<longrightarrow>
      (let u = fold (OnIncomingChunk EB a r) out sB1 in
        disk (files u) = (disk (files sB))(resolve (cwd EB) dest \<mapsto> content) \<and> m_incomingFiles u (a, r) = None))"
proof -
  note inv = reach_server_inv [OF assms(1)]
  note prep = offer_prepared [OF assms(12-17)]
  obtain dc q where q: "m_dataChannels sA (b, r) = Some dc" "fileQ dc = Some q" using prep(2) by blast
  note ann = offer_announced [OF prep(1) assms(21)]
  let ?meta = "file_meta nm content mime"
  note meta = file_meta_fields(1) [OF assms(18), of content mime] file_meta_fields(2) [OF assms(20), of nm mime]
    file_meta_fields(3) [OF assms(19), of nm content]
  have uf: "nul_free uuid" by (simp add: assms(21))
  have last: "last (sent sA1) = file_offer_payload uuid r b (file_text nm content mime)" by (simp add: ann(1))
  let ?doc = "offer_doc uuid r a ?meta"
  obtain s1 vb m1 where s1: "server_message sent_ok writer parse wa (last (sent sA1)) s = Some s1"
      "outgoing (net s1) = outgoing (net s) @ [(vb, m1)]" "ws_data (net s) vb = Some b"
      "server_inv s1" "ws_data (net s1) = ws_data (net s)" "members s1 = members s"
      "\<And>E st. client_message E parse m1 st = OnFileOffer E ?doc st"
    using offer_hop [where parse = parse, OF inv assms(2,4-9,22) meta] unfolding last by blast
  have f: "file_offer_fields ?doc = Some (a, r, ?meta, nm, int (length content))"
    by (rule offer_fields [OF assms(6,8) meta])
  obtain sB1 where sB1: "OnFileOffer EB ?doc sB = Some sB1"
      "let t = fold (OnIncomingChunk EB a r) (blocks n content) sB1 in
        disk (files t) = (disk (files sB))(resolve (cwd EB) dest \<mapsto> content) \<and> m_incomingFiles t (a, r) = None \<and>
        normal_path EB dest \<in> m_receivedPaths t"
    using one_file_received [OF assms(23,24,26,27,28) f _ assms(29-32)] by (auto simp: offer_doc_def)
  have B: "client_message EB parse m1 sB = Some sB1" using s1(7) sB1(1) by simp
  have "\<not> already_present EB ?meta dest sB"
    using assms(31) by (simp add: already_present_def file_bytes_def get_crc_def Let_def split: option.splits)
  then have "OnFileOffer EB ?doc sB =
      SendFileAccept EB ?doc (enqueue_incoming EB (a, r) (new_incoming (int (length content)) dest) sB)"
    using f assms(26,29,30) by (auto simp: OnFileOffer_def)
  then have l2: "last (sent sB1) = json_writer EB (JObj (response_doc ''file_accept'' uuid r a ?meta))" (is "_ = ?m2")
    using sB1(1) response_made(1) [OF assms(6), of EB uuid r ?meta] assms(11,25) by (auto simp: SendMessage_def)
  have w: "ws_data (net s1) wb = Some b" "a \<in> members s1 r" "b \<in> members s1 r" using s1(5,6) assms(3-5) by simp_all
  from response_hop [where parse = parse and own_writer = "json_writer EB", OF s1(4) w assms(6,8,9,10) meta(1),
      of "''file_accept''" HFileAccept sent_ok uuid] s1(5)
  obtain s2 va m2 where s2: "server_message sent_ok writer parse wb ?m2 s1 = Some s2" "ws_data (net s) va = Some a"
      "outgoing (net s2) = outgoing (net s1) @ [(va, m2)]"
      "\<And>E st. client_message E parse m2 st = client_handle E HFileAccept (response_doc ''file_accept'' uuid r b ?meta) st"
    by auto
  obtain sA2 where sA2: "OnFileAccept (response_doc ''file_accept'' uuid r b ?meta) sA1 = Some sA2"
      "m_Items (queues sA2 q) = m_Items (queues sA q) @ [path]" "m_clientState sA2 = CLIENT_RUN"
    using accept_queues [OF uf ann(2) _ q(2)] ann(3-5) q(1) by auto
  have A: "client_message E parse m2 sA1 = Some sA2" using s2(4) sA2(1) by simp
  have T: "disk (files (fold (OnIncomingChunk EB a r) out sB1)) = (disk (files sB))(resolve (cwd EB) dest \<mapsto> content) \<and>
      m_incomingFiles (fold (OnIncomingChunk EB a r) out sB1) (a, r) = None"
    if "file_bytes E' path sA3 = Some content" "send_file E' w n b r path sA3 = Returned (True, out, t)" for E' w sA3 out t
    using send_file_all [OF assms(23) that] sB1(2) by (simp add: Let_def)
  have Q: "Option.bind (m_dataChannels sA (b, r)) fileQ = Some q" by (simp add: q)
  show ?thesis
    by (intro exI conjI allI impI, rule s1(1), rule s1(2), rule s1(3), rule B, unfold l2 Let_def, rule s2(1), rule s2(3),
        rule s2(2), rule A, rule sA2(3), rule Q, rule sA2(2)) (elim conjE, rule T, assumption+)
qed

text \<open>
  A file the receiver already has is not sent again: when what is at the destination has the checksum of
  the announced file, \<open>b\<close> declines, the server hands the rejection to \<open>a\<close>'s socket, and \<open>a\<close> leaves
  its wait with nothing queued; \<open>b\<close>'s files are as they were. Only the 32-bit checksums are compared: a
  different file with the same checksum is not replaced.
\<close>

theorem known_file_declined:
  fixes sA sB :: client
  assumes "server_reach sent_ok writer parse s" and "ws_data (net s) wa = Some a" and "ws_data (net s) wb = Some b"
    and "a \<in> members s r" and "b \<in> members s r" and "nul_free a" and "nul_free b" and "nul_free r"
    and "json_codec parse writer" and "json_codec parse (json_writer EB)" and "\<forall>v. nul_free (json_writer EB v)"
    and "SendFileOffer EA r b path sA = (True, sA1)" and "optional_setting sA ''directory'' = Some dirA"
    and "offered_path (cwd EA) dirA path = Some nm" and "nm \<noteq> []" and "file_bytes EA path sA = Some content"
    and "get_mime_type (magic EA) (Some content) path = Inr mime" and "nul_free nm" and "nul_free mime" and "length content < 2 ^ 63"
    and "uuid = generateUUID (random_bytes EA)" and "parse (file_offer_payload uuid r b (file_text nm content mime)) =
      Some (JObj (offer_doc uuid r b (file_meta nm content mime)))"
    and "sends EB = (\<lambda>m. True)" and "optional_setting sB ''directory'' = Some dirB"
    and "destination_path dirB nm = Some dest" and "parent_path dest = [] \<or> dirs_ok EB (parent_path dest)"
    and "file_bytes EB dest sB = Some held" and "get_crc (Some held) = get_crc (Some content)"
  shows "\<exists>s1 m1 va vb sB1 s2 m2 sA2.
    server_message sent_ok writer parse wa (last (sent sA1)) s = Some s1 \<and>
    outgoing (net s1) = outgoing (net s) @ [(vb, m1)] \<and> ws_data (net s) vb = Some b \<and>
    client_message EB parse m1 sB = Some sB1 \<and> files sB1 = files sB \<and> m_incomingFiles sB1 = m_incomingFiles sB \<and>
    server_message sent_ok writer parse wb (last (sent sB1)) s1 = Some s2 \<and>
    outgoing (net s2) = outgoing (net s1) @ [(va, m2)] \<and> ws_data (net s) va = Some a \<and>
    client_message E parse m2 sA1 = Some sA2 \<and> m_clientState sA2 = CLIENT_RUN \<and> queues sA2 = queues sA"
proof -
  note inv = reach_server_inv [OF assms(1)]
  note prep = offer_prepared [OF assms(12-17)]
  note ann = offer_announced [OF prep(1) assms(21)]
  let ?meta = "file_meta nm content mime"
  note meta = file_meta_fields(1) [OF assms(18), of content mime] file_meta_fields(2) [OF assms(20), of nm mime]
    file_meta_fields(3) [OF assms(19), of nm content]
  have uf: "nul_free uuid" by (simp add: assms(21))
  have last: "last (sent sA1) = file_offer_payload uuid r b (file_text nm content mime)" by (simp add: ann(1))
  let ?doc = "offer_doc uuid r a ?meta"
  obtain s1 vb m1 where s1: "server_message sent_ok writer parse wa (last (sent sA1)) s = Some s1"
      "outgoing (net s1) = outgoing (net s) @ [(vb, m1)]" "ws_data (net s) vb = Some b"
      "server_inv s1" "ws_data (net s1) = ws_data (net s)" "members s1 = members s"
      "\<And>E st. client_message E parse m1 st = OnFileOffer E ?doc st"
    using offer_hop [where parse = parse, OF inv assms(2,4-9,22) meta] unfolding last by blast
  obtain c where c: "get_crc (Some held) = Some c" by (cases "get_crc (Some held)") (auto simp: get_crc_def read_blocks_eq)
  then have "already_present EB ?meta dest sB"
    using assms(27,28) file_meta_fields(4) [of nm content mime] by (simp add: already_present_def)
  then have "OnFileOffer EB ?doc sB = SendFileReject EB ?doc sB"
    using offer_fields [OF assms(6,8) meta, of uuid] assms(24-26) by (auto simp: OnFileOffer_def)
  let ?sB1 = "sB\<lparr>sent := sent sB @ [json_writer EB (JObj (response_doc ''file_reject'' uuid r a ?meta))]\<rparr>"
  have B: "client_message EB parse m1 sB = Some ?sB1"
    using s1(7) \<open>OnFileOffer EB ?doc sB = _\<close> response_made(2) [OF assms(6) uf, of EB r ?meta] assms(11,23)
    by (simp add: SendMessage_def)
  have l2: "last (sent ?sB1) = json_writer EB (JObj (response_doc ''file_reject'' uuid r a ?meta))" (is "_ = ?m2") by simp
  have w: "ws_data (net s1) wb = Some b" "a \<in> members s1 r" "b \<in> members s1 r" using s1(5,6) assms(3-5) by simp_all
  from response_hop [where parse = parse and own_writer = "json_writer EB", OF s1(4) w assms(6,8,9,10) meta(1),
      of "''file_reject''" HFileReject sent_ok uuid] s1(5)
  obtain s2 va m2 where s2: "server_message sent_ok writer parse wb ?m2 s1 = Some s2" "ws_data (net s) va = Some a"
      "outgoing (net s2) = outgoing (net s1) @ [(va, m2)]"
      "\<And>E st. client_message E parse m2 st = client_handle E HFileReject (response_doc ''file_reject'' uuid r b ?meta) st"
    by auto
  obtain sA2 where sA2: "OnFileReject (response_doc ''file_reject'' uuid r b ?meta) sA1 = Some sA2"
      "queues sA2 = queues sA" "m_clientState sA2 = CLIENT_RUN"
    using reject_releases [OF uf ann(2), of r b ?meta] ann(3,5) by auto
  have A: "client_message E parse m2 sA1 = Some sA2" using s2(4) sA2(1) by simp
  have F: "files ?sB1 = files sB" "m_incomingFiles ?sB1 = m_incomingFiles sB" by simp_all
  show ?thesis
    by (intro exI conjI, rule s1(1), rule s1(2), rule s1(3), rule B, rule F, rule F, unfold l2, rule s2(1), rule s2(3),
        rule s2(2), rule A, rule sA2(3), rule sA2(2))
qed

section \<open>An exchange\<close>

text \<open>A parser for the text of one announcement and, beside it, the documents of the codec.\<close>

definition demo_uuid :: string where
  "demo_uuid = generateUUID (replicate 16 0)"

definition exchange_parse :: "string \<Rightarrow> json option" where
  "exchange_parse text =
     (if text = file_offer_payload demo_uuid ''r'' ''bob'' (file_text ''f'' ''hello'' ''text/plain'')
      then Some (JObj (offer_doc demo_uuid ''r'' ''bob'' (file_meta ''f'' ''hello'' ''text/plain'')))
      else unary_parse text)"

lemma unary_write_chars: "set (unary_write v) \<subseteq> {CHR ''1''}"
  by (auto simp: unary_write_def)

lemma unary_write_nul_free: "nul_free (unary_write v)"
  using unary_write_chars [of v] by (auto simp: nul_free_def)

lemma exchange_codec: "json_codec exchange_parse unary_write"
proof -
  have "unary_write v \<noteq> file_offer_payload u r p f" for v u r p f
  proof
    assume "unary_write v = file_offer_payload u r p f"
    then have "CHR ''{'' \<in> set (unary_write v)" by (simp add: file_offer_payload_def)
    then show False using unary_write_chars [of v] by auto
  qed
  then show ?thesis using unary_codec by (simp add: json_codec_def exchange_parse_def)
qed

definition exchange_env :: env where
  "exchange_env = demo_env\<lparr>json_writer := unary_write\<rparr>"

text \<open>The sender's \<open>--directory\<close> is \<open>/w\<close>, its working directory; the receiver's is \<open>in\<close>.\<close>

definition exchange_sender :: client where
  "exchange_sender = demo_connected_client\<lparr>m_properties := [''directory'' \<mapsto> VString ''/w'', ''name'' \<mapsto> VString ''alice''],
     files := fsys_init\<lparr>disk := [[''w'', ''f''] \<mapsto> ''hello'']\<rparr>\<rparr>"

lemma exchange_sender_facts:
  "optional_setting exchange_sender ''directory'' = Some ''/w''" "offered_path ''/w'' ''/w'' ''f'' = Some ''f''"
  "file_bytes exchange_env ''f'' exchange_sender = Some ''hello''" "get_mime_type (magic exchange_env) (Some ''hello'') path = Inr ''text/plain''"
  "cwd exchange_env = ''/w''"
proof -
  show "offered_path ''/w'' ''/w'' ''f'' = Some ''f''" by code_simp
  show "optional_setting exchange_sender ''directory'' = Some ''/w''"
    by (simp add: exchange_sender_def optional_setting_def setting_def Contains_def Get_string_def)
  show "file_bytes exchange_env ''f'' exchange_sender = Some ''hello''"
    by (simp add: exchange_sender_def exchange_env_def demo_env_def file_bytes_def resolve_def demo_transfer_defs)
qed (simp_all add: exchange_env_def demo_env_def get_mime_type_def)

lemma exchange_announces:
  "\<exists>sA1. SendFileOffer exchange_env ''r'' ''bob'' ''f'' exchange_sender = (True, sA1)"
proof -
  have "SendFileOffer_prepare exchange_env ''r'' ''bob'' ''f'' exchange_sender = Some (file_text ''f'' ''hello'' ''text/plain'')"
    unfolding SendFileOffer_prepare_def exchange_sender_facts
    by (simp add: exchange_sender_facts get_file_info_def)
      (simp add: exchange_sender_def demo_connected_client_def demo_channel_def usable_def)
  then show ?thesis
    by (simp add: SendFileOffer_def SendFileOffer_commit_def SendMessage_def Let_def) (simp add: exchange_env_def demo_env_def)
qed

lemma exchange_parsed:
  "exchange_parse (file_offer_payload (generateUUID (replicate 16 0)) ''r'' ''bob'' (file_text ''f'' ''hello'' ''text/plain'')) =
     Some (JObj (offer_doc (generateUUID (replicate 16 0)) ''r'' ''bob'' (file_meta ''f'' ''hello'' ''text/plain'')))"
  by (simp add: exchange_parse_def demo_uuid_def)

lemma exchange_setting:
  "\<exists>s. server_reach demo_sent unary_write exchange_parse s \<and> ws_data (net s) 1 = Some ''alice'' \<and>
     ws_data (net s) 2 = Some ''bob'' \<and> ''alice'' \<in> members s ''r'' \<and> ''bob'' \<in> members s ''r''"
proof -
  obtain s where s: "server_reach demo_sent unary_write exchange_parse s" "members s ''r'' = {''alice'', ''bob''}"
      "ws_data (net s) = [1 \<mapsto> ''alice'', 2 \<mapsto> ''bob'']"
    using codec_run [OF exchange_codec] by blast
  show ?thesis by (intro exI conjI, rule s(1)) (simp_all add: s(2,3))
qed

lemma exchange_names: "nul_free ''alice''" "nul_free ''bob''" "nul_free ''r''" "nul_free ''f''" "nul_free ''text/plain''"
  by (simp_all add: nul_free_def)

lemma exchange_env_facts:
  "json_codec exchange_parse (json_writer exchange_env)" "\<forall>v. nul_free (json_writer exchange_env v)"
  "generateUUID (replicate 16 0) = generateUUID (random_bytes exchange_env)"
  "write_ok exchange_env" "sends exchange_env = (\<lambda>m. True)" "offered_path (cwd exchange_env) ''/w'' ''f'' = Some ''f''"
  "parent_path ''in/f'' = [] \<or> dirs_ok exchange_env (parent_path ''in/f'')"
proof -
  have e: "json_writer exchange_env = unary_write" "random_bytes exchange_env = replicate 16 0" "dirs_ok exchange_env = (\<lambda>p. True)"
    by (simp_all add: exchange_env_def demo_env_def)
  show "json_codec exchange_parse (json_writer exchange_env)" unfolding e by (rule exchange_codec)
  show "\<forall>v. nul_free (json_writer exchange_env v)" unfolding e by (simp only: unary_write_nul_free simp_thms)
  show "generateUUID (replicate 16 0) = generateUUID (random_bytes exchange_env)" unfolding e ..
  show "parent_path ''in/f'' = [] \<or> dirs_ok exchange_env (parent_path ''in/f'')" unfolding e by simp
  show "offered_path (cwd exchange_env) ''/w'' ''f'' = Some ''f''" unfolding exchange_sender_facts(5) by (rule exchange_sender_facts(2))
qed (simp_all add: exchange_env_def demo_env_def)

theorem offer_reaches_peer_witness:
  "\<exists>s s1 m1 vb sA1 sB1. SendFileOffer exchange_env ''r'' ''bob'' ''f'' exchange_sender = (True, sA1) \<and>
     server_message demo_sent unary_write exchange_parse 1 (last (sent sA1)) s = Some s1 \<and>
     client_message exchange_env exchange_parse m1 demo_client = Some sB1 \<and>
     outgoing (net s1) = outgoing (net s) @ [(vb, m1)] \<and> ws_data (net s) vb = Some ''bob''"
proof -
  obtain s where s: "server_reach demo_sent unary_write exchange_parse s" "ws_data (net s) 1 = Some ''alice''"
      "ws_data (net s) 2 = Some ''bob''" "''alice'' \<in> members s ''r''" "''bob'' \<in> members s ''r''"
    using exchange_setting by blast
  obtain sA1 where sA1: "SendFileOffer exchange_env ''r'' ''bob'' ''f'' exchange_sender = (True, sA1)"
    using exchange_announces by blast
  have B: "optional_setting demo_client ''directory'' = Some ''in''" "m_incomingFiles demo_client (''alice'', ''r'') = None"
      "fsys_inv (files demo_client)"
    by (simp_all add: demo_client_def client_init_def optional_setting_def setting_def Contains_def Get_string_def fsys_inv_init)
  have d: "destination_path ''in'' ''f'' = Some ''in/f''" by (simp add: demo_transfer_defs)
  have new: "disk (files demo_client) (resolve (cwd exchange_env) ''in/f'') = None"
    by (simp add: demo_client_def client_init_def fsys_init_def)
  have room: "room_for exchange_env (flocks (files demo_client)) [(''in/f'', ''hello'')]"
    by (simp add: room_for_def demo_client_def client_init_def fsys_init_def exchange_env_def demo_env_def)
  have len: "length ''hello'' < 2 ^ 63" and n2: "(0::nat) < 2" and ne: "''f'' \<noteq> []" by simp_all
  show ?thesis
    using offer_reaches_peer [where parse = exchange_parse and E = exchange_env,
      OF s exchange_names(1-3) exchange_codec exchange_env_facts(1,2) sA1 exchange_sender_facts(1) exchange_env_facts(6) ne
        exchange_sender_facts(3,4) exchange_names(4,5) len exchange_env_facts(3) exchange_parsed n2 exchange_env_facts(4,5)
        B d exchange_env_facts(7) new room] sA1
    by (elim exE conjE) (intro exI conjI, assumption+)
qed

definition exchange_holder :: client where
  "exchange_holder = demo_client\<lparr>files := fsys_init\<lparr>disk := [[''w'', ''in'', ''f''] \<mapsto> ''hello'']\<rparr>\<rparr>"

theorem known_file_declined_witness:
  "\<exists>s s1 m1 vb sA1 sB1. SendFileOffer exchange_env ''r'' ''bob'' ''f'' exchange_sender = (True, sA1) \<and>
     server_message demo_sent unary_write exchange_parse 1 (last (sent sA1)) s = Some s1 \<and>
     outgoing (net s1) = outgoing (net s) @ [(vb, m1)] \<and>
     client_message exchange_env exchange_parse m1 exchange_holder = Some sB1 \<and> files sB1 = files exchange_holder"
proof -
  obtain s where s: "server_reach demo_sent unary_write exchange_parse s" "ws_data (net s) 1 = Some ''alice''"
      "ws_data (net s) 2 = Some ''bob''" "''alice'' \<in> members s ''r''" "''bob'' \<in> members s ''r''"
    using exchange_setting by blast
  obtain sA1 where sA1: "SendFileOffer exchange_env ''r'' ''bob'' ''f'' exchange_sender = (True, sA1)"
    using exchange_announces by blast
  have B: "optional_setting exchange_holder ''directory'' = Some ''in''"
    by (simp add: exchange_holder_def demo_client_def client_init_def optional_setting_def setting_def Contains_def Get_string_def)
  have d: "destination_path ''in'' ''f'' = Some ''in/f''" by (simp add: demo_transfer_defs)
  have held: "file_bytes exchange_env ''in/f'' exchange_holder = Some ''hello''"
    by (simp add: exchange_holder_def exchange_env_def demo_env_def file_bytes_def resolve_def demo_transfer_defs)
  have len: "length ''hello'' < 2 ^ 63" and ne: "''f'' \<noteq> []" by simp_all
  show ?thesis
    using known_file_declined [where parse = exchange_parse and E = exchange_env,
      OF s exchange_names(1-3) exchange_codec exchange_env_facts(1,2) sA1 exchange_sender_facts(1) exchange_env_facts(6) ne
        exchange_sender_facts(3,4) exchange_names(4,5) len exchange_env_facts(3) exchange_parsed exchange_env_facts(5)
        B d exchange_env_facts(7) held refl] sA1
    by (elim exE conjE) (intro exI conjI, assumption+)
qed

end
