(* ===== verification/Negotiation.thy ===== *)
theory Negotiation
  imports Offer_Exchange
begin

text \<open>
  How two clients get a connection: the caller gathers its description and offers it, the server relays
  the offer, the callee sets it up and answers, the server relays the answer, the caller sets it. The
  descriptions and candidates cross the server in Base64. \<open>sdp_offer_doc\<close> and \<open>sdp_answer_doc\<close> are
  the documents that the texts the two sides concatenate spell.
\<close>

section \<open>Gathering\<close>

text \<open>
  What is offered is what was gathered: \<open>obtainInitialDescription\<close> succeeds exactly when the channel
  can be made, gathering completes before the time-out and a description was reported; the channel is
  then usable with an empty queue of its own, and its description lists what the connection reported, in
  the order it did and nothing twice. When it fails, the client is as it was.
\<close>

theorem gathered_description:
  "(case obtainInitialDescription E dc st of (ok, dc', st') \<Rightarrow>
     (ok \<longleftrightarrow> creates_channel E (pc dc) \<noteq> None \<and> GatheringStateChange True \<in> set (gathering E (pc dc)) \<and>
        reported_descriptions (gathering E (pc dc)) \<noteq> []) \<and>
     (if ok then usable dc' \<and> pc dc' = pc dc \<and> channel dc' = creates_channel E (pc dc) \<and>
         descriptions (description dc') = reported_descriptions (gathering E (pc dc)) \<and>
         candidates (description dc') = reported_candidates (gathering E (pc dc)) \<and>
         m_Items (queues st' (the (fileQ dc'))) = []
      else st' = st))"
proof (cases "creates_channel E (pc dc)")
  case None
  then show ?thesis by (simp add: obtainInitialDescription_def)
next
  case (Some ch)
  then show ?thesis
    by (simp add: obtainInitialDescription_def fold_on_gather Let_def LocalDescription_def CreateStringQueue_def
        usable_def CreateQueue_def)
qed

section \<open>Documents\<close>

definition b64_array :: "(string \<Rightarrow> string) \<Rightarrow> string list \<Rightarrow> json list" where
  "b64_array encode xs = map (\<lambda>x. JStr (the (base64Encode encode x))) xs"

definition sdp_offer_doc :: "(string \<Rightarrow> string) \<Rightarrow> string \<Rightarrow> string \<Rightarrow> local_description \<Rightarrow> doc" where
  "sdp_offer_doc encode room peer d = [(''type'', JStr ''offer''), (''room'', JStr room), (''peer'', JStr peer),
     (''descriptions'', JArr (b64_array encode (descriptions d))), (''candidates'', JArr (b64_array encode (candidates d)))]"

definition sdp_answer_doc :: "string \<Rightarrow> string \<Rightarrow> string \<Rightarrow> doc" where
  "sdp_answer_doc peer room b64 = [(''type'', JStr ''answer''), (''peer'', JStr peer), (''room'', JStr room),
     (''sdp'', JStr b64)]"

lemmas sdp_docs = sdp_offer_doc_def sdp_answer_doc_def string_at_Cons array_at_def

lemma encoded:
  assumes "b64_codec encode decode" and "x \<noteq> []"
  shows "\<exists>e. base64Encode encode x = Some e \<and> base64Decode decode e = Some (True, x) \<and> nul_free e"
proof -
  obtain e where "base64Encode encode x = Some e" using assms(2) by (simp add: base64Encode_def)
  then show ?thesis using base64_roundtrip [OF assms(1)] by blast
qed

section \<open>The caller offers\<close>

lemma channel_offered:
  assumes "MakeDataChannel E peer room st = Some (True, t)"
  shows "\<exists>dc. m_dataChannels t (peer, room) = Some dc \<and> usable dc \<and>
    sent t = sent st @ [offer_payload E peer room (description dc)] \<and> rtc_calls t = rtc_calls st"
proof -
  obtain d st1 where d: "make_decision st = (d, st1)" by (cases "make_decision st")
  obtain p st2 where p: "MakePeerConnection peer room st1 = Some (p, st2)"
    using assms d by (cases "MakePeerConnection peer room st1") (auto simp: MakeDataChannel_def bind_eq_Some_conv)
  let ?dc = "\<lparr>pc = p, channel = None, fileQ = None, fileDecision = d, description = LocalDescription (random_bytes E)\<rparr>"
  obtain ok dc st3 where o: "obtainInitialDescription E ?dc st2 = (ok, dc, st3)"
    by (cases "obtainInitialDescription E ?dc st2")
  have r: "(True, t) = (if ok then publish_channel E peer room dc st3 else (False, st3))"
    using assms d p o by (cases ok) (auto simp: MakeDataChannel_def bind_eq_Some_conv)
  then have ok: "ok" "publish_channel E peer room dc st3 = (True, t)" by (cases ok; simp)+
  have u: "usable dc \<and> sent st3 = sent st2 \<and> rtc_calls st3 = rtc_calls st2"
    using o ok(1) by (auto simp: obtainInitialDescription_def CreateStringQueue_def usable_def Let_def
        split: option.splits if_splits)
  have "sent st2 = sent st" "rtc_calls st2 = rtc_calls st"
    using d p by (auto simp: make_decision_def MakePeerConnection_def Let_def bind_eq_Some_conv)
  with u ok(2) show ?thesis
    by (auto simp: publish_channel_def SendMessage_def split: if_splits)
qed

section \<open>The callee takes the offer\<close>

lemma candidates_added:
  assumes "b64_codec encode (dec E)" and "[] \<notin> set cs"
  shows "each (offer_candidate E p) (b64_array encode cs) st =
    Some (st\<lparr>rtc_calls := rtc_calls st @ map (\<lambda>c. (p, AddRemoteCandidate c ''0'')) cs\<rparr>)"
  using assms(2)
proof (induction cs arbitrary: st)
  case Nil
  then show ?case by (simp add: b64_array_def)
next
  case (Cons c cs)
  have "c \<noteq> []" using Cons.prems by auto
  then obtain e where e: "base64Encode encode c = Some e" "base64Decode (dec E) e = Some (True, c)" "nul_free e"
    using encoded [OF assms(1), of c] by blast
  have "offer_candidate E p (JStr e) st = Some (rtc p (AddRemoteCandidate c ''0'') st)"
    by (simp add: offer_candidate_def e)
  moreover have "b64_array encode (c # cs) = JStr e # b64_array encode cs" by (simp add: b64_array_def e(1))
  ultimately show ?case using Cons.IH [of "rtc p (AddRemoteCandidate c ''0'') st"] Cons.prems by (simp add: rtc_def)
qed

lemma offer_taken:
  assumes "b64_codec encode (dec E)" and "configured st" and "nul_free peer" and "nul_free room"
    and "descriptions d = sdp # others" and "sdp \<noteq> []" and "[] \<notin> set (candidates d)"
  shows "\<exists>t dc. OnOffer E (sdp_offer_doc encode room peer d) st = Some t \<and> m_incomingChannels t (peer, room) = Some dc \<and>
    rtc_calls t = rtc_calls st @ [(pc dc, SetRemoteDescription sdp ''offer''), (pc dc, CreateAnswer)] @
      map (\<lambda>c. (pc dc, AddRemoteCandidate c ''0'')) (candidates d)"
proof -
  let ?doc = "sdp_offer_doc encode room peer d"
  obtain e where e: "base64Encode encode sdp = Some e" "base64Decode (dec E) e = Some (True, sdp)" "nul_free e"
    using encoded [OF assms(1,6)] by blast
  have f: "string_at ?doc ''peer'' = Some peer" "string_at ?doc ''room'' = Some room"
      "array_at ?doc ''descriptions'' = Some (JStr e # b64_array encode others)"
      "array_at ?doc ''candidates'' = Some (b64_array encode (candidates d))"
    using assms(3,4,5) e(1) by (simp_all add: sdp_docs b64_array_def)
  obtain dn st1 where d: "make_decision st = (dn, st1)" by (cases "make_decision st")
  have "configured st1"
    using d assms(2) by (auto simp: make_decision_def configured_def setting_def setting_int_def)
  then obtain p st2 where p: "MakePeerConnection peer room st1 = Some (p, st2)"
    using MakePeerConnection_Some by blast
  have r: "rtc_calls st2 = rtc_calls st"
    using d p by (auto simp: make_decision_def MakePeerConnection_def Let_def bind_eq_Some_conv)
  have od: "offer_description E p ?doc s = Some (rtc p CreateAnswer (rtc p (SetRemoteDescription sdp ''offer'') s))" for s
    using f(3) e by (simp add: offer_description_def)
  show ?thesis
    by (simp add: OnOffer_def f d p od candidates_added [OF assms(1,7)] CreateStringQueue_def Let_def rtc_def r)
qed

section \<open>The answer comes back\<close>

lemma answer_relayed:
  assumes "server_inv s" and "ws_data (net s) w = Some b" and "a \<in> members s r" and "nul_free a" and "nul_free e"
    and "parse text = Some (JObj (sdp_answer_doc a r e))"
  shows "\<exists>t v. server_message sent_ok writer parse w text s = Some t \<and> ws_data (net s) v = Some a \<and>
    outgoing (net t) = outgoing (net s) @ [(v, writer (JObj (sdp_answer_doc b r e)))]"
proof -
  obtain v where v: "m_clientDB s a = Some v" "ws_data (net s) v = Some a"
    using server_invD(4) [OF assms(1,3)] by auto
  have d: "string_at (sdp_answer_doc a r e) ''type'' = Some ''answer''" "string_at (sdp_answer_doc a r e) ''peer'' = Some a"
      "string_at (sdp_answer_doc a r e) ''sdp'' = Some e"
      "relayed b (sdp_answer_doc a r e) = JObj (sdp_answer_doc b r e)"
    using assms(4,5) by (simp_all add: sdp_docs nul_free_def relayed_def)
  have "server_message sent_ok writer parse w text s =
      Server_OnAnswer writer (sdp_answer_doc a r e) (s\<lparr>m_currentWebSocket := Some w\<rparr>)"
    using assms(6) d(1) by (simp add: server_message_def MessageRouter_doc [OF _ _ route_labels(8)])
  also have "\<dots> = Some (deliver [(v, writer (JObj (sdp_answer_doc b r e)))] (s\<lparr>m_currentWebSocket := Some w\<rparr>))"
    using v assms(2) d(2-4) by (simp add: Server_OnAnswer_def with_client_def send_to_eq)
  finally show ?thesis using v(2) by simp
qed

lemma answer_taken:
  assumes "b64_codec encode (dec E)" and "base64Encode encode sdp = Some e" and "nul_free b" and "nul_free r"
    and "m_dataChannels st (b, r) = Some dc"
  shows "OnAnswer E (sdp_answer_doc b r e) st = Some (rtc (pc dc) (SetRemoteDescription sdp ''answer'') st)"
proof -
  note e = base64_roundtrip [OF assms(1,2)]
  have "string_at (sdp_answer_doc b r e) ''peer'' = Some b" "string_at (sdp_answer_doc b r e) ''room'' = Some r"
      "string_at (sdp_answer_doc b r e) ''sdp'' = Some e"
    using assms(3,4) e(3) by (simp_all add: sdp_docs)
  then show ?thesis using e(1) assms(5) by (simp add: OnAnswer_def answer_key_def FindPeerConnection_def)
qed

section \<open>The negotiation\<close>

text \<open>
  C19: two members of a room get connected: when \<open>a\<close> has made a channel to \<open>b\<close>, the server hands the offer
  to \<open>b\<close>'s socket; \<open>b\<close> keeps a connection for \<open>(a, room)\<close>, gives it \<open>a\<close>'s first description, asks for an
  answer and adds all of \<open>a\<close>'s candidates, each decoded to what \<open>a\<close> gathered and in that order. When \<open>b\<close>'s
  connection has its answer, the server hands it to \<open>a\<close>'s socket, and \<open>a\<close> gives exactly that answer to the
  connection it made for \<open>(b, room)\<close>.
\<close>

theorem connection_negotiated:
  fixes sA sB :: client
  assumes "server_reach sent_ok writer parse s" and "ws_data (net s) wa = Some a" and "ws_data (net s) wb = Some b"
    and "a \<in> members s r" and "b \<in> members s r" and "nul_free a" and "nul_free b" and "nul_free r"
    and "json_codec parse writer" and "b64_codec (enc EA) (dec EB)" and "b64_codec (enc EB) (dec EA)"
    and "MakeDataChannel EA b r sA = Some (True, sA1)" and "m_dataChannels sA1 (b, r) = Some dc"
    and "descriptions (description dc) = sdp # others" and "sdp \<noteq> []" and "[] \<notin> set (candidates (description dc))"
    and "parse (offer_payload EA b r (description dc)) = Some (JObj (sdp_offer_doc (enc EA) r b (description dc)))"
    and "configured sB" and "sends EB = (\<lambda>m. True)" and "base64Encode (enc EB) answer = Some e"
    and "parse (description_payload ''answer'' a r e) = Some (JObj (sdp_answer_doc a r e))"
  shows "\<exists>s1 vb m1 sB1 cb s2 va m2.
    server_message sent_ok writer parse wa (last (sent sA1)) s = Some s1 \<and>
    outgoing (net s1) = outgoing (net s) @ [(vb, m1)] \<and> ws_data (net s) vb = Some b \<and>
    client_message EB parse m1 sB = Some sB1 \<and> m_incomingChannels sB1 (a, r) = Some cb \<and>
    rtc_calls sB1 = rtc_calls sB @ [(pc cb, SetRemoteDescription sdp ''offer''), (pc cb, CreateAnswer)] @
      map (\<lambda>c. (pc cb, AddRemoteCandidate c ''0'')) (candidates (description dc)) \<and>
    server_message sent_ok writer parse wb (last (sent (on_local_description EB a r ''answer'' answer sB1))) s1 = Some s2 \<and>
    outgoing (net s2) = outgoing (net s1) @ [(va, m2)] \<and> ws_data (net s) va = Some a \<and>
    client_message EA parse m2 sA1 = Some (rtc (pc dc) (SetRemoteDescription answer ''answer'') sA1)"
proof -
  note inv = reach_server_inv [OF assms(1)]
  let ?d = "description dc"
  have last: "last (sent sA1) = offer_payload EA b r ?d"
    using channel_offered [OF assms(12)] assms(13) by auto
  let ?o = "sdp_offer_doc (enc EA) r b ?d" and ?o1 = "sdp_offer_doc (enc EA) r a ?d"
  have o: "string_at ?o ''type'' = Some ''offer''" "well_formed HOffer ?o" "string_at ?o ''peer'' = Some b"
      "string_at ?o ''room'' = Some r"
    using assms(7,8) by (simp_all add: sdp_docs nul_free_def)
  have rel: "relayed a ?o = JObj ?o1" by (simp add: relayed_def sdp_offer_doc_def)
  obtain s1 vb where s1: "server_message sent_ok writer parse wa (last (sent sA1)) s = Some s1" "quiet s s1"
      "ws_data (net s) vb = Some b" "outgoing (net s1) = outgoing (net s) @ [(vb, writer (JObj ?o1))]"
    using server_relays [where parse = parse, OF inv assms(2,17) o(1) route_labels(7) o(2-4) assms(4,5)]
    unfolding last rel by blast
  have q: "server_inv s1" "ws_data (net s1) = ws_data (net s)" "members s1 = members s"
    using s1(2) inv by (simp_all add: quiet_def)
  obtain sB1 cb where B: "OnOffer EB ?o1 sB = Some sB1" "m_incomingChannels sB1 (a, r) = Some cb"
      "rtc_calls sB1 = rtc_calls sB @ [(pc cb, SetRemoteDescription sdp ''offer''), (pc cb, CreateAnswer)] @
        map (\<lambda>c. (pc cb, AddRemoteCandidate c ''0'')) (candidates ?d)"
    using offer_taken [OF assms(10,18,6,8,14,15,16)] by blast
  have "string_at ?o1 ''type'' = Some ''offer''" by (simp add: sdp_docs nul_free_def)
  then have cB: "client_message EB parse (writer (JObj ?o1)) sB = Some sB1"
    using client_takes [OF assms(9) _ route_labels(7), of ?o1 EB sB] B(1) by simp
  have sent: "last (sent (on_local_description EB a r ''answer'' answer sB1)) = description_payload ''answer'' a r e"
    using assms(19,20) by (simp add: on_local_description_def SendMessage_def)
  have nf: "nul_free e" by (rule base64_roundtrip(3) [OF assms(11,20)])
  have w: "ws_data (net s1) wb = Some b" "a \<in> members s1 r" using q assms(3,4) by simp_all
  obtain s2 va where s2: "server_message sent_ok writer parse wb (description_payload ''answer'' a r e) s1 = Some s2"
      "ws_data (net s) va = Some a" "outgoing (net s2) = outgoing (net s1) @ [(va, writer (JObj (sdp_answer_doc b r e)))]"
    using answer_relayed [where parse = parse, OF q(1) w assms(6) nf assms(21), of sent_ok writer] q(2) by auto
  have "string_at (sdp_answer_doc b r e) ''type'' = Some ''answer''" by (simp add: sdp_docs nul_free_def)
  then have cA: "client_message EA parse (writer (JObj (sdp_answer_doc b r e))) sA1 =
      Some (rtc (pc dc) (SetRemoteDescription answer ''answer'') sA1)"
    using client_takes [OF assms(9) _ route_labels(8), of "sdp_answer_doc b r e" EA sA1]
      answer_taken [OF assms(11,20,7,8,13)] by simp
  show ?thesis
    by (intro exI conjI, rule s1(1), rule s1(4), rule s1(3), rule cB, rule B(2), rule B(3), unfold sent, rule s2(1),
        rule s2(3), rule s2(2), rule cA)
qed

section \<open>A negotiation\<close>

definition negotiating_env :: env where
  "negotiating_env = demo_env\<lparr>json_writer := unary_write, creates_channel := (\<lambda>p. Some 7),
     gathering := (\<lambda>p. [OnLocalDescription ''v=0'', OnLocalCandidate ''c1'', GatheringStateChange False,
       OnLocalCandidate ''c2'', GatheringStateChange True])\<rparr>"

definition negotiating_client :: client where
  "negotiating_client = client_init [''maxMessageSize'' \<mapsto> VInt 16, ''stunAddress'' \<mapsto> VString ''s'', ''stunPort'' \<mapsto> VInt 1]"

definition demo_gathered :: local_description where
  "demo_gathered = \<lparr>UUID = demo_uuid, descriptions = [''v=0''], candidates = [''c1'', ''c2'']\<rparr>"

definition negotiation_parse :: "string \<Rightarrow> json option" where
  "negotiation_parse text =
     (if text = offer_payload negotiating_env ''bob'' ''r'' demo_gathered
      then Some (JObj (sdp_offer_doc hex_enc ''r'' ''bob'' demo_gathered))
      else if text = description_payload ''answer'' ''alice'' ''r'' (the (base64Encode hex_enc ''v=1''))
      then Some (JObj (sdp_answer_doc ''alice'' ''r'' (the (base64Encode hex_enc ''v=1''))))
      else unary_parse text)"

lemma negotiation_codec: "json_codec negotiation_parse unary_write"
proof -
  have "CHR ''{'' \<notin> set (unary_write v)" for v using unary_write_chars [of v] by auto
  then have "unary_write v \<noteq> offer_payload E p r d" "unary_write v \<noteq> description_payload t p r x" for v E p r d t x
    by (metis append_Cons list.set_intros(1) offer_payload_def, metis append_Cons list.set_intros(1) description_payload_def)
  then show ?thesis using unary_codec by (simp add: json_codec_def negotiation_parse_def)
qed

lemma negotiating_channel:
  "\<exists>sA1 dc. MakeDataChannel negotiating_env ''bob'' ''r'' negotiating_client = Some (True, sA1) \<and>
     m_dataChannels sA1 (''bob'', ''r'') = Some dc \<and> description dc = demo_gathered"
  by (simp add: MakeDataChannel_def negotiating_client_def client_init_def setting_int_def setting_def Get_int_def
      Get_string_def make_decision_def MakePeerConnection_def obtainInitialDescription_def negotiating_env_def
      demo_env_def LocalDescription_def CreateStringQueue_def publish_channel_def SendMessage_def Let_def
      demo_gathered_def demo_uuid_def)

theorem connection_negotiated_witness:
  "\<exists>s s1 vb m1 sA1 sB1. MakeDataChannel negotiating_env ''bob'' ''r'' negotiating_client = Some (True, sA1) \<and>
     server_message demo_sent unary_write negotiation_parse 1 (last (sent sA1)) s = Some s1 \<and>
     outgoing (net s1) = outgoing (net s) @ [(vb, m1)] \<and>
     client_message negotiating_env negotiation_parse m1 negotiating_client = Some sB1"
proof -
  obtain s where s: "server_reach demo_sent unary_write negotiation_parse s" "members s ''r'' = {''alice'', ''bob''}"
      "ws_data (net s) = [1 \<mapsto> ''alice'', 2 \<mapsto> ''bob'']"
    using codec_run [OF negotiation_codec] by blast
  have w: "ws_data (net s) 1 = Some ''alice''" "ws_data (net s) 2 = Some ''bob''"
      "''alice'' \<in> members s ''r''" "''bob'' \<in> members s ''r''" by (simp_all add: s(2,3))
  obtain sA1 dc where A: "MakeDataChannel negotiating_env ''bob'' ''r'' negotiating_client = Some (True, sA1)"
      "m_dataChannels sA1 (''bob'', ''r'') = Some dc" "description dc = demo_gathered"
    using negotiating_channel by blast
  have E: "enc negotiating_env = hex_enc" "dec negotiating_env = hex_dec" "sends negotiating_env = (\<lambda>m. True)"
    by (simp_all add: negotiating_env_def demo_env_def)
  have d: "descriptions (description dc) = ''v=0'' # []" "''v=0'' \<noteq> []" "[] \<notin> set (candidates (description dc))"
    by (simp_all add: A(3) demo_gathered_def)
  have p1: "negotiation_parse (offer_payload negotiating_env ''bob'' ''r'' (description dc)) =
      Some (JObj (sdp_offer_doc (enc negotiating_env) ''r'' ''bob'' (description dc)))"
    unfolding A(3) E by (simp add: negotiation_parse_def)
  have ne: "description_payload t p r x \<noteq> offer_payload F q u g" for t p r x F q u g
    by (simp add: description_payload_def offer_payload_def)
  obtain e where e: "base64Encode (enc negotiating_env) ''v=1'' = Some e" "the (base64Encode hex_enc ''v=1'') = e"
    by (simp add: base64Encode_def E)
  have p2: "negotiation_parse (description_payload ''answer'' ''alice'' ''r'' e) =
      Some (JObj (sdp_answer_doc ''alice'' ''r'' e))"
    unfolding negotiation_parse_def e(2) using ne by simp
  have conf: "configured negotiating_client"
    by (simp add: configured_def negotiating_client_def client_init_def setting_int_def setting_def Get_int_def Get_string_def)
  have codec: "b64_codec (enc negotiating_env) (dec negotiating_env)" unfolding E by (rule hex_codec)
  show ?thesis
    using connection_negotiated [where parse = negotiation_parse, OF s(1) w exchange_names(1-3) negotiation_codec codec codec
        A(1,2) d p1 conf E(3) e(1) p2] A(1)
    by (elim exE conjE) (intro exI conjI, assumption+)
qed

end
