(* ===== verification/Worker_Offers.thy ===== *)
theory Worker_Offers
  imports Worker_Properties
begin

text \<open>
  How the worker works off the requests queued with \<open>QueueFile\<close>: it takes them all at once and
  announces one after the other. Each announcement takes the worker six steps and has its own
  environment (its identifier is drawn in it); \<open>run_rounds\<close> chains such stretches.
\<close>

fun run_rounds :: "(env \<times> nat) list \<Rightarrow> worker_pc \<Rightarrow> client \<Rightarrow> (worker_pc \<times> client) option" where
  "run_rounds [] p st = Some (p, st)"
| "run_rounds ((E, n) # rounds) p st =
     (case run_worker E n p st of None \<Rightarrow> None | Some (p', st') \<Rightarrow> run_rounds rounds p' st')"

lemma run_rounds_append:
  "run_rounds (xs @ ys) p st = (case run_rounds xs p st of None \<Rightarrow> None | Some (p', st') \<Rightarrow> run_rounds ys p' st')"
  by (induction xs p st rule: run_rounds.induct) (auto split: option.splits)

text \<open>The client is in the room, sees the peer there, has a channel to it, and can describe the file.\<close>

definition ready_for :: "env \<Rightarrow> client \<Rightarrow> FileSpec \<Rightarrow> string \<Rightarrow> bool" where
  "ready_for E st spec fdsc \<longleftrightarrow> fs_room spec \<noteq> [] \<and> InRoom (fs_room spec) st = Some True \<and>
     present (fs_peer spec) (fs_room spec) st \<and> m_dataChannels st (fs_peer spec, fs_room spec) \<noteq> None \<and>
     SendFileOffer_prepare E (fs_room spec) (fs_peer spec) (fs_path spec) st = Some fdsc \<and> (\<forall>m. sends E m)"

abbreviation offer_uuid :: "env \<Rightarrow> string" where
  "offer_uuid E \<equiv> generateUUID (random_bytes E)"

abbreviation pending_for :: "FileSpec \<Rightarrow> PendingOffer" where
  "pending_for spec \<equiv> \<lparr>key = (fs_peer spec, fs_room spec), offer_path = fs_path spec\<rparr>"

definition announce :: "env \<times> FileSpec \<times> string \<Rightarrow> client \<Rightarrow> client" where
  "announce req st = (case req of (E, spec, fdsc) \<Rightarrow>
     st\<lparr>m_clientState := CLIENT_WAIT_FOR_FILE_ACCEPT,
        m_pendingOffers := (m_pendingOffers st)(offer_uuid E \<mapsto> pending_for spec),
        sent := sent st @ [file_offer_payload (offer_uuid E) (fs_room spec) (fs_peer spec) fdsc]\<rparr>)"

lemma announce_commit:
  "(\<forall>m. sends E m) \<Longrightarrow>
     snd (SendFileOffer_commit E (fs_room spec) (fs_peer spec) (fs_path spec) fdsc st) = announce (E, spec, fdsc) st"
  by (simp add: SendFileOffer_commit_def SendMessage_def announce_def Let_def)

lemma announce_fields [simp]:
  "m_clientState (announce req st) = CLIENT_WAIT_FOR_FILE_ACCEPT"
  "m_queuedFiles (announce req st) = m_queuedFiles st"
  "m_pendingOffers (announce (E, spec, fdsc) st) = (m_pendingOffers st)(offer_uuid E \<mapsto> pending_for spec)"
  "sent (announce (E, spec, fdsc) st) =
     sent st @ [file_offer_payload (offer_uuid E) (fs_room spec) (fs_peer spec) fdsc]"
  by (simp_all add: announce_def split: prod.splits)

lemma GetPeers_cong: "m_rooms t = m_rooms st \<Longrightarrow> snd (GetPeers room ps t) = snd (GetPeers room ps st) \<and>
    fst (GetPeers room ps t) = fst (GetPeers room ps st)"
  by (simp add: GetPeers_def split: option.splits)

lemma ready_for_cong:
  assumes "m_properties t = m_properties st" and "m_rooms t = m_rooms st" and "m_dataChannels t = m_dataChannels st"
    and "files t = files st"
  shows "ready_for E t spec fdsc = ready_for E st spec fdsc"
proof -
  have "InRoom room t = InRoom room st" for room
    using GetPeers_cong [OF assms(2), of room "[]"] setting_cong [OF assms(1)]
    by (auto simp: InRoom_def split: prod.splits)
  moreover have "present peer room t = present peer room st" for peer room
    using GetPeers_cong [OF assms(2)] by (simp add: present_def)
  moreover have "SendFileOffer_prepare E room peer path t = SendFileOffer_prepare E room peer path st" for room peer path
    unfolding SendFileOffer_prepare_def optional_setting_def file_bytes_def assms setting_cong [OF assms(1)] ..
  ultimately show ?thesis using assms(3) by (simp add: ready_for_def)
qed

lemma ready_announce [simp]: "ready_for E (announce req st) spec fdsc = ready_for E st spec fdsc"
  by (rule ready_for_cong) (simp_all add: announce_def split: prod.splits)

lemma offer_round:
  assumes "ready_for E st spec fdsc" and "m_clientState st \<in> {CLIENT_RUN, CLIENT_WAIT_FOR_FILE_ACCEPT}"
  shows "run_worker E 6 (AtOffer (spec # specs)) st = Some (AtOffer specs, announce (E, spec, fdsc) st)"
proof -
  have r: "fs_room spec \<noteq> []" "InRoom (fs_room spec) st = Some True" "present (fs_peer spec) (fs_room spec) st"
      "m_dataChannels st (fs_peer spec, fs_room spec) \<noteq> None"
      "SendFileOffer_prepare E (fs_room spec) (fs_peer spec) (fs_path spec) st = Some fdsc" "\<forall>m. sends E m"
    using assms(1) unfolding ready_for_def by blast+
  have s: "\<not> stopped st" "m_clientState st \<noteq> CLIENT_EXIT" using assms(2) by (auto simp: stopped_def)
  have "\<not> stopped (announce (E, spec, fdsc) st)" by (simp add: stopped_def announce_def)
  then show ?thesis
    using r(1-5) s announce_commit [OF r(6), of spec fdsc st]
    by (simp add: eval_nat_numeral join_step_def ensure_channel_def)
qed

lemma offer_rounds:
  assumes "\<forall>(E, spec, fdsc) \<in> set reqs. ready_for E st spec fdsc"
    and "m_clientState st \<in> {CLIENT_RUN, CLIENT_WAIT_FOR_FILE_ACCEPT}"
  shows "run_rounds (map (\<lambda>req. (fst req, 6)) reqs) (AtOffer (map (\<lambda>req. fst (snd req)) reqs)) st =
    Some (AtOffer [], fold announce reqs st)"
  using assms
proof (induction reqs arbitrary: st)
  case Nil
  then show ?case by simp
next
  case (Cons req reqs)
  obtain E spec fdsc where req: "req = (E, spec, fdsc)" by (cases req)
  have "run_worker E 6 (AtOffer (spec # map (\<lambda>req. fst (snd req)) reqs)) st =
      Some (AtOffer (map (\<lambda>req. fst (snd req)) reqs), announce req st)"
    unfolding req by (rule offer_round) (use Cons.prems req in auto)
  moreover have "m_clientState (announce req st) = CLIENT_WAIT_FOR_FILE_ACCEPT" by (simp add: announce_def req)
  ultimately show ?case using Cons.IH [of "announce req st"] Cons.prems(1) by (simp add: req)
qed

lemma fold_announce:
  "sent (fold announce reqs st) = sent st @
     map (\<lambda>(E, spec, fdsc). file_offer_payload (offer_uuid E) (fs_room spec) (fs_peer spec) fdsc) reqs"
  "reqs \<noteq> [] \<Longrightarrow> m_clientState (fold announce reqs st) = CLIENT_WAIT_FOR_FILE_ACCEPT"
  "m_queuedFiles (fold announce reqs st) = m_queuedFiles st"
  "u \<notin> set (map (\<lambda>req. offer_uuid (fst req)) reqs) \<Longrightarrow> m_pendingOffers (fold announce reqs st) u = m_pendingOffers st u"
proof (induction reqs arbitrary: st)
  case (Cons req reqs)
  obtain E spec fdsc where [simp]: "req = (E, spec, fdsc)" by (cases req)
  { case 1 show ?case using Cons(1) by simp }
  { case 2 show ?case using Cons(2) by (cases "reqs = []") simp_all }
  { case 3 show ?case using Cons(3) by simp }
  { case 4 then show ?case using Cons(4) by simp }
qed simp_all

lemma fold_announce_pending:
  assumes "distinct (map (\<lambda>req. offer_uuid (fst req)) reqs)" and "(E, spec, fdsc) \<in> set reqs"
  shows "m_pendingOffers (fold announce reqs st) (offer_uuid E) = Some (pending_for spec)"
  using assms
proof (induction reqs arbitrary: st)
  case (Cons req reqs)
  show ?case
  proof (cases "req = (E, spec, fdsc)")
    case True
    then have "offer_uuid E \<notin> set (map (\<lambda>req. offer_uuid (fst req)) reqs)" using Cons.prems(1) by simp
    from fold_announce(4) [OF this, of "announce req st"] True show ?thesis by simp
  next
    case False
    then show ?thesis using Cons by simp
  qed
qed simp

text \<open>
  C20: every queued request is announced: a running client takes its queued files all at once and, when it
  is in their rooms with a channel to each peer, announces them in the order they were queued, one message
  each under an identifier of its own, and then waits for an answer; the queue is empty, and each offer is
  recorded with its peer, room and path, so that its answer will be recognised.
\<close>

theorem queued_files_announced:
  assumes "m_clientState st = CLIENT_RUN" and "reqs \<noteq> []" and "m_queuedFiles st = map (\<lambda>req. fst (snd req)) reqs"
    and "\<forall>(E, spec, fdsc) \<in> set reqs. ready_for E st spec fdsc"
    and "distinct (map (\<lambda>req. generateUUID (random_bytes (fst req))) reqs)"
  shows "\<exists>t. run_rounds ((E, 1) # map (\<lambda>req. (fst req, 6)) reqs @ [(E, 2)]) AtLoop st = Some (AtLoop, t) \<and>
    sent t = sent st @ map (\<lambda>(E, spec, fdsc).
      file_offer_payload (generateUUID (random_bytes E)) (fs_room spec) (fs_peer spec) fdsc) reqs \<and>
    m_clientState t = CLIENT_WAIT_FOR_FILE_ACCEPT \<and> m_queuedFiles t = [] \<and>
    (\<forall>(E, spec, fdsc) \<in> set reqs. m_pendingOffers t (generateUUID (random_bytes E)) =
      Some \<lparr>key = (fs_peer spec, fs_room spec), offer_path = fs_path spec\<rparr>)"
proof -
  let ?st = "st\<lparr>m_queuedFiles := []\<rparr>"
  let ?t = "fold announce reqs ?st"
  have r: "ready_for E ?st spec fdsc = ready_for E st spec fdsc" for E spec fdsc
    by (rule ready_for_cong) simp_all
  have "run_worker E 1 AtLoop st = Some (AtOffer (map (\<lambda>req. fst (snd req)) reqs), ?st)"
    using assms(1-3) by simp
  moreover have "run_rounds (map (\<lambda>req. (fst req, 6)) reqs) (AtOffer (map (\<lambda>req. fst (snd req)) reqs)) ?st = Some (AtOffer [], ?t)"
    by (rule offer_rounds) (use assms(1,4) r in auto)
  moreover have w: "m_clientState ?t = CLIENT_WAIT_FOR_FILE_ACCEPT" by (rule fold_announce(2) [OF assms(2)])
  then have "run_worker E 2 (AtOffer []) ?t = Some (AtLoop, ?t)"
    by (simp add: eval_nat_numeral stopped_def)
  ultimately have "run_rounds ((E, 1) # map (\<lambda>req. (fst req, 6)) reqs @ [(E, 2)]) AtLoop st = Some (AtLoop, ?t)"
    by (simp add: run_rounds_append)
  moreover have "m_pendingOffers ?t (offer_uuid E) = Some (pending_for spec)" if "(E, spec, fdsc) \<in> set reqs" for E spec fdsc
    using fold_announce_pending [OF _ that] assms(5) by simp
  ultimately show ?thesis
    using w fold_announce(1,3) [of reqs ?st] by (intro exI [of _ ?t]) auto
qed

definition second_env :: env where
  "second_env = demo_env\<lparr>random_bytes := 1 # replicate 15 0\<rparr>"

definition demo_requests :: client where
  "demo_requests = demo_configured\<lparr>m_queuedFiles :=
     replicate 2 \<lparr>fs_peer = ''bob'', fs_room = ''r'', fs_path = ''f''\<rparr>\<rparr>"

lemma demo_requests_ready:
  "ready_for E demo_requests \<lparr>fs_peer = ''bob'', fs_room = ''r'', fs_path = ''f''\<rparr>
     (snd (get_file_info (magic demo_env) (Some ''hello'') ''f'' ''/w/f''))"
  if "E = demo_env \<or> E = second_env"
proof -
  have p: "SendFileOffer_prepare E ''r'' ''bob'' ''f'' demo_configured = SendFileOffer_prepare demo_env ''r'' ''bob'' ''f'' demo_configured"
    using that by (auto simp: second_env_def SendFileOffer_prepare_def file_bytes_def)
  have eq: "ready_for E demo_requests s f = ready_for E demo_configured s f" for s f
    by (rule ready_for_cong) (simp_all add: demo_requests_def)
  have se: "\<forall>m. sends E m" using that by (auto simp: second_env_def demo_env_def)
  have m: "m_rooms demo_configured ''r'' = Some {''me'', ''bob''}" "m_dataChannels demo_configured (''bob'', ''r'') \<noteq> None"
    by (simp_all add: demo_configured_def demo_connected_client_def)
  then have "InRoom ''r'' demo_configured = Some True" "present ''bob'' ''r'' demo_configured"
    by (simp_all add: InRoom_def present_def GetPeers_def demo_settings(1))
  with m(2) se show ?thesis unfolding eq unfolding ready_for_def by (simp add: p demo_prepare)
qed

theorem queued_files_announced_witness:
  "\<exists>t. run_rounds [(demo_env, 1), (demo_env, 6), (second_env, 6), (demo_env, 2)] AtLoop demo_requests = Some (AtLoop, t) \<and>
     length (sent t) = 2 \<and> m_queuedFiles t = []"
proof -
  let ?s = "\<lparr>fs_peer = ''bob'', fs_room = ''r'', fs_path = ''f''\<rparr>"
  let ?f = "snd (get_file_info (magic demo_env) (Some ''hello'') ''f'' ''/w/f'')"
  let ?reqs = "[(demo_env, ?s, ?f), (second_env, ?s, ?f)]"
  have a: "m_clientState demo_requests = CLIENT_RUN" "?reqs \<noteq> []"
      "m_queuedFiles demo_requests = map (\<lambda>req. fst (snd req)) ?reqs" "sent demo_requests = []"
    by (simp_all add: demo_requests_def demo_configured_def demo_connected_client_def demo_client_def client_init_def numeral_2_eq_2)
  have r: "\<forall>(E, spec, fdsc) \<in> set ?reqs. ready_for E demo_requests spec fdsc"
    using demo_requests_ready by simp
  have "generateUUID (1 # replicate 15 0) \<noteq> generateUUID (replicate 16 0)"
    by (simp add: numeral_eq_Suc) code_simp
  then have d: "distinct (map (\<lambda>req. generateUUID (random_bytes (fst req))) ?reqs)"
    by (simp add: second_env_def demo_env_def)
  from queued_files_announced [OF a(1-3) r d, of demo_env] show ?thesis using a(4) by auto
qed

end
