(* ===== verification/Directory_Sync.thy ===== *)
theory Directory_Sync
  imports Offer_Exchange Worker_Offers
begin

text \<open>
  The whole way of a changed file: the watcher of one client reports it, \<open>main\<close>'s callback queues it, the
  worker announces it, the server relays, another client accepts and receives. Every step is the model of
  the code that takes it, in the order a quiet system takes them.
\<close>

lemma change_queued:
  assumes "m_clientState st = CLIENT_RUN" and "m_queuedFiles st = []" and "m_dataChannels st = [(b, r) \<mapsto> dc]"
    and "b \<noteq> []" and "r \<noteq> []" and "path \<noteq> []" and "change \<noteq> Removed" and "normal_path E path \<notin> m_receivedPaths st"
  shows "on_directory_change E path change st =
    st\<lparr>m_queuedFiles := [\<lparr>fs_peer = b, fs_room = r, fs_path = path\<rparr>]\<rparr>"
proof -
  have n: "named_channels st" by (simp add: named_channels_def assms(3-5))
  have "map_keys (m_dataChannels st) = [(b, r)]" by (simp add: map_keys_def assms(3))
  then have "requests st path = [\<lparr>fs_peer = b, fs_room = r, fs_path = path\<rparr>]" by (simp add: requests_def)
  moreover have "m_receivedPaths st - {normal_path E path} = m_receivedPaths st" using assms(8) by simp
  ultimately show ?thesis
    using on_directory_change_eq [OF _ assms(6) n assms(7), of E] assms(1,2,8) by simp
qed

lemma queued_file_sent:
  assumes "m_clientState st = CLIENT_RUN" and "ready_for E' st spec fdsc"
  shows "\<exists>t. run_rounds [(E, 1), (E', 6), (E, 2)] AtLoop (st\<lparr>m_queuedFiles := [spec]\<rparr>) = Some (AtLoop, t) \<and>
    SendFileOffer E' (fs_room spec) (fs_peer spec) (fs_path spec) (st\<lparr>m_queuedFiles := []\<rparr>) = (True, t)"
proof -
  let ?s = "st\<lparr>m_queuedFiles := []\<rparr>" and ?t = "announce (E', spec, fdsc) (st\<lparr>m_queuedFiles := []\<rparr>)"
  have r: "ready_for E' ?s spec fdsc" using assms(2) ready_for_cong [of ?s st] by simp
  then have sf: "SendFileOffer_prepare E' (fs_room spec) (fs_peer spec) (fs_path spec) ?s = Some fdsc" "\<forall>m. sends E' m"
    by (simp_all add: ready_for_def)
  have "run_worker E 1 AtLoop (st\<lparr>m_queuedFiles := [spec]\<rparr>) = Some (AtOffer [spec], ?s)" using assms(1) by simp
  moreover have "run_worker E' 6 (AtOffer [spec]) ?s = Some (AtOffer [], ?t)"
    by (rule offer_round [OF r]) (simp add: assms(1))
  moreover have "run_worker E 2 (AtOffer []) ?t = Some (AtLoop, ?t)" by (simp add: eval_nat_numeral stopped_def)
  ultimately have "run_rounds [(E, 1), (E', 6), (E, 2)] AtLoop (st\<lparr>m_queuedFiles := [spec]\<rparr>) = Some (AtLoop, ?t)" by simp
  moreover have "fst (SendFileOffer_commit E' (fs_room spec) (fs_peer spec) (fs_path spec) fdsc ?s)"
    using sf(2) by (simp add: SendFileOffer_commit_def SendMessage_def Let_def)
  then have "SendFileOffer E' (fs_room spec) (fs_peer spec) (fs_path spec) ?s = (True, ?t)"
    using announce_commit [OF sf(2), of spec fdsc ?s] by (simp add: SendFileOffer_def sf(1) prod_eq_iff)
  ultimately show ?thesis by blast
qed


definition sync_sender :: client where
  "sync_sender = exchange_sender\<lparr>m_rooms := [''r'' \<mapsto> {''alice'', ''bob''}]\<rparr>"

lemma sync_sender_facts:
  "m_clientState sync_sender = CLIENT_RUN" "m_queuedFiles sync_sender = []"
  "m_dataChannels sync_sender = [(''bob'', ''r'') \<mapsto> demo_channel]" "usable demo_channel"
  "InRoom ''r'' sync_sender = Some True" "present ''bob'' ''r'' sync_sender" "m_receivedPaths sync_sender = {}"
  "optional_setting sync_sender ''directory'' = Some ''/w''"
  "file_bytes exchange_env ''/w/f'' sync_sender = Some ''hello''"
proof -
  have r: "m_rooms sync_sender ''r'' = Some {''alice'', ''bob''}" "setting sync_sender ''name'' = Some ''alice''"
    by (simp_all add: sync_sender_def exchange_sender_def setting_def Get_string_def)
  then show "InRoom ''r'' sync_sender = Some True" "present ''bob'' ''r'' sync_sender"
    by (simp_all add: InRoom_def present_def GetPeers_def)
  show "optional_setting sync_sender ''directory'' = Some ''/w''"
    by (simp add: sync_sender_def exchange_sender_def optional_setting_def setting_def Contains_def Get_string_def)
  show "file_bytes exchange_env ''/w/f'' sync_sender = Some ''hello''"
    by (simp add: sync_sender_def exchange_sender_def exchange_env_def demo_env_def file_bytes_def resolve_def demo_transfer_defs)
qed (simp_all add: sync_sender_def exchange_sender_def demo_connected_client_def demo_client_def client_init_def
      demo_channel_def usable_def)


end
