(* ===== verification/Client_System.thy ===== *)
theory Client_System
  imports Cloud_Node
begin

text \<open>
  The client as one system: its state, its worker thread, the sending threads of its channels, and
  everything that can happen to them, in any order. A step is labelled with what happened. \<open>D\<close> is the
  working directory, which no operation changes; the rest of the environment may differ from step to
  step. Other programs may lock files and write them.

  The invariant \<open>incoming_ok\<close> says what the receiving queues and the lock table have to do with each other:
  the front of a queue is open and locked exclusively at its destination, whatever is behind it is
  untouched. From it: two transfers never write the same file, nobody who locks reads a file that is being
  received, and a transfer gets what its own chunks carry, whatever happens in between.
\<close>

datatype sending = Taken string | Reading string nat \<comment> \<open>the item taken; its open file's descriptor\<close>

record client_sys =
  cl :: client
  worker :: worker_pc
  made :: "(peer_room_key \<times> nat) set" \<comment> \<open>channels made and their queues: each has a sending thread once it opens\<close>
  busy :: "nat \<rightharpoonup> sending" \<comment> \<open>what the thread of a queue is doing, when it is not in \<open>GetItem\<close>\<close>
  foreign :: "nat set" \<comment> \<open>descriptors of other programs\<close>
  asked :: "FileSpec set" \<comment> \<open>the requests of the command line and of the callers, so far\<close>

datatype sys_event =
    Worker
  | Signalling string
  | Transport
  | Chunk env peer_room_key bytes
  | Callback
  | Caller
  | Session
  | Took peer_room_key string
  | Sender
  | Foreign
  | Outside names "bytes option"

definition set_cl :: "client \<Rightarrow> client_sys \<Rightarrow> client_sys" where
  "set_cl c s = s\<lparr>cl := c\<rparr>"

definition set_files :: "fsys \<Rightarrow> client_sys \<Rightarrow> client_sys" where
  "set_files fs s = s\<lparr>cl := (cl s)\<lparr>files := fs\<rparr>\<rparr>"

text \<open>The channels a client knows, with the queues of their threads.\<close>

definition channels_of :: "client \<Rightarrow> (peer_room_key \<times> nat) set" where
  "channels_of c = {(k, q). Option.bind (m_dataChannels c k) fileQ = Some q}"

inductive client_step :: "string \<Rightarrow> (string \<Rightarrow> json option) \<Rightarrow> sys_event \<Rightarrow> client_sys \<Rightarrow> client_sys \<Rightarrow> bool"
  for D :: string and parse :: "string \<Rightarrow> json option" where
  cs_worker: "cwd E = D \<Longrightarrow> worker_step E timed_out (worker s) (cl s) = Next p c \<Longrightarrow>
     client_step D parse Worker s (s\<lparr>cl := c, worker := p, made := made s \<union> channels_of c\<rparr>)"
| cs_message: "cwd E = D \<Longrightarrow> client_message E parse input (cl s) = Some c \<Longrightarrow>
     client_step D parse (Signalling input) s (set_cl c s)"
| cs_open: "client_step D parse Transport s (set_cl (OnMessageOpen peer (cl s)) s)"
| cs_close: "client_step D parse Transport s (set_cl (OnMessageClose (cl s)) s)"
| cs_chunk: "cwd E = D \<Longrightarrow> client_step D parse (Chunk E k b) s (set_cl (on_channel_message E k (Inr b) (cl s)) s)"
| cs_text: "cwd E = D \<Longrightarrow> client_step D parse Callback s (set_cl (on_channel_message E k (Inl t) (cl s)) s)"
| cs_channel: "client_step D parse Callback s (set_cl (on_data_channel k ch (cl s)) s)"
| cs_candidate: "client_step D parse Callback s (set_cl (on_local_candidate E peer room cand mid (cl s)) s)"
| cs_description: "client_step D parse Callback s (set_cl (on_local_description E peer room typ sdp (cl s)) s)"
| cs_queue: "client_step D parse Caller s (set_cl (snd (QueueFile peer room path (cl s))) s
     \<lparr>asked := insert \<lparr>fs_peer = peer, fs_room = room, fs_path = path\<rparr> (asked s)\<rparr>)"
| cs_change: "cwd E = D \<Longrightarrow> client_step D parse Caller s (set_cl (on_directory_change E path change (cl s)) s
     \<lparr>asked := asked s \<union> set (requests (cl s) path)\<rparr>)"
| cs_start: "worker s = AtDone \<Longrightarrow> client_step D parse Session s (set_cl (Start_session (cl s)) s\<lparr>worker := AtLoop\<rparr>)"
| cs_stop: "client_step D parse Session s (set_cl (Stop_session (cl s)) s)"
| cs_take: "(k, q) \<in> made s \<Longrightarrow> busy s q = None \<Longrightarrow> GetItem (queues (cl s) q) = Some (path, q') \<Longrightarrow>
     client_step D parse (Took k path) s (set_cl ((cl s)\<lparr>queues := (queues (cl s))(q := q')\<rparr>) s
       \<lparr>busy := (busy s)(q := if path = [] \<or> \<not> goes_on then None else Some (Taken path))\<rparr>)"
| cs_read: "cwd (E :: env) = D \<Longrightarrow> busy s q = Some (Taken path) \<Longrightarrow>
     LockedIfstream_open (openable E) (resolve D path) (files (cl s)) = Some (content, fd, fs) \<Longrightarrow>
     client_step D parse Sender s (set_files fs s\<lparr>busy := (busy s)(q := map_option (Reading path) fd)\<rparr>)"
| cs_sent: "busy s q = Some (Reading path fd) \<Longrightarrow> (k, q) \<in> made s \<Longrightarrow>
     c = (if complete then SendFileComplete E (snd k) (fst k) (cl s) else cl s) \<Longrightarrow>
     client_step D parse Sender s (set_cl (c\<lparr>files := LockedIfstream_close (Some fd) (files c)\<rparr>) s
       \<lparr>busy := (busy s)(q := None)\<rparr>)"
| cs_lock: "Acquire ok p m wait None (files (cl s)) = Some (got, fd, fs) \<Longrightarrow>
     client_step D parse Foreign s (set_files fs s\<lparr>foreign := foreign s \<union> set_option fd\<rparr>)"
| cs_unlock: "fd \<in> foreign s \<Longrightarrow>
     client_step D parse Foreign s (set_files (snd (Release (Some fd) (files (cl s)))) s\<lparr>foreign := foreign s - {fd}\<rparr>)"
| cs_outside: "client_step D parse (Outside p content) s
     (set_files ((files (cl s))\<lparr>disk := (disk (files (cl s)))(p := content)\<rparr>) s)"

definition client_started :: "PropertyBag \<Rightarrow> client_sys \<Rightarrow> bool" where
  "client_started b s \<longleftrightarrow> cl s = client_init b \<and> worker s = AtDone \<and> made s = {} \<and> busy s = Map.empty \<and> foreign s = {} \<and>
     asked s = {f. \<exists>specs. initial_specs (client_init b) = Some (Some specs) \<and> f \<in> set specs}"

definition any_step :: "string \<Rightarrow> (string \<Rightarrow> json option) \<Rightarrow> client_sys \<Rightarrow> client_sys \<Rightarrow> bool" where
  "any_step D parse s t \<longleftrightarrow> (\<exists>e. client_step D parse e s t)"

text \<open>The files being read, by queue, path and descriptor; the descriptors that are not the receiver's.\<close>

definition readings :: "client_sys \<Rightarrow> (nat \<times> string \<times> nat) set" where
  "readings s = {(q, path, fd). busy s q = Some (Reading path fd)}"

definition held :: "client_sys \<Rightarrow> nat set" where
  "held s = foreign s \<union> (\<lambda>(q, path, fd). fd) ` readings s"

lemma sys_fields [simp]:
  "cl (set_cl c s) = c" "readings (set_cl c s) = readings s" "foreign (set_cl c s) = foreign s" "busy (set_cl c s) = busy s"
  "cl (set_files fs s) = (cl s)\<lparr>files := fs\<rparr>" "readings (set_files fs s) = readings s"
  "foreign (set_files fs s) = foreign s" "busy (set_files fs s) = busy s"
  "made (set_cl c s) = made s" "made (set_files fs s) = made s" "asked (set_cl c s) = asked s"
  "asked (set_files fs s) = asked s" "worker (set_cl c s) = worker s" "worker (set_files fs s) = worker s"
  by (simp_all add: set_cl_def set_files_def readings_def)

section \<open>What leaves the receiving side alone\<close>

definition same_incoming :: "client \<Rightarrow> client \<Rightarrow> bool" where
  "same_incoming c d \<longleftrightarrow> m_incomingFiles d = m_incomingFiles c \<and> files d = files c"

lemma same_incoming_refl [simp]: "same_incoming c c"
  by (simp add: same_incoming_def)

lemma same_incoming_trans: "same_incoming c d \<Longrightarrow> same_incoming d e \<Longrightarrow> same_incoming c e"
  by (simp add: same_incoming_def)

lemma same_incoming_simps [simp]:
  "same_incoming c (snd (SendMessage E msg c))" "same_incoming c (rtc p a c)" "same_incoming c (set_state x c)"
  "same_incoming c (release_wait c)" "same_incoming c (UpdatePeers room ps c)" "same_incoming c (snd (Leave peer room c))"
  "same_incoming c (OnMessageOpen peer c)" "same_incoming c (OnMessageClose c)" "same_incoming c (Start_session c)"
  "same_incoming c (Stop_session c)" "same_incoming c (on_data_channel k ch c)" "same_incoming c (on_local_candidate E peer room cand mid c)"
  "same_incoming c (on_local_description E peer room typ sdp c)" "same_incoming c (SendFileComplete E room peer c)"
  "same_incoming c (snd (TakeReceivedFile E path c))" "same_incoming c (snd (QueueFile peer room path c))"
  "same_incoming c (snd (SendFileOffer_commit E room peer path fdsc c))"
  by (auto simp: same_incoming_def SendMessage_def rtc_def set_state_def release_wait_def UpdatePeers_def Leave_def
      OnMessageOpen_def OnMessageClose_def ClearRooms_def WakeFileTransferWorkers_def Start_session_def Stop_session_def
      on_data_channel_def on_local_candidate_def on_local_description_def SendFileComplete_def TakeReceivedFile_def
      QueueFile_def SendFileOffer_commit_def Let_def split: option.splits)

lemma same_incoming_results:
  "SendMessage E msg c = (b, d) \<Longrightarrow> same_incoming c d"
  "QueueFile peer room path c = (b, d) \<Longrightarrow> same_incoming c d"
  "TakeReceivedFile E path c = (b, d) \<Longrightarrow> same_incoming c d"
  by (auto simp: same_incoming_def SendMessage_def QueueFile_def TakeReceivedFile_def split: if_splits)

lemma same_incoming_queue_to: "queue_to ks path (n, c) = (m, d) \<Longrightarrow> same_incoming c d"
proof (induction ks path "(n, c)" arbitrary: n c rule: queue_to.induct)
  case (2 p r ts path n c)
  obtain ok c' where q: "QueueFile p r path c = (ok, c')" by (cases "QueueFile p r path c")
  with 2 have "same_incoming c' d" by (cases ok) simp_all
  then show ?case by (rule same_incoming_trans [OF same_incoming_results(2) [OF q]])
qed simp

lemma same_incoming_change: "same_incoming c (on_directory_change E path change c)"
proof -
  obtain ok c' where t: "TakeReceivedFile E path c = (ok, c')" by (cases "TakeReceivedFile E path c")
  obtain m d where q: "queue_to (map_keys (m_dataChannels c')) path (0, c') = (m, d)"
    by (cases "queue_to (map_keys (m_dataChannels c')) path (0, c')")
  show ?thesis
    using t q same_incoming_results(3) [OF t] same_incoming_trans [OF same_incoming_results(3) [OF t] same_incoming_queue_to [OF q]]
    by (cases ok) (simp_all add: on_directory_change_def QueueFileToAll_def)
qed

lemma same_incoming_JoinRooms:
  "(JoinRooms E rooms c = JoinReturns b d \<longrightarrow> same_incoming c d) \<and> (JoinRooms E rooms c = JoinWaits rs d \<longrightarrow> same_incoming c d)"
proof (induction rooms)
  case (Cons room rooms)
  let ?s = "set_state CLIENT_WAITING_FOR_JOIN (c\<lparr>m_room := room\<rparr>)"
  obtain ok t where j: "JoinRoom E room ?s = (ok, t)" by (cases "JoinRoom E room ?s")
  have "same_incoming ?s t" using j same_incoming_results(1) by (simp add: JoinRoom_def)
  then have "same_incoming c t" "same_incoming c (set_state CLIENT_EXIT t)"
    by (simp_all add: same_incoming_def set_state_def)
  with Cons j show ?case
    by (cases "m_clientState c = CLIENT_EXIT"; cases "room = []"; cases "InRoom room c"; cases "the (InRoom room c)"; cases ok) auto
qed simp

lemma same_incoming_join_step: "join_step E rooms k c = Next p d \<Longrightarrow> same_incoming c d"
  using same_incoming_JoinRooms [of E rooms c] by (cases "JoinRooms E rooms c") (auto simp: join_step_def)

lemma same_incoming_ensure: "ensure_channel E peer room c = Some (b, d) \<Longrightarrow> same_incoming c d"
  using MakeDataChannel_session [of E peer room c b d]
  by (auto simp: ensure_channel_def same_session_def same_incoming_def split: if_splits)

lemma same_incoming_loop: "loop_step x timed_out c = Next p d \<Longrightarrow> same_incoming c d"
  by (cases x) (auto simp: init_step_def same_incoming_def set_state_def split: if_splits option.splits prod.splits)

lemma same_incoming_worker:
  assumes "worker_step E timed_out p c = Next p' d"
  shows "same_incoming c d"
proof (cases p)
  case AtLoop
  then show ?thesis using assms same_incoming_loop by simp
next
  case (AtJoin rooms k)
  then show ?thesis using assms same_incoming_join_step by simp
next
  case (AtJoinWait rs k)
  then show ?thesis using assms same_incoming_join_step by (auto split: if_splits)
next
  case (AtConnectMake peer room specs)
  then show ?thesis using assms same_incoming_ensure by (auto split: option.splits bool.splits)
next
  case (AtOffer specs)
  then show ?thesis using assms same_incoming_join_step by (cases specs) auto
next
  case (AtOfferMake spec specs)
  then show ?thesis using assms same_incoming_ensure by (auto split: option.splits bool.splits)
next
  case AtPing
  then show ?thesis using assms same_incoming_results(1) by (auto simp: SendPing_def split: prod.splits)
qed (use assms in \<open>auto simp: Let_def split: if_splits option.splits\<close>)

lemma same_incoming_candidate: "offer_candidate E p v c = Some d \<Longrightarrow> same_incoming c d"
  by (auto simp: offer_candidate_def split: option.splits bool.splits)

lemma same_incoming_OnOffer:
  assumes "OnOffer E doc c = Some d"
  shows "same_incoming c d"
proof (cases "\<exists>peer room. string_at doc ''peer'' = Some peer \<and> string_at doc ''room'' = Some room")
  case False
  with assms show ?thesis by (auto simp: OnOffer_def split: option.splits)
next
  case True
  then obtain peer room where pr: "string_at doc ''peer'' = Some peer" "string_at doc ''room'' = Some room" by blast
  obtain n c1 where n: "make_decision c = (n, c1)" by (cases "make_decision c")
  obtain p c2 where p: "MakePeerConnection peer room c1 = Some (p, c2)"
    using assms pr n by (cases "MakePeerConnection peer room c1") (auto simp: OnOffer_def bind_eq_Some_conv)
  obtain q c3 where q: "CreateStringQueue c2 = (q, c3)" by (cases "CreateStringQueue c2")
  let ?c4 = "c3\<lparr>m_incomingChannels := (m_incomingChannels c3)((peer, room) \<mapsto> \<lparr>pc = p, channel = None, fileQ = Some q,
    fileDecision = n, description = \<lparr>UUID = generateUUID (random_bytes E), descriptions = [], candidates = []\<rparr>\<rparr>)\<rparr>"
  have "same_incoming c c3"
    using session_make_decision [OF n] session_MakePeerConnection [OF p] q
    by (auto simp: same_incoming_def same_session_def CreateStringQueue_def)
  then have "same_incoming c ?c4" by (simp add: same_incoming_def)
  moreover obtain c5 where c5: "offer_description E p doc ?c4 = Some c5"
      "(case array_at doc ''candidates'' of None \<Rightarrow> Some c5 | Some vs \<Rightarrow> each (offer_candidate E p) vs c5) = Some d"
    using assms pr n p q by (auto simp: OnOffer_def bind_eq_Some_conv)
  have "same_incoming ?c4 c5"
    using c5(1) by (auto simp: offer_description_def same_incoming_def rtc_def split: option.splits list.splits bool.splits)
  moreover have "same_incoming c5 d"
    using c5(2) each_rel [where R = same_incoming, OF _ same_incoming_candidate same_incoming_refl same_incoming_trans]
    by (auto split: option.splits)
  ultimately show ?thesis by (blast intro: same_incoming_trans)
qed

lemma same_incoming_TakePendingOffer: "TakePendingOffer doc c = Some (offer, d) \<Longrightarrow> same_incoming c d"
  by (auto simp: TakePendingOffer_def same_incoming_def split: option.splits)

lemma same_incoming_handle:
  assumes "client_handle E h doc c = Some d" and "h \<noteq> HFileOffer"
  shows "same_incoming c d"
proof (cases h)
  case HJoin
  then show ?thesis using assms(1)
    by (auto simp: OnJoin_def Let_def same_incoming_def UpdatePeers_def split: option.splits if_splits)
next
  case HLeave
  then show ?thesis using assms(1)
    by (auto simp: OnLeave_def Let_def same_incoming_def UpdatePeers_def Leave_def split: option.splits)
next
  case HFileAccept
  then show ?thesis using assms(1) same_incoming_TakePendingOffer
    by (fastforce simp: OnFileAccept_def same_incoming_def release_wait_def split: option.splits)
next
  case HFileReject
  then show ?thesis using assms(1) same_incoming_TakePendingOffer
    by (fastforce simp: OnFileReject_def same_incoming_def release_wait_def split: option.splits)
next
  case HOffer
  then show ?thesis using assms(1) same_incoming_OnOffer by simp
next
  case HAnswer
  then show ?thesis using assms(1) by (auto simp: OnAnswer_def split: option.splits bool.splits)
next
  case HCandidate
  then show ?thesis using assms(1) by (auto simp: OnCandidate_def split: option.splits)
next
  case HPingPong
  then show ?thesis using assms(1)
    by (auto simp: OnPingPong_def same_incoming_def split: option.splits if_splits)
qed (use assms in \<open>simp_all add: OnFileComplete_def\<close>)

section \<open>The receiving queues and the lock table\<close>

definition waiting :: "IncomingFile \<Rightarrow> bool" where
  "waiting f \<longleftrightarrow> lock f = None \<and> \<not> stream f"

definition front_ok :: "string \<Rightarrow> fsys \<Rightarrow> IncomingFile \<Rightarrow> bool" where
  "front_ok D fs f \<longleftrightarrow> stream f \<and> (\<exists>fd. lock f = Some fd \<and> (fd, resolve D (destination f), Exclusive) \<in> set (flocks fs))"

definition incoming_ok :: "string \<Rightarrow> nat set \<Rightarrow> client \<Rightarrow> bool" where
  "incoming_ok D H c \<longleftrightarrow> fsys_inv (files c) \<and> (\<forall>fd \<in> H. fd < next_fd (files c)) \<and>
     (\<forall>k q. m_incomingFiles c k = Some q \<longrightarrow> q \<noteq> [] \<and> front_ok D (files c) (hd q) \<and> (\<forall>g \<in> set (tl q). waiting g) \<and>
        (\<forall>fd \<in> H. lock (hd q) \<noteq> Some fd) \<and>
        (\<forall>k' q'. m_incomingFiles c k' = Some q' \<and> lock (hd q') = lock (hd q) \<longrightarrow> k' = k))"

lemma incoming_okD:
  assumes "incoming_ok D H c"
  shows "fsys_inv (files c)" "fd \<in> H \<Longrightarrow> fd < next_fd (files c)"
    "m_incomingFiles c k = Some q \<Longrightarrow> q \<noteq> [] \<and> front_ok D (files c) (hd q) \<and> (\<forall>g \<in> set (tl q). waiting g)"
    "m_incomingFiles c k = Some q \<Longrightarrow> fd \<in> H \<Longrightarrow> lock (hd q) \<noteq> Some fd"
    "m_incomingFiles c k = Some q \<Longrightarrow> m_incomingFiles c k' = Some q' \<Longrightarrow> lock (hd q') = lock (hd q) \<Longrightarrow> k' = k"
  using assms unfolding incoming_ok_def by blast+

lemma front_lock:
  assumes "incoming_ok D H c" and "m_incomingFiles c k = Some q"
  shows "\<exists>fd. lock (hd q) = Some fd \<and> (fd, resolve D (destination (hd q)), Exclusive) \<in> set (flocks (files c)) \<and>
    fd < next_fd (files c)"
proof -
  obtain fd where fd: "lock (hd q) = Some fd" "(fd, resolve D (destination (hd q)), Exclusive) \<in> set (flocks (files c))"
    using incoming_okD(3) [OF assms] by (auto simp: front_ok_def)
  then have "fd < next_fd (files c)"
    using incoming_okD(1) [OF assms(1)] unfolding fsys_inv_def by fastforce
  with fd show ?thesis by blast
qed

lemma incoming_ok_same: "incoming_ok D H c \<Longrightarrow> same_incoming c d \<Longrightarrow> incoming_ok D H d"
  by (simp add: incoming_ok_def same_incoming_def)

text \<open>The lock table changes, the queues do not: all that holds locks keeps them.\<close>

lemma incoming_ok_files:
  assumes ok: "incoming_ok D H c" and "m_incomingFiles d = m_incomingFiles c" and "fsys_inv (files d)"
    and "next_fd (files c) \<le> next_fd (files d)"
    and keep: "\<And>k q fd. m_incomingFiles c k = Some q \<Longrightarrow> lock (hd q) = Some fd \<Longrightarrow>
      (fd, resolve D (destination (hd q)), Exclusive) \<in> set (flocks (files c)) \<Longrightarrow>
      (fd, resolve D (destination (hd q)), Exclusive) \<in> set (flocks (files d))"
    and new: "\<And>fd. fd \<in> H' \<Longrightarrow> fd \<in> H \<or> next_fd (files c) \<le> fd \<and> fd < next_fd (files d)"
  shows "incoming_ok D H' d"
  unfolding incoming_ok_def assms(2)
proof (intro conjI allI impI ballI)
  show "fsys_inv (files d)" by (rule assms(3))
  show "fd < next_fd (files d)" if "fd \<in> H'" for fd
    using new [OF that] incoming_okD(2) [OF ok, of fd] assms(4) by linarith
  fix k q assume q: "m_incomingFiles c k = Some q"
  note o = incoming_okD [OF ok] and f = front_lock [OF ok q]
  show "q \<noteq> []" "\<And>g. g \<in> set (tl q) \<Longrightarrow> waiting g" using o(3) [OF q] by blast+
  show "front_ok D (files d) (hd q)"
    using o(3) [OF q] f keep [OF q] unfolding front_ok_def by blast
  show "lock (hd q) \<noteq> Some fd" if "fd \<in> H'" for fd
    using new [OF that] o(4) [OF q, of fd] f by auto
  show "k' = k" if "m_incomingFiles c k' = Some q' \<and> lock (hd q') = lock (hd q)" for k' q'
    using o(5) [OF q] that by blast
qed

text \<open>One queue changes: its new front, if any, has a lock of its own.\<close>

lemma incoming_ok_put:
  assumes ok: "incoming_ok D H c" and d: "m_incomingFiles d = (m_incomingFiles c)(k := if q = [] then None else Some q)"
    and "fsys_inv (files d)" and "next_fd (files c) \<le> next_fd (files d)"
    and keep: "\<And>k' q' fd. k' \<noteq> k \<Longrightarrow> m_incomingFiles c k' = Some q' \<Longrightarrow> lock (hd q') = Some fd \<Longrightarrow>
      (fd, resolve D (destination (hd q')), Exclusive) \<in> set (flocks (files c)) \<Longrightarrow>
      (fd, resolve D (destination (hd q')), Exclusive) \<in> set (flocks (files d))"
    and new: "q \<noteq> [] \<Longrightarrow> front_ok D (files d) (hd q) \<and> (\<forall>g \<in> set (tl q). waiting g)"
    and own: "\<And>fd. q \<noteq> [] \<Longrightarrow> lock (hd q) = Some fd \<Longrightarrow> fd \<notin> H \<and>
      (\<forall>k' q'. k' \<noteq> k \<longrightarrow> m_incomingFiles c k' = Some q' \<longrightarrow> lock (hd q') \<noteq> Some fd)"
  shows "incoming_ok D H d"
  unfolding incoming_ok_def
proof (intro conjI allI impI ballI)
  note o = incoming_okD [OF ok]
  show "fsys_inv (files d)" by (rule assms(3))
  show "fd < next_fd (files d)" if "fd \<in> H" for fd using o(2) [OF that] assms(4) by linarith
  have old: "k' \<noteq> k \<Longrightarrow> m_incomingFiles c k' = Some q'" if "m_incomingFiles d k' = Some q'" for k' q'
    using that by (simp add: d)
  have mine: "k' = k \<Longrightarrow> q' = q \<and> q \<noteq> []" if "m_incomingFiles d k' = Some q'" for k' q'
    using that by (auto simp: d split: if_splits)
  fix j r assume r: "m_incomingFiles d j = Some r"
  obtain fd where fd: "lock (hd q) = Some fd" if "q \<noteq> []" using new unfolding front_ok_def by blast
  show "r \<noteq> []" using o(3) old [OF r] mine [OF r] by blast
  show "waiting g" if "g \<in> set (tl r)" for g using o(3) old [OF r] mine [OF r] new that by blast
  show "front_ok D (files d) (hd r)"
  proof (cases "j = k")
    case True
    then show ?thesis using mine [OF r] new by simp
  next
    case False
    then show ?thesis using o(3) [OF old [OF r False]] keep [OF False old [OF r False]] by (auto simp: front_ok_def)
  qed
  show "lock (hd r) \<noteq> Some n" if "n \<in> H" for n
  proof (cases "j = k")
    case True
    then have "r = q" "q \<noteq> []" using mine [OF r] by simp_all
    with own that show ?thesis by blast
  next
    case False
    then show ?thesis using o(4) [OF old [OF r False] that] by simp
  qed
  show "j' = j" if "m_incomingFiles d j' = Some r' \<and> lock (hd r') = lock (hd r)" for j' r'
  proof -
    have eq: "lock (hd r') = lock (hd r)" and r': "m_incomingFiles d j' = Some r'" using that by simp_all
    have False if "j = k" "j' \<noteq> k"
    proof -
      have q: "r = q" "q \<noteq> []" using mine [OF r that(1)] by simp_all
      then have "lock (hd r') = Some fd" using eq fd by simp
      with own [OF q(2) fd [OF q(2)]] old [OF r' that(2)] that(2) show False by blast
    qed
    moreover have False if "j' = k" "j \<noteq> k"
    proof -
      have q: "r' = q" "q \<noteq> []" using mine [OF r' that(1)] by simp_all
      then have "lock (hd r) = Some fd" using eq fd by simp
      with own [OF q(2) fd [OF q(2)]] old [OF r that(2)] that(2) show False by blast
    qed
    moreover have "j' = j" if "j \<noteq> k" "j' \<noteq> k"
      using o(5) [OF old [OF r that(1)] old [OF r' that(2)] eq] .
    ultimately show ?thesis by blast
  qed
qed

section \<open>What the operations on files do to the lock table\<close>

text \<open>What \<open>Acquire\<close> returns from a descriptor-less lock: a new descriptor and its lock, or nothing.\<close>

lemma Acquire_result:
  assumes "Acquire ok p m wait None fs = Some (got, fd, fs')"
  shows "flocks fs' = (case fd of None \<Rightarrow> flocks fs | Some n \<Rightarrow> (n, p, m) # flocks fs)"
    "next_fd fs \<le> next_fd fs'" "fd = Some n \<Longrightarrow> n = next_fd fs \<and> n < next_fd fs'" "got \<longleftrightarrow> fd \<noteq> None"
    "disk fs r = Some content \<Longrightarrow> disk fs' r = Some content"
    "got \<Longrightarrow> m = Exclusive \<Longrightarrow> \<forall>x \<in> set (flocks fs). fst (snd x) \<noteq> p"
  using assms by (auto simp: Acquire_def Release_def Let_def lock_conflict_def split: if_splits)

lemma flocks_Release: "flocks (snd (Release fd fs)) = (case fd of None \<Rightarrow> flocks fs | Some n \<Rightarrow> filter (\<lambda>x. fst x \<noteq> n) (flocks fs))"
  by (simp add: Release_def split: option.splits)

lemma Release_other [simp]:
  "disk (snd (Release fd fs)) = disk fs" "next_fd (snd (Release fd fs)) = next_fd fs"
  by (simp_all add: Release_def split: option.splits)

lemma Release_fresh:
  assumes "fsys_inv fs" and "flocks fs' = (next_fd fs, p, m) # flocks fs"
  shows "flocks (snd (Release (Some (next_fd fs)) fs')) = flocks fs"
proof -
  have "\<forall>x \<in> set (flocks fs). fst x < next_fd fs" using assms(1) unfolding fsys_inv_def by blast
  then have "\<forall>x \<in> set (flocks fs). fst x \<noteq> next_fd fs" by auto
  then show ?thesis by (simp add: flocks_Release assms(2) filter_id_conv)
qed

lemma LockedIfstream_result:
  assumes "LockedIfstream_open ok p fs = Some (content, fd, fs')"
  shows "set (flocks fs) \<subseteq> set (flocks fs')" "next_fd fs \<le> next_fd fs'" "fd = Some n \<Longrightarrow> next_fd fs \<le> n \<and> n < next_fd fs'"
    "disk fs r = Some bs \<Longrightarrow> disk fs' r = Some bs" "fsys_inv fs \<Longrightarrow> fsys_inv fs'" "fsys_inv fs \<Longrightarrow> fd = Some n \<Longrightarrow> (n, p, Shared) \<in> set (flocks fs')"
proof -
  obtain got where a: "Acquire ok p Shared True None fs = Some (got, fd, fs')"
    using assms by (auto simp: LockedIfstream_open_def split: option.splits)
  note r = Acquire_result [OF a]
  show "set (flocks fs) \<subseteq> set (flocks fs')" by (auto simp: r(1) split: option.splits)
  show "next_fd fs \<le> next_fd fs'" by (rule r(2))
  show "fd = Some n \<Longrightarrow> next_fd fs \<le> n \<and> n < next_fd fs'" using r(3) by simp
  show "disk fs r = Some bs \<Longrightarrow> disk fs' r = Some bs" by (rule r(5))
  show "fsys_inv fs \<Longrightarrow> fsys_inv fs'" by (rule fsys_inv_Acquire [OF _ a])
  show "fsys_inv fs \<Longrightarrow> fd = Some n \<Longrightarrow> (n, p, Shared) \<in> set (flocks fs')" by (simp add: r(1))
qed

text \<open>
  \<open>StartNextIncoming\<close> on files that wait: the new front, if there is one, is open under a new lock; the
  other locks stay, and so do the files that are locked.
\<close>

definition started :: "string \<Rightarrow> fsys \<Rightarrow> IncomingFile list \<Rightarrow> fsys \<Rightarrow> bool" where
  "started D fs q fs' \<longleftrightarrow> fsys_inv fs' \<and> next_fd fs \<le> next_fd fs' \<and>
     (\<forall>x \<in> set (flocks fs). \<forall>bs. disk fs (fst (snd x)) = Some bs \<longrightarrow> disk fs' (fst (snd x)) = Some bs) \<and>
     (if q = [] then flocks fs' = flocks fs
      else stream (hd q) \<and> (\<forall>g \<in> set (tl q). waiting g) \<and> (\<exists>fd. lock (hd q) = Some fd \<and> next_fd fs \<le> fd \<and>
        flocks fs' = (fd, resolve D (destination (hd q)), Exclusive) # flocks fs))"

lemma started_trans:
  assumes "fsys_inv fs1" and "next_fd fs \<le> next_fd fs1" and "flocks fs1 = flocks fs"
    and "\<forall>x \<in> set (flocks fs). \<forall>bs. disk fs (fst (snd x)) = Some bs \<longrightarrow> disk fs1 (fst (snd x)) = Some bs"
    and "started D fs1 q fs'"
  shows "started D fs q fs'"
  using assms unfolding started_def by (auto intro: order_trans)

lemma StartNextIncoming_started:
  assumes "StartNextIncoming E q fs rc = (q', fs', rc')" and "fsys_inv fs" and "\<forall>f \<in> set q. waiting f"
  shows "started (cwd E) fs q' fs'"
  using assms
proof (induction q arbitrary: fs rc)
  case Nil
  then show ?case by (simp add: started_def)
next
  case (Cons f q)
  let ?p = "resolve (cwd E) (destination f)"
  have f: "lock f = None" "\<not> stream f" using Cons.prems(3) by (simp_all add: waiting_def)
  have q: "\<forall>g \<in> set q. waiting g" using Cons.prems(3) by simp
  obtain got fd fs1 where a: "Acquire (openable E) ?p Exclusive False None fs = Some (got, fd, fs1)"
    by (cases "Acquire (openable E) ?p Exclusive False None fs") (auto simp: Acquire_def Let_def split: if_splits)
  note r = Acquire_result [OF a] and inv1 = fsys_inv_Acquire [OF Cons.prems(2) a]
  have run: "StartNextIncoming E (f # q) fs rc = (case (got, fd) of (False, _) \<Rightarrow> StartNextIncoming E q fs1 rc
     | (True, fd) \<Rightarrow> if \<not> openable E ?p then StartNextIncoming E q (snd (Release fd fs1)) rc
         else let fs2 = fs1\<lparr>disk := (disk fs1)(?p \<mapsto> [])\<rparr> in
           if expectedSize f = 0 then StartNextIncoming E q (snd (Release fd fs2)) (insert (normal_path E (destination f)) rc)
           else (f\<lparr>lock := fd, stream := True, written := 0\<rparr> # q, fs2, rc))"
    using f a by (simp add: StartNextIncoming.simps(2) Let_def split: bool.splits)
  show ?case
  proof (cases got)
    case False
    then have "StartNextIncoming E q fs1 rc = (q', fs', rc')" using Cons.prems(1) run by simp
    then have "started (cwd E) fs1 q' fs'" using inv1 q by (rule Cons.IH)
    moreover have "flocks fs1 = flocks fs" using r(1,4) False by simp
    ultimately show ?thesis using started_trans [OF inv1 r(2)] r(5) by simp
  next
    case True
    then have fd: "fd = Some (next_fd fs)" and fl: "flocks fs1 = (next_fd fs, ?p, Exclusive) # flocks fs"
        and free: "\<forall>x \<in> set (flocks fs). fst (snd x) \<noteq> ?p" and op: "openable E ?p"
      using r(1,3,4,6) a by (auto simp: Acquire_def Let_def Release_def split: if_splits)
    let ?fs2 = "fs1\<lparr>disk := (disk fs1)(?p \<mapsto> [])\<rparr>"
    have d2: "disk ?fs2 (fst (snd x)) = Some bs" if "x \<in> set (flocks fs)" "disk fs (fst (snd x)) = Some bs" for x bs
      using free r(5) that by auto
    show ?thesis
    proof (cases "expectedSize f = 0")
      case True
      let ?fs3 = "snd (Release fd ?fs2)"
      have "StartNextIncoming E q ?fs3 (insert (normal_path E (destination f)) rc) = (q', fs', rc')"
        using Cons.prems(1) run \<open>got\<close> op True by (simp add: Let_def)
      then have "started (cwd E) ?fs3 q' fs'"
        by (rule Cons.IH) (use inv1 q in \<open>simp_all add: fsys_inv_Release\<close>)
      moreover have "flocks ?fs3 = flocks fs" using Release_fresh [OF Cons.prems(2), of ?fs2] fl fd by simp
      moreover have "fsys_inv ?fs3" using inv1 by (simp add: fsys_inv_Release)
      ultimately show ?thesis using d2 r(2) by (intro started_trans [of ?fs3 fs]) simp_all
    next
      case False
      then have "q' = f\<lparr>lock := fd, stream := True, written := 0\<rparr> # q \<and> fs' = ?fs2"
        using Cons.prems(1) run \<open>got\<close> op by (simp add: Let_def)
      then show ?thesis using fd fl d2 r(2) inv1 q by (auto simp: started_def)
    qed
  qed
qed

section \<open>The receiving operations keep the invariant\<close>

lemma incoming_ok_state [simp]: "incoming_ok D H (c\<lparr>m_clientState := x\<rparr>) = incoming_ok D H c"
  by (simp add: incoming_ok_def)

lemma start_next_fields:
  assumes "StartNextIncoming E r (files c) (m_receivedPaths c) = (q', fs', rc')"
  shows "m_incomingFiles (start_next E k r c) = (m_incomingFiles c)(k := if q' = [] then None else Some q')"
    "files (start_next E k r c) = fs'" "m_receivedPaths (start_next E k r c) = rc'"
  using assms by (simp_all add: start_next_def put_queue_def)

lemma start_next_isolated:
  assumes "fsys_inv (files c)" and "\<forall>g \<in> set r. waiting g"
  shows "k' \<noteq> k \<Longrightarrow> m_incomingFiles (start_next E k r c) k' = m_incomingFiles c k'"
    "x \<in> set (flocks (files c)) \<Longrightarrow> disk (files c) (fst (snd x)) = Some bs \<Longrightarrow>
      disk (files (start_next E k r c)) (fst (snd x)) = Some bs"
proof -
  obtain q' fs' rc' where s: "StartNextIncoming E r (files c) (m_receivedPaths c) = (q', fs', rc')"
    by (cases "StartNextIncoming E r (files c) (m_receivedPaths c)")
  note f = start_next_fields [OF s, of k] and st = StartNextIncoming_started [OF s assms]
  show "m_incomingFiles (start_next E k r c) k' = m_incomingFiles c k'" if "k' \<noteq> k"
    using that by (simp add: f)
  show "disk (files (start_next E k r c)) (fst (snd x)) = Some bs"
    if "x \<in> set (flocks (files c))" "disk (files c) (fst (snd x)) = Some bs"
    unfolding f(2) using st that unfolding started_def by blast
qed

lemma start_next_ok:
  assumes ok: "incoming_ok D H c" and D: "cwd E = D" and "\<forall>g \<in> set r. waiting g"
    and c1: "m_incomingFiles c1 = m_incomingFiles c" "fsys_inv (files c1)" "next_fd (files c1) = next_fd (files c)"
    and keep: "\<And>k' q' fd. k' \<noteq> k \<Longrightarrow> m_incomingFiles c k' = Some q' \<Longrightarrow> lock (hd q') = Some fd \<Longrightarrow>
      (fd, resolve D (destination (hd q')), Exclusive) \<in> set (flocks (files c)) \<Longrightarrow>
      (fd, resolve D (destination (hd q')), Exclusive) \<in> set (flocks (files c1))"
  shows "incoming_ok D H (start_next E k r c1)"
proof -
  obtain q' fs' rc' where s: "StartNextIncoming E r (files c1) (m_receivedPaths c1) = (q', fs', rc')"
    by (cases "StartNextIncoming E r (files c1) (m_receivedPaths c1)")
  note f = start_next_fields [OF s, of k]
  have st: "started D (files c1) q' fs'" using StartNextIncoming_started [OF s c1(2) assms(3)] D by simp
  have sub: "set (flocks (files c1)) \<subseteq> set (flocks fs')" using st by (auto simp: started_def split: if_splits)
  show ?thesis
  proof (rule incoming_ok_put [OF ok, of _ k q'])
    show "m_incomingFiles (start_next E k r c1) = (m_incomingFiles c)(k := if q' = [] then None else Some q')"
      by (simp only: f c1(1))
    show "fsys_inv (files (start_next E k r c1))" using st by (simp add: f started_def)
    show "next_fd (files c) \<le> next_fd (files (start_next E k r c1))" using st c1(3) by (simp add: f started_def)
    show "(fd, resolve D (destination (hd q'')), Exclusive) \<in> set (flocks (files (start_next E k r c1)))"
      if "k' \<noteq> k" "m_incomingFiles c k' = Some q''" "lock (hd q'') = Some fd"
        "(fd, resolve D (destination (hd q'')), Exclusive) \<in> set (flocks (files c))" for k' q'' fd
      using keep [OF that] sub by (auto simp: f)
    show "front_ok D (files (start_next E k r c1)) (hd q') \<and> (\<forall>g \<in> set (tl q'). waiting g)" if "q' \<noteq> []"
      using st that by (auto simp: f started_def front_ok_def)
    show "fd \<notin> H \<and> (\<forall>k' q''. k' \<noteq> k \<longrightarrow> m_incomingFiles c k' = Some q'' \<longrightarrow> lock (hd q'') \<noteq> Some fd)"
      if "q' \<noteq> []" "lock (hd q') = Some fd" for fd
    proof -
      have n: "next_fd (files c) \<le> fd" using st that c1(3) by (auto simp: started_def)
      then have "fd \<notin> H" using incoming_okD(2) [OF ok, of fd] by auto
      moreover have "lock (hd q'') \<noteq> Some fd" if "m_incomingFiles c k' = Some q''" for k' q''
        using front_lock [OF ok that] n by auto
      ultimately show ?thesis by blast
    qed
  qed
qed

text \<open>A chunk for an open front, in one equation.\<close>

definition chunk_result :: "env \<Rightarrow> peer_room_key \<Rightarrow> IncomingFile \<Rightarrow> IncomingFile list \<Rightarrow> bytes \<Rightarrow> client \<Rightarrow> client" where
  "chunk_result E k f r b c =
    (let p = resolve (cwd E) (destination f);
         bs = (if write_ok E then b else take (partial E) b);
         content = (case disk (files c) p of None \<Rightarrow> [] | Some z \<Rightarrow> z);
         fs = (files c)\<lparr>disk := (disk (files c))(p \<mapsto> write_at (written f) bs content)\<rparr>
     in if \<not> write_ok E \<or> \<not> int (written f + length b) < expectedSize f
        then start_next E k r (c\<lparr>files := snd (Release (lock f) fs),
          m_receivedPaths := insert (normal_path E (destination f)) (m_receivedPaths c)\<rparr>)
        else put_queue k (f\<lparr>written := written f + length b\<rparr> # r) (c\<lparr>files := fs\<rparr>))"

lemma chunk_eq:
  assumes "m_incomingFiles c (peer, room) = Some (f # r)" and "stream f"
  shows "\<exists>x. OnIncomingChunk E peer room b c = (chunk_result E (peer, room) f r b c)\<lparr>m_clientState := x\<rparr>"
proof -
  have "OnIncomingChunk E peer room b c = (if write_ok E \<and> int (written f + length b) = expectedSize f
      then (chunk_result E (peer, room) f r b c)\<lparr>m_clientState := CLIENT_RUN\<rparr> else chunk_result E (peer, room) f r b c)"
    by (simp add: OnIncomingChunk_def chunk_result_def assms Let_def)
  moreover have "u = u\<lparr>m_clientState := m_clientState u\<rparr>" for u :: client by simp
  ultimately show ?thesis by metis
qed

lemma chunk_idle:
  assumes "incoming_ok D H c" and "m_incomingFiles c (peer, room) = None"
  shows "OnIncomingChunk E peer room b c = c"
  using assms(2) by (simp add: OnIncomingChunk_def)

lemma chunk_ok:
  assumes ok: "incoming_ok D H c" and D: "cwd E = D"
  shows "incoming_ok D H (OnIncomingChunk E peer room b c)"
proof (cases "m_incomingFiles c (peer, room)")
  case None
  then show ?thesis using ok chunk_idle by simp
next
  case (Some q)
  note o = incoming_okD [OF ok]
  obtain f r where q: "q = f # r" using o(3) [OF Some] by (cases q) auto
  have f: "stream f" "\<forall>g \<in> set r. waiting g" using o(3) [OF Some] q by (auto simp: front_ok_def)
  obtain fd where fd: "lock f = Some fd" "(fd, resolve D (destination f), Exclusive) \<in> set (flocks (files c))"
    using front_lock [OF ok Some] q by auto
  let ?p = "resolve D (destination f)"
  define fs where "fs = (files c)\<lparr>disk := (disk (files c))(?p \<mapsto> write_at (written f)
    (if write_ok E then b else take (partial E) b) (case disk (files c) ?p of None \<Rightarrow> [] | Some z \<Rightarrow> z))\<rparr>"
  have fs: "fsys_inv fs" "flocks fs = flocks (files c)" "next_fd fs = next_fd (files c)"
    using o(1) by (simp_all add: fs_def)
  let ?c1 = "c\<lparr>files := snd (Release (lock f) fs), m_receivedPaths := insert (normal_path E (destination f)) (m_receivedPaths c)\<rparr>"
  obtain x where x: "OnIncomingChunk E peer room b c =
      (if \<not> write_ok E \<or> \<not> int (written f + length b) < expectedSize f then start_next E (peer, room) r ?c1
       else put_queue (peer, room) (f\<lparr>written := written f + length b\<rparr> # r) (c\<lparr>files := fs\<rparr>))\<lparr>m_clientState := x\<rparr>"
    using chunk_eq [of c peer room f r E b] Some q f(1) D unfolding chunk_result_def Let_def fs_def by auto
  have other: "lock (hd q') \<noteq> Some fd" if "k' \<noteq> (peer, room)" "m_incomingFiles c k' = Some q'" for k' q'
    using o(5) [OF Some that(2)] that(1) q fd(1) by auto
  have fin: "incoming_ok D H (start_next E (peer, room) r ?c1)"
  proof (rule start_next_ok [OF ok D f(2)])
    show "fsys_inv (files ?c1)" using fs(1) by (simp add: fsys_inv_Release)
    show "(n, resolve D (destination (hd q')), Exclusive) \<in> set (flocks (files ?c1))"
      if "k' \<noteq> (peer, room)" "m_incomingFiles c k' = Some q'" "lock (hd q') = Some n"
        "(n, resolve D (destination (hd q')), Exclusive) \<in> set (flocks (files c))" for k' q' n
      using other [OF that(1,2)] that(3,4) by (simp add: flocks_Release fd(1) fs(2))
  qed (simp_all add: fs(3))
  have go: "incoming_ok D H (put_queue (peer, room) (f\<lparr>written := n\<rparr> # r) (c\<lparr>files := fs\<rparr>))" for n
  proof (rule incoming_ok_put [OF ok, of _ "(peer, room)" "f\<lparr>written := n\<rparr> # r"])
    show "front_ok D (files (put_queue (peer, room) (f\<lparr>written := n\<rparr> # r) (c\<lparr>files := fs\<rparr>))) (hd (f\<lparr>written := n\<rparr> # r)) \<and>
        (\<forall>g \<in> set (tl (f\<lparr>written := n\<rparr> # r)). waiting g)"
      using f fd by (simp add: put_queue_def front_ok_def fs(2))
    show "m \<notin> H \<and> (\<forall>k' q'. k' \<noteq> (peer, room) \<longrightarrow> m_incomingFiles c k' = Some q' \<longrightarrow> lock (hd q') \<noteq> Some m)"
      if "lock (hd (f\<lparr>written := n\<rparr> # r)) = Some m" for m
      using that fd(1) other o(4) [OF Some] q by auto
  qed (simp_all add: put_queue_def fs)
  show ?thesis unfolding x using fin go by simp
qed

lemma enqueue_ok:
  assumes ok: "incoming_ok D H c" and D: "cwd E = D"
  shows "incoming_ok D H (enqueue_incoming E k (new_incoming len dest) c)"
proof (cases "m_incomingFiles c k")
  case None
  then have "enqueue_incoming E k (new_incoming len dest) c = start_next E k [new_incoming len dest] c"
    by (simp add: enqueue_incoming_def)
  moreover have "incoming_ok D H (start_next E k [new_incoming len dest] c)"
    using incoming_okD(1) [OF ok]
    by (intro start_next_ok [OF ok D]) (simp_all add: new_incoming_def waiting_def)
  ultimately show ?thesis by simp
next
  case (Some q)
  note o = incoming_okD [OF ok]
  obtain f r where q: "q = f # r" using o(3) [OF Some] by (cases q) auto
  have "enqueue_incoming E k (new_incoming len dest) c = put_queue k (f # r @ [new_incoming len dest]) c"
    using Some q by (simp add: enqueue_incoming_def)
  moreover have "incoming_ok D H (put_queue k (f # r @ [new_incoming len dest]) c)"
  proof (rule incoming_ok_put [OF ok, of _ k "f # r @ [new_incoming len dest]"])
    show "front_ok D (files (put_queue k (f # r @ [new_incoming len dest]) c)) (hd (f # r @ [new_incoming len dest])) \<and>
        (\<forall>g \<in> set (tl (f # r @ [new_incoming len dest])). waiting g)"
      using o(3) [OF Some] q by (auto simp: put_queue_def new_incoming_def waiting_def)
    show "fd \<notin> H \<and> (\<forall>k' q'. k' \<noteq> k \<longrightarrow> m_incomingFiles c k' = Some q' \<longrightarrow> lock (hd q') \<noteq> Some fd)"
      if "lock (hd (f # r @ [new_incoming len dest])) = Some fd" for fd
      using that o(4) [OF Some, of fd] o(5) [OF Some] q by fastforce
  qed (use o(1) in \<open>simp_all add: put_queue_def\<close>)
  ultimately show ?thesis by simp
qed

end
