(* ===== verification/Transfer_Isolation.thy ===== *)
theory Transfer_Isolation
  imports Client_System
begin

text \<open>
  What the steps of the client (\<open>client_step\<close>) do to one another's files. The invariant \<open>sys_ok\<close> adds to
  \<open>incoming_ok\<close> that each sending thread has the lock of the file it reads. Every step keeps the locks, the
  queues and the contents that belong to somebody else (\<open>chunk_keeps\<close>, \<open>enqueue_keeps\<close>, \<open>step_isolated\<close>),
  and so a transfer gets exactly what its own chunks carry.
\<close>

section \<open>What a receiving operation keeps\<close>

lemma chunk_keeps:
  assumes ok: "incoming_ok D H c" and D: "cwd E = D" and x: "x \<in> set (flocks (files c))"
    and own: "\<And>q. m_incomingFiles c (peer, room) = Some q \<Longrightarrow> lock (hd q) \<noteq> Some (fst x)"
  shows "x \<in> set (flocks (files (OnIncomingChunk E peer room b c)))"
    "disk (files c) (fst (snd x)) = Some bs \<Longrightarrow> disk (files (OnIncomingChunk E peer room b c)) (fst (snd x)) = Some bs"
    "k \<noteq> (peer, room) \<Longrightarrow> m_incomingFiles (OnIncomingChunk E peer room b c) k = m_incomingFiles c k"
proof -
  let ?d = "OnIncomingChunk E peer room b c"
  have "x \<in> set (flocks (files ?d)) \<and> (disk (files c) (fst (snd x)) = Some bs \<longrightarrow> disk (files ?d) (fst (snd x)) = Some bs) \<and>
    (k \<noteq> (peer, room) \<longrightarrow> m_incomingFiles ?d k = m_incomingFiles c k)"
  proof (cases "m_incomingFiles c (peer, room)")
    case None
    then show ?thesis using chunk_idle [OF ok None] x by simp
  next
    case (Some q)
    note o = incoming_okD [OF ok]
    obtain f r where q: "q = f # r" using o(3) [OF Some] by (cases q) auto
    have f: "stream f" "\<forall>g \<in> set r. waiting g" using o(3) [OF Some] q by (auto simp: front_ok_def)
    obtain fd where fd: "lock f = Some fd" "(fd, resolve D (destination f), Exclusive) \<in> set (flocks (files c))"
      using front_lock [OF ok Some] q by auto
    have ne: "fst x \<noteq> fd" using own [OF Some] fd q by auto
    have path: "fst (snd x) \<noteq> resolve D (destination f)"
    proof
      assume "fst (snd x) = resolve D (destination f)"
      then have "snd (snd (fd, resolve D (destination f), Exclusive)) = Shared"
        using o(1) fd(2) x ne unfolding fsys_inv_def by (metis fst_conv snd_conv)
      then show False by simp
    qed
    let ?p = "resolve D (destination f)"
    define fs where "fs = (files c)\<lparr>disk := (disk (files c))(?p \<mapsto> write_at (written f)
      (if write_ok E then b else take (partial E) b) (case disk (files c) ?p of None \<Rightarrow> [] | Some z \<Rightarrow> z))\<rparr>"
    let ?c1 = "c\<lparr>files := snd (Release (lock f) fs), m_receivedPaths := insert (normal_path E (destination f)) (m_receivedPaths c)\<rparr>"
    obtain y where y: "?d = (if \<not> write_ok E \<or> \<not> int (written f + length b) < expectedSize f then start_next E (peer, room) r ?c1
         else put_queue (peer, room) (f\<lparr>written := written f + length b\<rparr> # r) (c\<lparr>files := fs\<rparr>))\<lparr>m_clientState := y\<rparr>"
      using chunk_eq [of c peer room f r E b] Some q f(1) D unfolding chunk_result_def Let_def fs_def by auto
    have fs: "fsys_inv fs" "flocks fs = flocks (files c)" using o(1) by (simp_all add: fs_def)
    have x1: "x \<in> set (flocks (files ?c1))" using x ne by (simp add: flocks_Release fd(1) fs(2))
    have d1: "disk (files ?c1) (fst (snd x)) = disk (files c) (fst (snd x))" using path by (simp add: fs_def)
    have inv1: "fsys_inv (files ?c1)" using fs(1) by (simp add: fsys_inv_Release)
    obtain q' fs' rc' where s: "StartNextIncoming E r (files ?c1) (m_receivedPaths ?c1) = (q', fs', rc')"
      by (cases "StartNextIncoming E r (files ?c1) (m_receivedPaths ?c1)")
    have sub: "set (flocks (files ?c1)) \<subseteq> set (flocks (files (start_next E (peer, room) r ?c1)))"
      using StartNextIncoming_started [OF s inv1 f(2)]
      unfolding start_next_fields(2) [OF s] started_def by (auto split: if_splits)
    note iso = start_next_isolated [OF inv1 f(2), where E = E and k = "(peer, room)"]
    have "x \<in> set (flocks (files (start_next E (peer, room) r ?c1)))" using x1 sub by blast
    moreover have "disk (files c) (fst (snd x)) = Some bs \<Longrightarrow>
        disk (files (start_next E (peer, room) r ?c1)) (fst (snd x)) = Some bs"
      using iso(2) [OF x1] d1 by simp
    moreover have "k \<noteq> (peer, room) \<Longrightarrow> m_incomingFiles (start_next E (peer, room) r ?c1) k = m_incomingFiles c k"
      using iso(1) by simp
    moreover have "disk fs (fst (snd x)) = disk (files c) (fst (snd x))" using path by (simp add: fs_def)
    ultimately show ?thesis unfolding y using x fs(2) by (simp add: put_queue_def)
  qed
  then show "x \<in> set (flocks (files ?d))"
    "disk (files c) (fst (snd x)) = Some bs \<Longrightarrow> disk (files ?d) (fst (snd x)) = Some bs"
    "k \<noteq> (peer, room) \<Longrightarrow> m_incomingFiles ?d k = m_incomingFiles c k" by blast+
qed

lemma enqueue_keeps:
  assumes ok: "incoming_ok D H c" and x: "x \<in> set (flocks (files c))"
  shows "x \<in> set (flocks (files (enqueue_incoming E k (new_incoming len dest) c)))"
    "disk (files c) (fst (snd x)) = Some bs \<Longrightarrow>
      disk (files (enqueue_incoming E k (new_incoming len dest) c)) (fst (snd x)) = Some bs"
proof -
  let ?f = "new_incoming len dest"
  have w: "\<forall>g \<in> set [?f]. waiting g" by (simp add: new_incoming_def waiting_def)
  obtain q' fs' rc' where s: "StartNextIncoming E [?f] (files c) (m_receivedPaths c) = (q', fs', rc')"
    by (cases "StartNextIncoming E [?f] (files c) (m_receivedPaths c)")
  note st = StartNextIncoming_started [OF s incoming_okD(1) [OF ok] w]
  have "x \<in> set (flocks fs') \<and> (disk (files c) (fst (snd x)) = Some bs \<longrightarrow> disk fs' (fst (snd x)) = Some bs)"
    using st x unfolding started_def by (auto split: if_splits)
  then have "x \<in> set (flocks (files (enqueue_incoming E k ?f c))) \<and>
      (disk (files c) (fst (snd x)) = Some bs \<longrightarrow> disk (files (enqueue_incoming E k ?f c)) (fst (snd x)) = Some bs)"
    using x incoming_okD(3) [OF ok, of k] start_next_fields(2) [OF s, of k]
    by (cases "m_incomingFiles c k") (auto simp: enqueue_incoming_def put_queue_def)
  then show "x \<in> set (flocks (files (enqueue_incoming E k ?f c)))"
    "disk (files c) (fst (snd x)) = Some bs \<Longrightarrow> disk (files (enqueue_incoming E k ?f c)) (fst (snd x)) = Some bs"
    by blast+
qed

text \<open>An offer puts its file behind those its sender has on the way; other queues stay.\<close>

lemma enqueue_behind:
  assumes "incoming_ok D H c" and "m_incomingFiles c j = Some (f # r)"
  shows "\<exists>r'. m_incomingFiles (enqueue_incoming E k (new_incoming len dest) c) j = Some (f # r @ r')"
proof (cases "j = k")
  case True
  then show ?thesis using assms(2) by (simp add: enqueue_incoming_def put_queue_def)
next
  case False
  obtain q' fs' rc' where s: "StartNextIncoming E [new_incoming len dest] (files c) (m_receivedPaths c) = (q', fs', rc')"
    by (cases "StartNextIncoming E [new_incoming len dest] (files c) (m_receivedPaths c)")
  show ?thesis
    using assms(2) False start_next_fields(1) [OF s, of k]
    by (cases "m_incomingFiles c k") (auto simp: enqueue_incoming_def put_queue_def Let_def)
qed

lemma OnFileOffer_cases:
  assumes "OnFileOffer E doc c = Some d"
  shows "same_incoming c d \<or> (\<exists>k len dest. same_incoming (enqueue_incoming E k (new_incoming len dest) c) d)"
proof -
  have reject: "SendFileReject E doc t = Some u \<Longrightarrow> same_incoming t u" for t u
    by (auto simp: SendFileReject_def split: option.splits)
  have accept: "SendFileAccept E doc t = Some u \<Longrightarrow> same_incoming t u" for t u
    by (auto simp: SendFileAccept_def split: option.splits)
  show ?thesis
  proof (cases "file_offer_fields doc")
    case None
    then show ?thesis using assms by (simp add: OnFileOffer_def)
  next
    case (Some fs)
    obtain peer room f name len where fs: "fs = (peer, room, f, name, len)" by (cases fs)
    then obtain dir where dir: "(case destination_path dir name of None \<Rightarrow> Some c
        | Some dest \<Rightarrow> if parent_path dest \<noteq> [] \<and> \<not> dirs_ok E (parent_path dest) then Some c
            else if already_present E f dest c then SendFileReject E doc c
            else SendFileAccept E doc (enqueue_incoming E (peer, room) (new_incoming len dest) c)) = Some d"
      using assms Some by (auto simp: OnFileOffer_def bind_eq_Some_conv)
    show ?thesis
    proof (cases "destination_path dir name")
      case None
      then show ?thesis using dir by simp
    next
      case (Some dest)
      then show ?thesis using dir reject accept by (simp split: if_splits) blast+
    qed
  qed
qed

lemma client_message_cases:
  assumes "client_message E parse input c = Some d"
  shows "same_incoming c d \<or> (\<exists>k len dest. same_incoming (enqueue_incoming E k (new_incoming len dest) c) d)"
proof -
  have "d = c \<or> (\<exists>h doc. client_handle E h doc c = Some d)"
    using assms by (auto simp: client_message_def MessageRouter_def split: option.splits json.splits if_splits)
  then show ?thesis
  proof (elim disjE exE)
    fix h doc
    assume "client_handle E h doc c = Some d"
    then show ?thesis using same_incoming_handle [of E h doc c d] OnFileOffer_cases [of E doc c d] by (cases "h = HFileOffer") auto
  qed simp
qed

section \<open>The invariant\<close>

definition readers_ok :: "string \<Rightarrow> client_sys \<Rightarrow> bool" where
  "readers_ok D s \<longleftrightarrow> (\<forall>(q, path, fd) \<in> readings s. (fd, resolve D path, Shared) \<in> set (flocks (files (cl s))) \<and>
     fd \<notin> foreign s \<and> (\<forall>(q', path', fd') \<in> readings s. fd' = fd \<longrightarrow> q' = q))"

definition sys_ok :: "string \<Rightarrow> client_sys \<Rightarrow> bool" where
  "sys_ok D s \<longleftrightarrow> incoming_ok D (held s) (cl s) \<and> readers_ok D s"

lemma sys_okD:
  assumes "sys_ok D s"
  shows "incoming_ok D (held s) (cl s)" "readers_ok D s"
  using assms by (simp_all add: sys_ok_def)

lemma readers_ok_keep:
  assumes "readers_ok D s" and "readings t = readings s" and "foreign t = foreign s"
    and "\<And>x. x \<in> set (flocks (files (cl s))) \<Longrightarrow> fst x \<in> held s \<Longrightarrow> x \<in> set (flocks (files (cl t)))"
  shows "readers_ok D t"
proof -
  have "(fd, resolve D path, Shared) \<in> set (flocks (files (cl t)))" if "(q, path, fd) \<in> readings s" for q path fd
  proof -
    have "fd \<in> held s" using that by (force simp: held_def)
    moreover have "(fd, resolve D path, Shared) \<in> set (flocks (files (cl s)))"
      using assms(1) that unfolding readers_ok_def by blast
    ultimately show ?thesis using assms(4) by simp
  qed
  then show ?thesis using assms(1) unfolding readers_ok_def assms(2,3) by blast
qed

lemma sys_ok_same:
  assumes "sys_ok D s" and "same_incoming (cl s) (cl t)" and "readings t = readings s" and "foreign t = foreign s"
  shows "sys_ok D t"
proof -
  have "held t = held s" by (simp add: held_def assms(3,4))
  moreover have "readers_ok D t"
    by (rule readers_ok_keep [OF sys_okD(2) [OF assms(1)] assms(3,4)]) (use assms(2) in \<open>simp add: same_incoming_def\<close>)
  ultimately show ?thesis
    using incoming_ok_same [OF sys_okD(1) [OF assms(1)] assms(2)] by (simp add: sys_ok_def)
qed

text \<open>The steps by what they do to queues, locks and files.\<close>

lemma step_kinds:
  assumes "client_step D parse e s t"
  obtains
    (same) "same_incoming (cl s) (cl t)" "readings t = readings s" "foreign t = foreign s"
  | (offer) E k len dest where "cwd E = D" "same_incoming (enqueue_incoming E k (new_incoming len dest) (cl s)) (cl t)"
      "readings t = readings s" "foreign t = foreign s" "\<exists>input. e = Signalling input"
  | (chunk) E k b where "e = Chunk E k b" "cwd E = D" "cl t = OnIncomingChunk E (fst k) (snd k) b (cl s)"
      "readings t = readings s" "foreign t = foreign s"
  | (reading) E :: env and q path content fd fs where "busy s q = Some (Taken path)"
      "LockedIfstream_open (openable E) (resolve D path) (files (cl s)) = Some (content, fd, fs)"
      "t = set_files fs s\<lparr>busy := (busy s)(q := map_option (Reading path) fd)\<rparr>" "e = Sender"
  | (read) q path fd where "busy s q = Some (Reading path fd)" "m_incomingFiles (cl t) = m_incomingFiles (cl s)"
      "files (cl t) = snd (Release (Some fd) (files (cl s)))" "busy t = (busy s)(q := None)" "foreign t = foreign s" "e = Sender"
  | (lock) ok p m wait got fd fs where "Acquire ok p m wait None (files (cl s)) = Some (got, fd, fs)"
      "t = set_files fs s\<lparr>foreign := foreign s \<union> set_option fd\<rparr>" "e = Foreign"
  | (unlock) fd where "fd \<in> foreign s"
      "t = set_files (snd (Release (Some fd) (files (cl s)))) s\<lparr>foreign := foreign s - {fd}\<rparr>" "e = Foreign"
  | (outside) p content where "e = Outside p content"
      "t = set_files ((files (cl s))\<lparr>disk := (disk (files (cl s)))(p := content)\<rparr>) s"
  using assms
proof (cases rule: client_step.cases)
  case (cs_worker E timed_out p c)
  then show ?thesis using same same_incoming_worker [OF cs_worker(4)] by (simp add: readings_def)
next
  case (cs_message E input c)
  then show ?thesis using same offer client_message_cases [OF cs_message(4)] by fastforce
next
  case (cs_chunk E k b)
  then show ?thesis using chunk by (simp add: on_channel_message_def)
next
  case (cs_text E k x)
  then show ?thesis using same by (simp add: on_channel_message_def)
next
  case (cs_queue peer room path)
  then show ?thesis using same by (simp add: readings_def set_cl_def)
next
  case (cs_change E path change)
  then show ?thesis using same same_incoming_change by (simp add: readings_def set_cl_def)
next
  case cs_start
  then show ?thesis using same by (simp add: readings_def set_cl_def)
next
  case (cs_take k q path q' goes_on)
  then have "readings t = readings s" by (auto simp: readings_def set_cl_def split: if_splits)
  with cs_take show ?thesis using same by (simp add: set_cl_def same_incoming_def)
next
  case (cs_read E q path content fd fs)
  then show ?thesis using reading by blast
next
  case (cs_sent q path fd k c complete E)
  then show ?thesis using read [of q path fd]
    by (auto simp: LockedIfstream_close_def SendFileComplete_def SendMessage_def set_cl_def)
next
  case (cs_lock ok p m wait got fd fs)
  then show ?thesis using lock by blast
next
  case (cs_unlock fd)
  then show ?thesis using unlock by blast
next
  case (cs_outside p content)
  then show ?thesis using outside by blast
qed (rule same; simp)+

text \<open>A lock changes hands outside the receiver: the lock table grows, or loses a lock that is held.\<close>

lemma readings_upd:
  "busy t = (busy s)(q := v) \<Longrightarrow> (q', path, fd) \<in> readings t \<longleftrightarrow>
     (if q' = q then v = Some (Reading path fd) else (q', path, fd) \<in> readings s)"
  by (simp add: readings_def)

lemma sys_ok_release:
  assumes ok: "sys_ok D s" and fd: "fd \<in> held s"
    and t: "m_incomingFiles (cl t) = m_incomingFiles (cl s)" "files (cl t) = snd (Release (Some fd) (files (cl s)))"
    and less: "readings t \<subseteq> readings s" "foreign t \<subseteq> foreign s"
    and gone: "\<And>q path. (q, path, fd) \<notin> readings t"
  shows "sys_ok D t"
proof -
  note inc = sys_okD(1) [OF ok]
  have H: "held t \<subseteq> held s" unfolding held_def by (intro Un_mono image_mono less)
  have "incoming_ok D (held t) (cl t)"
  proof (rule incoming_ok_files [OF inc t(1)])
    show "fsys_inv (files (cl t))" using incoming_okD(1) [OF inc] by (simp add: t fsys_inv_Release)
    show "next_fd (files (cl s)) \<le> next_fd (files (cl t))" by (simp add: t)
    show "(n, resolve D (destination (hd q)), Exclusive) \<in> set (flocks (files (cl t)))"
      if "m_incomingFiles (cl s) k = Some q" "lock (hd q) = Some n"
        "(n, resolve D (destination (hd q)), Exclusive) \<in> set (flocks (files (cl s)))" for k q n
      using that incoming_okD(4) [OF inc that(1) fd] by (auto simp: t flocks_Release)
    show "n \<in> held s \<or> next_fd (files (cl s)) \<le> n \<and> n < next_fd (files (cl t))" if "n \<in> held t" for n
      using that H by blast
  qed
  moreover have "readers_ok D t"
    unfolding readers_ok_def
  proof (clarify, intro conjI)
    fix q path n
    assume r: "(q, path, n) \<in> readings t"
    then have "(q, path, n) \<in> readings s" using less by blast
    with sys_okD(2) [OF ok] have o: "(n, resolve D path, Shared) \<in> set (flocks (files (cl s)))" "n \<notin> foreign s"
        "\<forall>(q', path', fd') \<in> readings s. fd' = n \<longrightarrow> q' = q" unfolding readers_ok_def by blast+
    have "n \<noteq> fd" using r gone by blast
    with o(1) show "(n, resolve D path, Shared) \<in> set (flocks (files (cl t)))" by (simp add: t flocks_Release)
    show "n \<notin> foreign t" using o(2) less by blast
    show "\<forall>(q', path', fd') \<in> readings t. fd' = n \<longrightarrow> q' = q" using o(3) less(1) by blast
  qed
  ultimately show ?thesis by (simp add: sys_ok_def)
qed

lemma sys_ok_grow:
  assumes ok: "sys_ok D s"
    and t: "m_incomingFiles (cl t) = m_incomingFiles (cl s)" "fsys_inv (files (cl t))"
      "next_fd (files (cl s)) \<le> next_fd (files (cl t))" "set (flocks (files (cl s))) \<subseteq> set (flocks (files (cl t)))"
    and new: "\<And>n. n \<in> held t \<Longrightarrow> n \<in> held s \<or> next_fd (files (cl s)) \<le> n \<and> n < next_fd (files (cl t))"
    and r: "readers_ok D t"
  shows "sys_ok D t"
  unfolding sys_ok_def
  by (intro conjI r incoming_ok_files [OF sys_okD(1) [OF ok] t(1-3)] new) (use t(4) in auto)

lemma held_old: "sys_ok D s \<Longrightarrow> n \<in> held s \<Longrightarrow> n < next_fd (files (cl s))"
  using incoming_okD(2) sys_okD(1) by blast

lemma sys_ok_reading:
  assumes ok: "sys_ok D s"
    and o: "LockedIfstream_open op (resolve D path) (files (cl s)) = Some (content, fd, fs)"
    and idle: "busy s q = Some (Taken path)"
    and t: "t = set_files fs s\<lparr>busy := (busy s)(q := map_option (Reading path) fd)\<rparr>"
  shows "sys_ok D t"
proof (rule sys_ok_grow [OF ok])
  note l = LockedIfstream_result [OF o] and inv = incoming_okD(1) [OF sys_okD(1) [OF ok]]
  show "fsys_inv (files (cl t))" using l(5) inv by (simp add: t set_files_def)
  show "m_incomingFiles (cl t) = m_incomingFiles (cl s)" by (simp add: t set_files_def)
  show "next_fd (files (cl s)) \<le> next_fd (files (cl t))" using l(2) by (simp add: t set_files_def)
  show "set (flocks (files (cl s))) \<subseteq> set (flocks (files (cl t)))" using l(1) by (simp add: t set_files_def)
  have b: "busy t = (busy s)(q := map_option (Reading path) fd)" and fl: "files (cl t) = fs" "foreign t = foreign s"
    by (simp_all add: t set_files_def)
  have r: "(q', p, n) \<in> readings t \<longleftrightarrow> (if q' = q then p = path \<and> fd = Some n else (q', p, n) \<in> readings s)" for q' p n
    unfolding readings_upd [OF b] by auto
  show "n \<in> held s \<or> next_fd (files (cl s)) \<le> n \<and> n < next_fd (files (cl t))" if "n \<in> held t" for n
  proof (cases "n \<in> foreign s")
    case True
    then show ?thesis by (simp add: held_def)
  next
    case False
    then obtain q' p where qp: "(q', p, n) \<in> readings t" using \<open>n \<in> held t\<close> fl by (auto simp: held_def)
    show ?thesis
    proof (cases "q' = q")
      case True
      then show ?thesis using qp r l(3) fl by auto
    next
      case False
      then have "(q', p, n) \<in> readings s" using qp r by simp
      then show ?thesis by (force simp: held_def)
    qed
  qed
  show "readers_ok D t"
    unfolding readers_ok_def
  proof (clarify, intro conjI)
    fix q' p n
    assume x: "(q', p, n) \<in> readings t"
    have old: "(m, resolve D p', Shared) \<in> set (flocks (files (cl s))) \<and> m \<notin> foreign s \<and> m < next_fd (files (cl s)) \<and>
        (\<forall>(q'', p'', fd') \<in> readings s. fd' = m \<longrightarrow> q'' = q1)" if "(q1, p', m) \<in> readings s" for q1 p' m
    proof -
      have "m \<in> held s" using that by (force simp: held_def)
      with held_old [OF ok] sys_okD(2) [OF ok] that show ?thesis unfolding readers_ok_def by blast
    qed
    have "(n, resolve D p, Shared) \<in> set (flocks fs) \<and> n \<notin> foreign s \<and> (q' = q \<longrightarrow> next_fd (files (cl s)) \<le> n)"
    proof (cases "q' = q")
      case True
      then have "p = path" "fd = Some n" using x r by simp_all
      moreover have "n \<notin> foreign s" using held_old [OF ok, of n] l(3) [OF \<open>fd = Some n\<close>] by (auto simp: held_def)
      ultimately show ?thesis using l(3,6) inv by simp
    next
      case False
      then show ?thesis using x r old [of q' p n] l(1) by auto
    qed
    moreover have "q'' = q'" if "(q'', p'', n) \<in> readings t" for q'' p''
      using that x r old [of q' p n] old [of q'' p'' n] l(3) [of n] by (cases "q' = q"; cases "q'' = q") force+
    ultimately show "(n, resolve D p, Shared) \<in> set (flocks (files (cl t)))" "n \<notin> foreign t"
      "\<forall>(q'', p'', fd') \<in> readings t. fd' = n \<longrightarrow> q'' = q'" using fl by auto
  qed
qed

lemma sys_ok_step:
  assumes ok: "sys_ok D s" and "client_step D parse e s t"
  shows "sys_ok D t"
proof -
  note inc = sys_okD(1) [OF ok] and rd = sys_okD(2) [OF ok]
  note inv = incoming_okD(1) [OF inc]
  from assms(2) show ?thesis
  proof (cases rule: step_kinds)
    case same
    then show ?thesis by (rule sys_ok_same [OF ok])
  next
    case (offer E k len dest)
    let ?c = "enqueue_incoming E k (new_incoming len dest) (cl s)"
    have h: "held t = held s" by (simp add: held_def offer)
    have "incoming_ok D (held t) (cl t)"
      unfolding h by (rule incoming_ok_same [OF enqueue_ok [OF inc offer(1)] offer(2)])
    moreover have "readers_ok D t"
      by (rule readers_ok_keep [OF rd offer(3,4)])
        (use offer(2) enqueue_keeps(1) [OF inc] in \<open>simp add: same_incoming_def\<close>)
    ultimately show ?thesis by (simp add: sys_ok_def)
  next
    case (chunk E k b)
    have h: "held t = held s" by (simp add: held_def chunk)
    have "incoming_ok D (held t) (cl t)" unfolding h chunk(3) by (rule chunk_ok [OF inc chunk(2)])
    moreover have "readers_ok D t"
    proof (rule readers_ok_keep [OF rd chunk(4,5)])
      fix x assume x: "x \<in> set (flocks (files (cl s)))" "fst x \<in> held s"
      show "x \<in> set (flocks (files (cl t)))"
        unfolding chunk(3) by (rule chunk_keeps(1) [OF inc chunk(2) x(1)]) (use incoming_okD(4) [OF inc _ x(2)] in blast)
    qed
    ultimately show ?thesis by (simp add: sys_ok_def)
  next
    case (reading E q path content fd fs)
    then show ?thesis using sys_ok_reading [OF ok] by blast
  next
    case (read q path fd)
    note b = readings_upd [OF read(4)]
    have q: "(q, path, fd) \<in> readings s" using read(1) by (simp add: readings_def)
    show ?thesis
    proof (rule sys_ok_release [OF ok, of fd])
      show "fd \<in> held s" using q by (force simp: held_def)
      show "readings t \<subseteq> readings s" by (auto simp: b split: if_splits)
      show "(q', p, fd) \<notin> readings t" for q' p
        using rd q unfolding readers_ok_def by (auto simp: b)
    qed (simp_all add: read)
  next
    case (lock op p m wait got fd fs)
    note a = Acquire_result [OF lock(1)]
    have fl: "files (cl t) = fs" "readings t = readings s" "foreign t = foreign s \<union> set_option fd"
      "m_incomingFiles (cl t) = m_incomingFiles (cl s)" by (simp_all add: lock set_files_def readings_def)
    have sub: "set (flocks (files (cl s))) \<subseteq> set (flocks fs)" by (auto simp: a(1) split: option.splits)
    show ?thesis
    proof (rule sys_ok_grow [OF ok fl(4)])
      show "fsys_inv (files (cl t))" using fsys_inv_Acquire [OF inv lock(1)] by (simp add: fl)
      show "next_fd (files (cl s)) \<le> next_fd (files (cl t))" using a(2) by (simp add: fl)
      show "set (flocks (files (cl s))) \<subseteq> set (flocks (files (cl t)))" using sub by (simp add: fl)
      show "n \<in> held s \<or> next_fd (files (cl s)) \<le> n \<and> n < next_fd (files (cl t))" if "n \<in> held t" for n
        using that a(3) by (auto simp: held_def fl)
      have "n \<notin> set_option fd" if "(q, path, n) \<in> readings s" for q path n
      proof -
        have "n \<in> held s" using that by (force simp: held_def)
        with held_old [OF ok] a(3) show ?thesis by fastforce
      qed
      then show "readers_ok D t" using rd sub unfolding readers_ok_def fl by blast
    qed
  next
    case (unlock fd)
    have fl: "readings t = readings s" "foreign t = foreign s - {fd}"
      by (simp_all add: unlock(2) set_files_def readings_def)
    show ?thesis
    proof (rule sys_ok_release [OF ok, of fd])
      show "fd \<in> held s" using unlock(1) by (simp add: held_def)
      show "(q', p, fd) \<notin> readings t" for q' p
        using rd unlock(1) unfolding readers_ok_def fl by blast
    qed (simp_all add: fl, simp_all add: unlock(2) set_files_def)
  next
    case (outside p content)
    have fl: "readings t = readings s" "foreign t = foreign s" "held t = held s"
      by (simp_all add: outside set_files_def readings_def held_def)
    have "incoming_ok D (held t) (cl t)"
      unfolding fl by (rule incoming_ok_files [OF inc]) (use inv in \<open>simp_all add: outside set_files_def\<close>)
    moreover have "readers_ok D t"
      by (rule readers_ok_keep [OF rd fl(1,2)]) (simp add: outside set_files_def)
    ultimately show ?thesis by (simp add: sys_ok_def)
  qed
qed

lemma sys_ok_started: "client_started b s \<Longrightarrow> sys_ok D s"
  by (auto simp: client_started_def sys_ok_def incoming_ok_def readers_ok_def held_def readings_def client_init_def
      fsys_inv_init)

interpretation client_sys: invariant_system "client_started b" "any_step D parse" "sys_ok D" for b D parse
  by unfold_locales (auto simp: any_step_def intro: sys_ok_started sys_ok_step)

text \<open>
  C4: no two transfers write the same file and nobody who locks reads a file that is being received: in
  every state the client can get to, the first file of each sender's queue is open and is the only one
  of all queues with its destination on the disk that is; the client holds the one lock there is on
  it, so no sending thread has it open, whatever offers, chunks, changes, calls, losses of the
  connection and programs outside there have been.
\<close>

theorem transfers_exclusive:
  assumes "reach (client_started b) (any_step D parse) s" and "m_incomingFiles (cl s) k = Some q"
  shows "\<exists>f r fd p. q = f # r \<and> stream f \<and> lock f = Some fd \<and> p = resolve D (destination f) \<and>
    {x \<in> set (flocks (files (cl s))). fst (snd x) = p} = {(fd, p, Exclusive)} \<and>
    (\<forall>k' f' r'. m_incomingFiles (cl s) k' = Some (f' # r') \<and> resolve D (destination f') = p \<longrightarrow> k' = k) \<and>
    (\<forall>j path n. busy s j = Some (Reading path n) \<longrightarrow> resolve D path \<noteq> p)"
proof -
  have ok: "sys_ok D s" by (rule client_sys.inv_reach [OF assms(1)])
  note inc = sys_okD(1) [OF ok]
  obtain f r where q: "q = f # r" using incoming_okD(3) [OF inc assms(2)] by (cases q) auto
  obtain fd where fd: "lock f = Some fd" "(fd, resolve D (destination f), Exclusive) \<in> set (flocks (files (cl s)))"
    using front_lock [OF inc assms(2)] q by auto
  let ?p = "resolve D (destination f)" and ?L = "set (flocks (files (cl s)))"
  have one: "x = (fd, ?p, Exclusive)" if "x \<in> ?L" "fst (snd x) = ?p" for x
    by (rule exclusive_only [OF incoming_okD(1) [OF inc] fd(2) that])
  have K: "\<forall>k' f' r'. m_incomingFiles (cl s) k' = Some (f' # r') \<and> resolve D (destination f') = ?p \<longrightarrow> k' = k"
  proof (intro allI impI, elim conjE)
    fix k' f' r'
    assume f': "m_incomingFiles (cl s) k' = Some (f' # r')" and p': "resolve D (destination f') = ?p"
    obtain fd' where fd': "lock f' = Some fd'" "(fd', ?p, Exclusive) \<in> ?L"
      using front_lock [OF inc f'] p' by auto
    then have "lock f' = lock f" using one [of "(fd', ?p, Exclusive)"] fd(1) by simp
    then show "k' = k" using incoming_okD(5) [OF inc assms(2) f'] q by simp
  qed
  have B: "\<forall>j path n. busy s j = Some (Reading path n) \<longrightarrow> resolve D path \<noteq> ?p"
  proof (intro allI impI notI)
    fix j path n
    assume "busy s j = Some (Reading path n)" "resolve D path = ?p"
    then have "(n, ?p, Shared) \<in> ?L"
      using sys_okD(2) [OF ok] unfolding readers_ok_def readings_def by force
    then show False using one [of "(n, ?p, Shared)"] by simp
  qed
  have S: "stream f" using incoming_okD(3) [OF inc assms(2)] q by (simp add: front_ok_def)
  have L: "{x \<in> ?L. fst (snd x) = ?p} = {(fd, ?p, Exclusive)}"
  proof (rule set_eqI)
    fix x
    show "x \<in> {x \<in> ?L. fst (snd x) = ?p} \<longleftrightarrow> x \<in> {(fd, ?p, Exclusive)}" using one [of x] fd(2) by auto
  qed
  show ?thesis
    by (intro exI conjI, rule q, rule S, rule fd(1), rule refl, rule L, rule K, rule B)
qed

section \<open>A transfer among the others\<close>

inductive client_trace :: "string \<Rightarrow> (string \<Rightarrow> json option) \<Rightarrow> client_sys \<Rightarrow> sys_event list \<Rightarrow> client_sys \<Rightarrow> bool"
  for D :: string and parse :: "string \<Rightarrow> json option" and s :: client_sys where
  ct_nil: "client_trace D parse s [] s"
| ct_snoc: "client_trace D parse s es t \<Longrightarrow> client_step D parse e t u \<Longrightarrow> client_trace D parse s (es @ [e]) u"

inductive_cases ct_snocE: "client_trace D parse s (es @ [e]) u"

text \<open>What the chunks from one sender carry.\<close>

fun chunk_of :: "peer_room_key \<Rightarrow> sys_event \<Rightarrow> bytes" where
  "chunk_of k (Chunk E j b) = (if j = k then b else [])"
| "chunk_of k e = []"

definition carried :: "peer_room_key \<Rightarrow> sys_event list \<Rightarrow> bytes" where
  "carried k es = concat (map (chunk_of k) es)"

lemma carried_simps [simp]: "carried k [] = []" "carried k (es @ [e]) = carried k es @ chunk_of k e"
  by (simp_all add: carried_def)

text \<open>The writes of sender \<open>k\<close> succeed, and no program outside writes the file.\<close>

fun undisturbed :: "peer_room_key \<Rightarrow> names \<Rightarrow> sys_event \<Rightarrow> bool" where
  "undisturbed k p (Chunk E j b) = (j = k \<longrightarrow> write_ok E)"
| "undisturbed k p (Outside q content) = (q \<noteq> p)"
| "undisturbed k p e = True"

definition progress :: "string \<Rightarrow> peer_room_key \<Rightarrow> IncomingFile \<Rightarrow> bytes \<Rightarrow> client_sys \<Rightarrow> bool" where
  "progress D k f a s \<longleftrightarrow> (\<exists>r. m_incomingFiles (cl s) k = Some (f\<lparr>written := length a\<rparr> # r)) \<and>
     disk (files (cl s)) (resolve D (destination f)) = Some a"

text \<open>A step that is not a chunk of its own leaves a transfer as it is.\<close>

lemma step_isolated:
  assumes ok: "sys_ok D s" and st: "client_step D parse e s t" and pr: "progress D k f a s"
    and u: "undisturbed k (resolve D (destination f)) e" and other: "\<And>E b. e \<noteq> Chunk E k b"
  shows "progress D k f a t"
proof -
  let ?p = "resolve D (destination f)" and ?f = "f\<lparr>written := length a\<rparr>"
  note inc = sys_okD(1) [OF ok]
  from pr obtain r where q: "m_incomingFiles (cl s) k = Some (?f # r)" and d: "disk (files (cl s)) ?p = Some a"
    by (auto simp: progress_def)
  obtain fd where fd: "lock ?f = Some fd" "(fd, ?p, Exclusive) \<in> set (flocks (files (cl s)))"
    using front_lock [OF inc q] by auto
  from st show ?thesis
  proof (cases rule: step_kinds)
    case same
    then show ?thesis using pr by (simp add: progress_def same_incoming_def)
  next
    case (offer E j len dest)
    let ?c = "enqueue_incoming E j (new_incoming len dest) (cl s)"
    obtain r' where "m_incomingFiles ?c k = Some (?f # r @ r')" using enqueue_behind [OF inc q] by blast
    moreover have "disk (files ?c) ?p = Some a" using enqueue_keeps(2) [OF inc fd(2)] d by simp
    ultimately show ?thesis using offer(2) by (auto simp: progress_def same_incoming_def)
  next
    case (chunk E j b)
    then have j: "k \<noteq> (fst j, snd j)" using other by auto
    have own: "lock (hd q') \<noteq> Some (fst (fd, ?p, Exclusive))" if "m_incomingFiles (cl s) (fst j, snd j) = Some q'" for q'
      using incoming_okD(5) [OF inc q that] j fd(1) by auto
    have "m_incomingFiles (cl t) k = Some (?f # r)"
      unfolding chunk(3) using chunk_keeps(3) [OF inc chunk(2) fd(2) own j] q by simp
    moreover have "disk (files (cl t)) (fst (snd (fd, ?p, Exclusive))) = Some a"
      unfolding chunk(3) by (rule chunk_keeps(2) [OF inc chunk(2) fd(2)]) (use own d in simp_all)
    ultimately show ?thesis by (auto simp: progress_def)
  next
    case (reading E j path content n fs)
    then show ?thesis using q d LockedIfstream_result(4) [OF reading(2)] by (simp add: progress_def set_files_def)
  next
    case (read j path n)
    then show ?thesis using q d by (simp add: progress_def)
  next
    case (lock op p m w got n fs)
    then show ?thesis using q d Acquire_result(5) [OF lock(1)] by (simp add: progress_def set_files_def)
  next
    case (unlock n)
    then show ?thesis using q d by (simp add: progress_def set_files_def)
  next
    case (outside p content)
    then show ?thesis using q d u by (simp add: progress_def set_files_def)
  qed
qed

text \<open>Its own chunks make it grow, as long as the file is not complete.\<close>

lemma step_chunk:
  assumes ok: "sys_ok D s" and st: "client_step D parse (Chunk E k b) s t" and pr: "progress D k f a s"
    and w: "write_ok E" and lt: "int (length a + length b) < expectedSize f"
  shows "progress D k f (a @ b) t"
proof -
  note inc = sys_okD(1) [OF ok]
  from pr obtain r where q: "m_incomingFiles (cl s) k = Some (f\<lparr>written := length a\<rparr> # r)"
      and d: "disk (files (cl s)) (resolve D (destination f)) = Some a"
    by (auto simp: progress_def)
  have "stream f" using incoming_okD(3) [OF inc q] by (simp add: front_ok_def)
  moreover have t: "cl t = OnIncomingChunk E (fst k) (snd k) b (cl s)" "cwd E = D"
    using st by (auto elim!: client_step.cases simp: on_channel_message_def)
  ultimately obtain x where "cl t = (chunk_result E k (f\<lparr>written := length a\<rparr>) r b (cl s))\<lparr>m_clientState := x\<rparr>"
    using chunk_eq [of "cl s" "fst k" "snd k" "f\<lparr>written := length a\<rparr>" r E b] q by auto
  then show ?thesis
    using d w lt t(2) by (simp add: progress_def chunk_result_def put_queue_def Let_def)
qed

lemma trace_progress:
  assumes "client_trace D parse s es t" and "sys_ok D s" and "progress D k f a s"
    and "\<forall>e \<in> set es. undisturbed k (resolve D (destination f)) e"
    and "int (length a + length (carried k es)) < expectedSize f"
  shows "sys_ok D t \<and> progress D k f (a @ carried k es) t"
  using assms
proof (induction rule: client_trace.induct)
  case ct_nil
  then show ?case by simp
next
  case (ct_snoc es t e u)
  then have ok: "sys_ok D t" and pr: "progress D k f (a @ carried k es) t"
      and e: "undisturbed k (resolve D (destination f)) e"
    by simp_all
  show ?case
  proof (cases "\<exists>E b. e = Chunk E k b")
    case True
    then obtain E b where eb: "e = Chunk E k b" by blast
    then show ?thesis
      using sys_ok_step [OF ok ct_snoc.hyps(2)] step_chunk [OF ok ct_snoc.hyps(2) [unfolded eb] pr] ct_snoc.prems(4) e
      by simp
  next
    case False
    then have "chunk_of k e = []" by (cases e) auto
    with False show ?thesis
      using sys_ok_step [OF ok ct_snoc.hyps(2)] step_isolated [OF ok ct_snoc.hyps(2) pr e] by simp
  qed
qed

lemma StartNextIncoming_elsewhere:
  assumes "StartNextIncoming E q fs rc = (q', fs', rc')" and "fsys_inv fs" and "\<forall>g \<in> set q. waiting g"
    and "\<forall>g \<in> set q. resolve (cwd E) (destination g) \<noteq> p"
  shows "disk fs' p = disk fs p \<and> (\<forall>x \<in> set (flocks fs'). fst (snd x) = p \<longrightarrow> x \<in> set (flocks fs))"
  using assms
proof (induction q arbitrary: fs rc)
  case Nil
  then show ?case by simp
next
  case (Cons f q)
  let ?p = "resolve (cwd E) (destination f)"
  have f: "lock f = None" "\<not> stream f" "?p \<noteq> p" using Cons.prems(3,4) by (simp_all add: waiting_def)
  obtain got fd fs1 where a: "Acquire (openable E) ?p Exclusive False None fs = Some (got, fd, fs1)"
    by (cases "Acquire (openable E) ?p Exclusive False None fs") (auto simp: Acquire_def Let_def split: if_splits)
  note r = Acquire_result [OF a] and inv1 = fsys_inv_Acquire [OF Cons.prems(2) a]
  have d1: "disk fs1 p = disk fs p"
    by (rule disk_Acquire [OF a]) (use f(3) in simp)
  have l1: "\<forall>x \<in> set (flocks fs1). fst (snd x) = p \<longrightarrow> x \<in> set (flocks fs)"
    using r(1) f(3) by (auto split: option.splits)
  have IH: "disk fs' p = disk g p \<and> (\<forall>x \<in> set (flocks fs'). fst (snd x) = p \<longrightarrow> x \<in> set (flocks g))"
    if "StartNextIncoming E q g rc1 = (q', fs', rc')" "fsys_inv g" for g rc1
    using Cons.IH [OF that] Cons.prems(3,4) by simp
  let ?fs2 = "fs1\<lparr>disk := (disk fs1)(?p \<mapsto> [])\<rparr>"
  have rel: "set (flocks (snd (Release fd g))) \<subseteq> set (flocks g)" for g
    by (auto simp: flocks_Release split: option.splits)
  have "(fs' = ?fs2 \<and> disk ?fs2 p = disk fs p) \<or>
      (\<exists>g rc1. StartNextIncoming E q g rc1 = (q', fs', rc') \<and> fsys_inv g \<and> disk g p = disk fs1 p \<and> set (flocks g) \<subseteq> set (flocks fs1))"
  proof (cases "got \<and> openable E ?p")
    case False
    then show ?thesis
      using Cons.prems(1) f a rel [of fs1] inv1 fsys_inv_Release [OF inv1]
      by (cases got) (auto simp: StartNextIncoming.simps(2) Let_def)
  next
    case True
    then show ?thesis
      using Cons.prems(1) f a rel [of ?fs2] inv1 d1
      by (cases "expectedSize f = 0") (auto simp: StartNextIncoming.simps(2) Let_def fsys_inv_Release intro!: exI)
  qed
  then show ?case
  proof (elim disjE exE conjE)
    fix g rc1
    assume "StartNextIncoming E q g rc1 = (q', fs', rc')" "fsys_inv g" "disk g p = disk fs1 p" "set (flocks g) \<subseteq> set (flocks fs1)"
    then show ?thesis using IH [of g rc1] d1 l1 by auto
  qed (use l1 in simp)
qed

text \<open>The last chunk of the file at the front of a queue.\<close>

lemma last_chunk:
  assumes inc: "incoming_ok D H c" and q: "m_incomingFiles c k = Some (f # r)" and p: "p = resolve D (destination f)"
    and d: "written f = length a" "disk (files c) p = Some a" and E: "cwd E = D" "write_ok E"
    and len: "int (length a + length bs) = expectedSize f" and r: "\<forall>g \<in> set r. resolve D (destination g) \<noteq> p"
  shows "let u = OnIncomingChunk E (fst k) (snd k) bs c in
    disk (files u) p = Some (a @ bs) \<and> normal_path E (destination f) \<in> m_receivedPaths u \<and>
    (\<forall>x \<in> set (flocks (files u)). fst (snd x) \<noteq> p) \<and> m_clientState u = CLIENT_RUN"
proof -
  let ?u = "OnIncomingChunk E (fst k) (snd k) bs c"
  have fr: "stream f" "\<forall>g \<in> set r. waiting g" using incoming_okD(3) [OF inc q] by (simp_all add: front_ok_def)
  obtain fd where fd: "lock f = Some fd" "(fd, p, Exclusive) \<in> set (flocks (files c))"
    using front_lock [OF inc q] p by auto
  define fs where "fs = (files c)\<lparr>disk := (disk (files c))(p \<mapsto> a @ bs)\<rparr>"
  let ?c1 = "c\<lparr>files := snd (Release (Some fd) fs), m_receivedPaths := insert (normal_path E (destination f)) (m_receivedPaths c)\<rparr>"
  obtain x where x: "?u = (start_next E k r ?c1)\<lparr>m_clientState := x\<rparr>"
    using chunk_eq [of c "fst k" "snd k" f r E bs] q fr(1) d len p E fd(1)
    by (auto simp: chunk_result_def Let_def fs_def)
  have inv1: "fsys_inv (files ?c1)" using incoming_okD(1) [OF inc] by (simp add: fs_def fsys_inv_Release)
  obtain q' fs' rc' where s: "StartNextIncoming E r (files ?c1) (m_receivedPaths ?c1) = (q', fs', rc')"
    by (cases "StartNextIncoming E r (files ?c1) (m_receivedPaths ?c1)")
  have "\<forall>g \<in> set r. resolve (cwd E) (destination g) \<noteq> p" using r E(1) by simp
  from StartNextIncoming_elsewhere [OF s inv1 fr(2) this]
  have du: "disk fs' p = Some (a @ bs)" and l: "\<forall>y \<in> set (flocks fs'). fst (snd y) = p \<longrightarrow> y \<in> set (flocks (files ?c1))"
    by (simp_all add: fs_def)
  have fu: "files ?u = fs'" unfolding x using start_next_fields(2) [OF s, of k] by simp
  have fl1: "flocks (files ?c1) = filter (\<lambda>x. fst x \<noteq> fd) (flocks (files c))" by (simp add: flocks_Release fs_def)
  have "normal_path E (destination f) \<in> m_receivedPaths ?u"
    using subsetD [OF start_next_received, of "normal_path E (destination f)" ?c1 E k r] by (simp add: x)
  moreover have "fst (snd y) \<noteq> p" if "y \<in> set (flocks (files ?u))" for y
  proof
    assume y: "fst (snd y) = p"
    then have "y \<in> set (flocks (files ?c1))" using l that unfolding fu by blast
    then have "y \<in> set (flocks (files c))" "fst y \<noteq> fd" unfolding fl1 by simp_all
    then show False using exclusive_only [OF incoming_okD(1) [OF inc] fd(2) _ y] by simp
  qed
  moreover have "m_clientState ?u = CLIENT_RUN"
    using q fr(1) len d(1) E(2) by (simp add: OnIncomingChunk_def Let_def)
  ultimately show ?thesis using du unfolding Let_def fu by blast
qed

text \<open>
  C5: a file arrives whole in the middle of everything else: from any state the client can get to in
  which the file \<open>f\<close> of sender \<open>k\<close> is being written, take any run of the client in which other senders
  offer and send, files are sent, requests and changes come in, the connection is lost and comes back,
  and any locks are taken: when the last byte \<open>k\<close> owes has come, the file holds what it held and then
  exactly what \<open>k\<close>'s own chunks carried, in order; it is recorded as received, its lock is given back
  and the client is running. Needed are only that its writes succeed, that no program outside writes
  that file, and that \<open>k\<close> has not queued another file for the same place.
\<close>

theorem transfer_undisturbed:
  assumes "reach (client_started b) (any_step D parse) s"
    and "m_incomingFiles (cl s) k = Some (f # r)" and "p = resolve D (destination f)"
    and "written f = length a" and "disk (files (cl s)) p = Some a"
    and "client_trace D parse s es t" and "client_step D parse (Chunk E k bs) t u"
    and "\<forall>e \<in> set es. undisturbed k p e" and "write_ok E" and "bs \<noteq> []"
    and "int (length a + length (carried k es) + length bs) = expectedSize f"
    and "\<forall>f' r'. m_incomingFiles (cl t) k = Some (f' # r') \<longrightarrow> (\<forall>g \<in> set r'. resolve D (destination g) \<noteq> p)"
  shows "disk (files (cl u)) p = Some (a @ carried k es @ bs) \<and> normal_path E (destination f) \<in> m_receivedPaths (cl u) \<and>
    (\<forall>x \<in> set (flocks (files (cl u))). fst (snd x) \<noteq> p) \<and> m_clientState (cl u) = CLIENT_RUN"
proof -
  have "progress D k f a s" using assms(2-5) by (auto simp: progress_def)
  moreover have "\<forall>e \<in> set es. undisturbed k (resolve D (destination f)) e" using assms(3,8) by simp
  moreover have "int (length a + length (carried k es)) < expectedSize f" using assms(10,11) by (cases bs) simp_all
  ultimately have ok: "sys_ok D t" and pr: "progress D k f (a @ carried k es) t"
    using trace_progress [OF assms(6) client_sys.inv_reach [OF assms(1)]] by blast+
  let ?a = "a @ carried k es" and ?f = "f\<lparr>written := length (a @ carried k es)\<rparr>"
  from pr obtain r' where q: "m_incomingFiles (cl t) k = Some (?f # r')" and d: "disk (files (cl t)) p = Some ?a"
    using assms(3) by (auto simp: progress_def)
  have u: "cl u = OnIncomingChunk E (fst k) (snd k) bs (cl t)" "cwd E = D"
    using assms(7) by (auto elim!: client_step.cases simp: on_channel_message_def)
  have "p = resolve D (destination ?f)" "written ?f = length ?a" "int (length ?a + length bs) = expectedSize ?f"
    using assms(3,11) by simp_all
  moreover have "\<forall>g \<in> set r'. resolve D (destination g) \<noteq> p" using assms(12) q by blast
  ultimately have "let v = cl u in disk (files v) p = Some (?a @ bs) \<and> normal_path E (destination ?f) \<in> m_receivedPaths v \<and>
      (\<forall>x \<in> set (flocks (files v)). fst (snd x) \<noteq> p) \<and> m_clientState v = CLIENT_RUN"
    unfolding u(1) by (rule last_chunk [OF sys_okD(1) [OF ok] q _ _ d u(2) assms(9)])
  then show ?thesis by (simp add: Let_def)
qed

text \<open>
  C36: an interrupted transfer swallows the next file: losing the connection, or the channel, leaves the
  file being received at the front of its sender's queue. When the sender comes back and offers a file
  again, the offer is queued behind it and accepted, and the data of the new file is appended to the old
  one, while the new file is never opened; the old file is even reported as complete when enough has come.
\<close>

theorem interrupted_transfer_swallows_next:
  assumes "m_incomingFiles st (peer, room) = Some (f # r)" and "stream f" and "written f = length a"
    and "disk (files st) (resolve (cwd E) (destination f)) = Some a"
    and "OnFileOffer E doc (OnMessageClose st) = Some t" and "file_offer_fields doc = Some (peer, room, fl, name, len)"
    and "optional_setting st ''directory'' = Some dir" and "destination_path dir name = Some dest"
    and "disk (files st) (resolve (cwd E) dest) = None" and "dirs_ok E (parent_path dest)"
    and "write_ok E" and "int (length a + length bs) < expectedSize f" and "resolve (cwd E) dest \<noteq> resolve (cwd E) (destination f)"
  shows "let u = OnIncomingChunk E peer room bs t in
    m_incomingFiles u (peer, room) = Some (f\<lparr>written := length (a @ bs)\<rparr> # r @ [new_incoming len dest]) \<and>
    disk (files u) (resolve (cwd E) (destination f)) = Some (a @ bs) \<and> disk (files u) (resolve (cwd E) dest) = None"
proof -
  let ?st = "OnMessageClose st"
  have c: "same_incoming st ?st" by simp
  have "m_properties ?st = m_properties st"
    by (simp add: OnMessageClose_def WakeFileTransferWorkers_def ClearRooms_def)
  from optional_setting_cong [OF this] have dir: "optional_setting ?st ''directory'' = Some dir" using assms(7) by simp
  have "\<not> already_present E fl dest ?st"
    using assms(9) c by (simp add: same_incoming_def already_present_def file_bytes_def get_crc_def Let_def split: option.splits)
  then have "SendFileAccept E doc (enqueue_incoming E (peer, room) (new_incoming len dest) ?st) = Some t"
    using assms(5,6,8,10) dir unfolding OnFileOffer_def by simp
  then have "same_incoming (enqueue_incoming E (peer, room) (new_incoming len dest) ?st) t"
    by (auto simp: SendFileAccept_def split: option.splits)
  then have t: "m_incomingFiles t (peer, room) = Some (f # r @ [new_incoming len dest])" "files t = files st"
    using assms(1) c by (simp_all add: same_incoming_def enqueue_incoming_def put_queue_def)
  then show ?thesis
    using assms(2-4,9,11-13) by (simp add: OnIncomingChunk_def Let_def put_queue_def)
qed

section \<open>Witnesses\<close>

definition demo_bag :: PropertyBag where
  "demo_bag = [''directory'' \<mapsto> VString ''in'', ''name'' \<mapsto> VString ''me'']"

definition demo_started :: client_sys where
  "demo_started = \<lparr>cl = client_init demo_bag, worker = AtDone, made = {}, busy = Map.empty, foreign = {},
     asked = {f. \<exists>specs. initial_specs (client_init demo_bag) = Some (Some specs) \<and> f \<in> set specs}\<rparr>"

definition demo_front :: IncomingFile where
  "demo_front = \<lparr>lock = Some 0, stream = True, written = 0, expectedSize = 3, destination = ''in/a''\<rparr>"

abbreviation demo_parse :: "string \<Rightarrow> json option" where
  "demo_parse \<equiv> \<lambda>_. Some (JObj (fst (demo_offer ''a'' ''abc'')))"

definition demo_offered :: client where
  "demo_offered = (client_init demo_bag)\<lparr>m_incomingFiles := [(''bob'', ''r'') \<mapsto> [demo_front]],
     files := \<lparr>disk = [[''w'', ''in'', ''a''] \<mapsto> []], flocks = [(0, [''w'', ''in'', ''a''], Exclusive)], next_fd = 1\<rparr>,
     sent := [''m'']\<rparr>"

lemma demo_offered_message: "client_message demo_env demo_parse ''x'' (client_init demo_bag) = Some demo_offered"
proof -
  have t: "string_at (fst (demo_offer ''a'' ''abc'')) ''type'' = Some ''file_offer''"
    by (simp add: demo_offer_def string_at_def get_string_def c_str_def)
  have r: "route ''file_offer'' = Some HFileOffer" by simp
  have p: "resolve ''/w'' ''in/a'' = [''w'', ''in'', ''a'']" by (simp add: resolve_def demo_transfer_defs)
  have s: "optional_setting (client_init demo_bag) ''directory'' = Some ''in''"
    by (simp add: optional_setting_def setting_def client_init_def demo_bag_def Contains_def Get_string_def)
  have f: "file_offer_fields (fst (demo_offer ''a'' ''abc'')) =
      Some (''bob'', ''r'', [(''name'', JStr ''a''), (''size'', JInt 3), (''mimeType'', JStr ''t'')], ''a'', 3)"
    by (simp add: demo_offer_def demo_transfer_defs)
  have d: "destination_path ''in'' ''a'' = Some ''in/a''" by (simp add: demo_transfer_defs)
  have "StartNextIncoming demo_env [new_incoming 3 ''in/a''] fsys_init {} = ([demo_front],
      \<lparr>disk = [[''w'', ''in'', ''a''] \<mapsto> []], flocks = [(0, [''w'', ''in'', ''a''], Exclusive)], next_fd = 1\<rparr>, {})"
    by (simp add: StartNextIncoming.simps(2) new_incoming_def demo_env_def p Acquire_def Release_def fsys_init_def
        lock_conflict_def demo_front_def Let_def)
  then have e: "enqueue_incoming demo_env (''bob'', ''r'') (new_incoming 3 ''in/a'') (client_init demo_bag) = demo_offered\<lparr>sent := []\<rparr>"
    by (simp add: enqueue_incoming_def start_next_def client_init_def put_queue_def demo_offered_def)
  have dk: "dirs_ok demo_env x" for x by (simp add: demo_env_def)
  have a: "SendFileAccept demo_env (fst (demo_offer ''a'' ''abc'')) (demo_offered\<lparr>sent := []\<rparr>) = Some demo_offered"
    by (simp add: SendFileAccept_def retype_def demo_offer_def string_at_def get_string_def c_str_def demo_env_def
        SendMessage_def demo_offered_def)
  have "OnFileOffer demo_env (fst (demo_offer ''a'' ''abc'')) (client_init demo_bag) = Some demo_offered"
    using a dk by (simp add: OnFileOffer_def f s d e already_present_def uint64_at_def)
  then show ?thesis by (simp add: client_message_def MessageRouter_def t r)
qed

lemma demo_receiving_reached: "reach (client_started demo_bag) (any_step ''/w'' demo_parse) (set_cl demo_offered demo_started)"
proof (rule reach_step [OF reach_init])
  show "client_started demo_bag demo_started" by (simp add: client_started_def demo_started_def)
  have "cwd demo_env = ''/w''" by (simp add: demo_env_def)
  from cs_message [OF this, of demo_parse "''x''" demo_started demo_offered] demo_offered_message
  show "any_step ''/w'' demo_parse demo_started (set_cl demo_offered demo_started)"
    by (auto simp: any_step_def demo_started_def)
qed

lemma demo_front_queue:
  "m_incomingFiles (cl (set_cl demo_offered demo_started)) (''bob'', ''r'') = Some [demo_front]"
  "resolve ''/w'' (destination demo_front) = [''w'', ''in'', ''a'']"
  by (simp_all add: demo_offered_def demo_front_def resolve_def demo_transfer_defs)

theorem transfers_exclusive_witness:
  "{x \<in> set (flocks (files demo_offered)). fst (snd x) = [''w'', ''in'', ''a'']} = {(0, [''w'', ''in'', ''a''], Exclusive)}"
  using transfers_exclusive [OF demo_receiving_reached demo_front_queue(1)] demo_front_queue(2)
  by (simp add: demo_front_def)

text \<open>In the run of the witness the connection is lost between the two chunks.\<close>

theorem transfer_undisturbed_witness:
  "\<exists>t u. client_trace ''/w'' demo_parse (set_cl demo_offered demo_started)
      [Chunk demo_env (''bob'', ''r'') ''ab'', Transport] t \<and>
    client_step ''/w'' demo_parse (Chunk demo_env (''bob'', ''r'') ''c'') t u \<and>
    disk (files (cl u)) [''w'', ''in'', ''a''] = Some ''abc''"
proof -
  let ?k = "(''bob'', ''r'')" and ?s = "set_cl demo_offered demo_started"
  let ?s1 = "set_cl (on_channel_message demo_env ?k (Inr ''ab'') (cl ?s)) ?s"
  let ?t = "set_cl (OnMessageClose (cl ?s1)) ?s1"
  let ?u = "set_cl (on_channel_message demo_env ?k (Inr ''c'') (cl ?t)) ?t"
  have w: "cwd demo_env = ''/w''" by (simp add: demo_env_def)
  have tr: "client_trace ''/w'' demo_parse ?s ([] @ [Chunk demo_env ?k ''ab''] @ [Transport]) ?t"
    unfolding append_assoc [symmetric] by (rule ct_snoc [OF ct_snoc [OF ct_nil cs_chunk [OF w]] cs_close])
  have st: "client_step ''/w'' demo_parse (Chunk demo_env ?k ''c'') ?t ?u" by (rule cs_chunk [OF w])
  have q: "m_incomingFiles (cl ?t) ?k = Some [demo_front\<lparr>written := 2\<rparr>]"
    using demo_front_queue(2)
    by (simp add: OnMessageClose_def WakeFileTransferWorkers_def ClearRooms_def on_channel_message_def OnIncomingChunk_def
        demo_offered_def demo_front_def demo_env_def put_queue_def Let_def)
  have "disk (files (cl ?u)) [''w'', ''in'', ''a''] = Some ([] @ carried ?k ([] @ [Chunk demo_env ?k ''ab''] @ [Transport]) @ ''c'')"
    by (rule transfer_undisturbed [OF demo_receiving_reached demo_front_queue(1) demo_front_queue(2) [symmetric] _ _ tr st,
        THEN conjunct1]) (use q in \<open>simp_all add: demo_front_def demo_offered_def demo_env_def carried_def\<close>)
  then show ?thesis using tr st by (intro exI [of _ ?t] exI [of _ ?u]) (simp add: carried_def)
qed

definition demo_interrupted :: client where
  "demo_interrupted = demo_offered\<lparr>m_incomingFiles := [(''bob'', ''r'') \<mapsto> [demo_front\<lparr>written := 1\<rparr>]],
     files := (files demo_offered)\<lparr>disk := [[''w'', ''in'', ''a''] \<mapsto> ''a'']\<rparr>\<rparr>"

theorem interrupted_transfer_swallows_next_witness:
  "\<exists>t. OnFileOffer demo_env (fst (demo_offer ''b'' ''xyz'')) (OnMessageClose demo_interrupted) = Some t \<and>
     disk (files (OnIncomingChunk demo_env ''bob'' ''r'' ''x'' t)) [''w'', ''in'', ''a''] = Some ''ax''"
proof -
  let ?doc = "fst (demo_offer ''b'' ''xyz'')" and ?f = "[(''name'', JStr ''b''), (''size'', JInt 3), (''mimeType'', JStr ''t'')]"
  let ?front = "demo_front\<lparr>written := 1\<rparr>"
  have f: "file_offer_fields ?doc = Some (''bob'', ''r'', ?f, ''b'', 3)" by (simp add: demo_offer_def demo_transfer_defs)
  have q: "m_incomingFiles demo_interrupted (''bob'', ''r'') = Some [?front]" by (simp add: demo_interrupted_def)
  have s: "optional_setting demo_interrupted ''directory'' = Some ''in''"
    by (simp add: optional_setting_def setting_def demo_interrupted_def demo_offered_def client_init_def demo_bag_def
        Contains_def Get_string_def)
  have d: "destination_path ''in'' ''b'' = Some ''in/b''" by (simp add: demo_transfer_defs)
  have p: "resolve (cwd demo_env) (destination ?front) = [''w'', ''in'', ''a'']" "resolve (cwd demo_env) ''in/b'' = [''w'', ''in'', ''b'']"
    by (simp_all add: demo_env_def demo_front_def resolve_def demo_transfer_defs)
  have "m_properties (OnMessageClose demo_interrupted) = m_properties demo_interrupted"
    by (simp add: OnMessageClose_def WakeFileTransferWorkers_def ClearRooms_def)
  from optional_setting_cong [OF this] have "optional_setting (OnMessageClose demo_interrupted) ''directory'' = Some ''in''"
    using s by simp
  moreover have "SendFileAccept demo_env ?doc c \<noteq> None" for c
    by (simp add: SendFileAccept_def retype_def demo_offer_def string_at_def get_string_def c_str_def)
  moreover have "dirs_ok demo_env x" for x by (simp add: demo_env_def)
  ultimately have "OnFileOffer demo_env ?doc (OnMessageClose demo_interrupted) \<noteq> None"
    by (simp add: OnFileOffer_def f d already_present_def uint64_at_def)
  then obtain t where t: "OnFileOffer demo_env ?doc (OnMessageClose demo_interrupted) = Some t" by blast
  have "disk (files (OnIncomingChunk demo_env ''bob'' ''r'' ''x'' t)) (resolve (cwd demo_env) (destination ?front)) = Some (''a'' @ ''x'')"
    using interrupted_transfer_swallows_next [OF q _ _ _ t f s d, of "''a''" "''x''"] p
    by (simp add: Let_def demo_front_def demo_interrupted_def demo_env_def)
  then show ?thesis using t p by auto
qed

end
