(* ===== verification/File_Routing.thy ===== *)
theory File_Routing
  imports Client_System
begin

text \<open>
  Where files go. In the system of \<open>Client_System\<close> the invariant \<open>route_ok\<close> follows a request from the
  command line or \<open>QueueFile\<close> through the worker, the pending offers and the queue of a channel to the
  thread that sends the file: at every place it is still a request for that peer and room. It rests on
  channels having queues of their own, which comes from how \<open>MakeDataChannel\<close> allocates them.
\<close>

definition request_of :: "peer_room_key \<Rightarrow> string \<Rightarrow> FileSpec" where
  "request_of k path = \<lparr>fs_peer = fst k, fs_room = snd k, fs_path = path\<rparr>"

lemma request_of_spec [simp]: "request_of (fs_peer f, fs_room f) (fs_path f) = f"
  by (simp add: request_of_def)

definition owners_ok :: "(peer_room_key \<times> nat) set \<Rightarrow> client \<Rightarrow> bool" where
  "owners_ok M c \<longleftrightarrow> channels_of c \<subseteq> M \<and> (\<forall>(k, q) \<in> M. q < next_object c) \<and> inj_on snd M"

definition route_ok :: "PropertyBag \<Rightarrow> FileSpec set \<Rightarrow> (peer_room_key \<times> nat) set \<Rightarrow> client \<Rightarrow> bool" where
  "route_ok b A M c \<longleftrightarrow> m_properties c = b \<and> owners_ok M c \<and>
     (\<forall>(k, q) \<in> M. \<forall>path \<in> set (m_Items (queues c q)). request_of k path \<in> A) \<and>
     (\<forall>u offer. m_pendingOffers c u = Some offer \<longrightarrow> request_of (key offer) (offer_path offer) \<in> A) \<and>
     set (m_queuedFiles c) \<subseteq> A"

lemma route_okD:
  assumes "route_ok b A M c"
  shows "m_properties c = b" "owners_ok M c" "(k, q) \<in> M \<Longrightarrow> path \<in> set (m_Items (queues c q)) \<Longrightarrow> request_of k path \<in> A"
    "m_pendingOffers c u = Some offer \<Longrightarrow> request_of (key offer) (offer_path offer) \<in> A" "set (m_queuedFiles c) \<subseteq> A"
  using assms unfolding route_ok_def by blast+

lemma route_ok_more: "route_ok b A M c \<Longrightarrow> A \<subseteq> B \<Longrightarrow> route_ok b B M c"
  unfolding route_ok_def by blast

section \<open>What leaves the routing alone\<close>

definition same_routing :: "client \<Rightarrow> client \<Rightarrow> bool" where
  "same_routing c d \<longleftrightarrow> m_properties d = m_properties c \<and> m_dataChannels d = m_dataChannels c \<and> queues d = queues c \<and>
     m_pendingOffers d = m_pendingOffers c \<and> m_queuedFiles d = m_queuedFiles c \<and> next_object d = next_object c"

lemma same_routing_refl [simp]: "same_routing c c"
  by (simp add: same_routing_def)

lemma same_routing_trans: "same_routing c d \<Longrightarrow> same_routing d e \<Longrightarrow> same_routing c e"
  by (simp add: same_routing_def)

lemma route_ok_same: "route_ok b A M c \<Longrightarrow> same_routing c d \<Longrightarrow> route_ok b A M d"
  by (simp add: route_ok_def owners_ok_def same_routing_def channels_of_def)

lemma same_routing_simps [simp]:
  "same_routing c (snd (SendMessage E msg c))" "same_routing c (rtc p a c)" "same_routing c (set_state x c)"
  "same_routing c (release_wait c)" "same_routing c (UpdatePeers room ps c)" "same_routing c (snd (Leave peer room c))"
  "same_routing c (OnMessageOpen peer c)" "same_routing c (Start_session c)" "same_routing c (Stop_session c)"
  "same_routing c (on_data_channel k ch c)" "same_routing c (on_local_candidate E peer room cand mid c)"
  "same_routing c (on_local_description E peer room typ sdp c)" "same_routing c (SendFileComplete E room peer c)"
  "same_routing c (put_queue k q c)" "same_routing c (start_next E k q c)" "same_routing c (enqueue_incoming E k f c)"
  "same_routing c (c\<lparr>files := fs\<rparr>)" "same_routing c (c\<lparr>m_clientState := x\<rparr>)"
  by (auto simp: same_routing_def SendMessage_def rtc_def set_state_def release_wait_def UpdatePeers_def Leave_def
      OnMessageOpen_def WakeFileTransferWorkers_def Start_session_def Stop_session_def on_data_channel_def
      on_local_candidate_def on_local_description_def SendFileComplete_def put_queue_def start_next_def
      enqueue_incoming_def Let_def split: option.splits prod.splits)

lemma same_routing_results:
  "SendMessage E msg c = (b, d) \<Longrightarrow> same_routing c d"
  "TakeReceivedFile E path c = (b, d) \<Longrightarrow> same_routing c d"
  by (auto simp: same_routing_def SendMessage_def TakeReceivedFile_def split: if_splits)

lemma same_routing_start: "same_routing c d \<Longrightarrow> same_routing c (start_next E k q d)"
  using same_routing_simps(15) same_routing_trans by blast

lemma same_routing_if: "same_routing c d \<Longrightarrow> same_routing c e \<Longrightarrow> same_routing c (if P then d else e)"
  by simp

lemma same_routing_chunk: "same_routing c (OnIncomingChunk E peer room b c)"
proof (cases "\<exists>f r. m_incomingFiles c (peer, room) = Some (f # r) \<and> stream f")
  case True
  then obtain f r where q: "m_incomingFiles c (peer, room) = Some (f # r)" "stream f" by blast
  have "same_routing c (chunk_result E (peer, room) f r b c)"
    unfolding chunk_result_def Let_def
    by (intro same_routing_if same_routing_start) (simp_all add: same_routing_def put_queue_def)
  with chunk_eq [OF q, of E b] show ?thesis by (auto simp: same_routing_def)
next
  case False
  then have "OnIncomingChunk E peer room b c = c"
    by (auto simp: OnIncomingChunk_def Let_def split: option.splits list.splits)
  then show ?thesis by simp
qed

lemma same_routing_OnFileOffer: "OnFileOffer E doc c = Some d \<Longrightarrow> same_routing c d"
proof -
  assume o: "OnFileOffer E doc c = Some d"
  have reject: "SendFileReject E doc t = Some u \<Longrightarrow> same_routing t u" for t u
    by (auto simp: SendFileReject_def split: option.splits)
  have accept: "SendFileAccept E doc (enqueue_incoming E k f c) = Some u \<Longrightarrow> same_routing c u" for k f u
    by (auto simp: SendFileAccept_def split: option.splits
        intro: same_routing_trans [OF same_routing_simps(16) same_routing_simps(1)])
  show ?thesis
  proof (cases "file_offer_fields doc")
    case None
    then show ?thesis using o by (simp add: OnFileOffer_def)
  next
    case (Some fs)
    obtain peer room f name len where fs: "fs = (peer, room, f, name, len)" by (cases fs)
    then obtain dir where dir: "(case destination_path dir name of None \<Rightarrow> Some c
        | Some dest \<Rightarrow> if parent_path dest \<noteq> [] \<and> \<not> dirs_ok E (parent_path dest) then Some c
            else if already_present E f dest c then SendFileReject E doc c
            else SendFileAccept E doc (enqueue_incoming E (peer, room) (new_incoming len dest) c)) = Some d"
      using o Some by (auto simp: OnFileOffer_def bind_eq_Some_conv)
    show ?thesis
    proof (cases "destination_path dir name")
      case None
      then show ?thesis using dir by simp
    next
      case (Some dest)
      then show ?thesis using dir reject accept by (simp split: if_splits)
    qed
  qed
qed

lemma same_routing_JoinRooms:
  "(JoinRooms E rooms c = JoinReturns b d \<longrightarrow> same_routing c d) \<and> (JoinRooms E rooms c = JoinWaits rs d \<longrightarrow> same_routing c d)"
proof (induction rooms)
  case (Cons room rooms)
  let ?s = "set_state CLIENT_WAITING_FOR_JOIN (c\<lparr>m_room := room\<rparr>)"
  obtain ok t where j: "JoinRoom E room ?s = (ok, t)" by (cases "JoinRoom E room ?s")
  have "same_routing ?s t" using j same_routing_results(1) by (simp add: JoinRoom_def)
  then have "same_routing c t" "same_routing c (set_state CLIENT_EXIT t)"
    by (simp_all add: same_routing_def set_state_def)
  with Cons j show ?case
    by (cases "m_clientState c = CLIENT_EXIT"; cases "room = []"; cases "InRoom room c"; cases "the (InRoom room c)"; cases ok) auto
qed simp

section \<open>Requests along the worker\<close>

fun join_specs :: "after_join \<Rightarrow> FileSpec set" where
  "join_specs (ThenConnect peer room specs) = set specs"
| "join_specs (ThenOffer spec specs) = insert spec (set specs)"

fun pc_specs :: "worker_pc \<Rightarrow> FileSpec set" where
  "pc_specs (AtJoin rooms k) = join_specs k"
| "pc_specs (AtJoinWait rooms k) = join_specs k"
| "pc_specs (AtConnect peer room specs) = set specs"
| "pc_specs (AtConnectMake peer room specs) = set specs"
| "pc_specs (AtOffer specs) = set specs"
| "pc_specs (AtOfferWait spec specs) = insert spec (set specs)"
| "pc_specs (AtOfferMake spec specs) = insert spec (set specs)"
| "pc_specs (AtOfferPrepare spec specs) = insert spec (set specs)"
| "pc_specs (AtOfferCommit spec specs fdsc) = insert spec (set specs)"
| "pc_specs (AtOfferCheck ready specs) = set specs"
| "pc_specs p = {}"

lemma join_step_specs:
  assumes "join_step E rooms k c = Next p d"
  shows "same_routing c d \<and> pc_specs p \<subseteq> join_specs k"
proof -
  have "pc_specs (joined ok k) \<subseteq> join_specs k" for ok by (cases ok; cases k) auto
  with assms same_routing_JoinRooms [of E rooms c] show ?thesis
    by (cases "JoinRooms E rooms c") (auto simp: join_step_def)
qed

text \<open>A new channel has a queue of its own, empty.\<close>

definition channel_made :: "peer_room_key \<Rightarrow> client \<Rightarrow> client \<Rightarrow> bool" where
  "channel_made k c d \<longleftrightarrow> m_properties d = m_properties c \<and> m_pendingOffers d = m_pendingOffers c \<and>
     m_queuedFiles d = m_queuedFiles c \<and> next_object c \<le> next_object d \<and> (\<forall>q < next_object c. queues d q = queues c q) \<and>
     (\<forall>(j, q) \<in> channels_of d. (j, q) \<in> channels_of c \<or>
        j = k \<and> next_object c \<le> q \<and> q < next_object d \<and> queues d q = CreateQueue)"

lemma channel_made_same: "same_routing c d \<Longrightarrow> channel_made k c d"
  by (auto simp: channel_made_def same_routing_def channels_of_def)

lemma channel_made_MakeDataChannel:
  assumes "MakeDataChannel E peer room c = Some (b, d)"
  shows "channel_made (peer, room) c d"
proof -
  obtain n c1 where n: "make_decision c = (n, c1)" by (cases "make_decision c")
  obtain p c2 where p: "MakePeerConnection peer room c1 = Some (p, c2)"
    using assms n by (cases "MakePeerConnection peer room c1") (auto simp: MakeDataChannel_def bind_eq_Some_conv)
  let ?dc = "\<lparr>pc = p, channel = None, fileQ = None, fileDecision = n, description = LocalDescription (random_bytes E)\<rparr>"
  obtain ok dc c3 where o: "obtainInitialDescription E ?dc c2 = (ok, dc, c3)"
    by (cases "obtainInitialDescription E ?dc c2")
  have d: "(b, d) = (if ok then publish_channel E peer room dc c3 else (False, c3))"
    using assms n p o by (cases ok) (auto simp: MakeDataChannel_def bind_eq_Some_conv)
  have c2: "m_properties c2 = m_properties c \<and> m_pendingOffers c2 = m_pendingOffers c \<and> m_queuedFiles c2 = m_queuedFiles c \<and>
      next_object c \<le> next_object c2 \<and> queues c2 = queues c \<and> m_dataChannels c2 = m_dataChannels c"
    using n p by (auto simp: make_decision_def MakePeerConnection_def Let_def bind_eq_Some_conv)
  have c3: "(\<not> ok \<and> c3 = c2) \<or> (ok \<and> fileQ dc = Some (next_object c2) \<and>
      c3 = c2\<lparr>next_object := next_object c2 + 1, queues := (queues c2)(next_object c2 := CreateQueue)\<rparr>)"
    using o by (auto simp: obtainInitialDescription_def CreateStringQueue_def Let_def split: option.splits if_splits)
  show ?thesis
  proof (cases ok)
    case False
    then show ?thesis using c2 c3 d by (auto simp: channel_made_def channels_of_def)
  next
    case True
    then have "d = snd (publish_channel E peer room dc c3)" using d by (simp add: prod_eq_iff)
    then show ?thesis
      using c2 c3 True
      by (auto simp: channel_made_def channels_of_def publish_channel_def SendMessage_def split: if_splits)
  qed
qed

lemma channel_made_ensure: "ensure_channel E peer room c = Some (b, d) \<Longrightarrow> channel_made (peer, room) c d"
  using channel_made_MakeDataChannel channel_made_same [OF same_routing_refl]
  by (auto simp: ensure_channel_def split: if_splits)

lemma route_ok_made:
  assumes ok: "route_ok b A M c" and cd: "channel_made k c d"
  shows "route_ok b A (M \<union> channels_of d) d"
proof -
  note r = route_okD [OF ok]
  have M: "channels_of c \<subseteq> M" "\<And>j q. (j, q) \<in> M \<Longrightarrow> q < next_object c" "inj_on snd M"
    using r(2) by (auto simp: owners_ok_def)
  have new: "(j, q) \<in> M \<or> j = k \<and> next_object c \<le> q \<and> q < next_object d \<and> queues d q = CreateQueue"
    if "(j, q) \<in> M \<union> channels_of d" for j q
    using cd M(1) that unfolding channel_made_def by blast
  have "inj_on snd (M \<union> channels_of d)"
  proof (rule inj_onI)
    fix x y
    assume xy: "x \<in> M \<union> channels_of d" "y \<in> M \<union> channels_of d" "snd x = snd y"
    obtain j q i where "x = (j, q)" "y = (i, q)" using xy(3) by (cases x; cases y) auto
    then show "x = y"
      using new [of j q] new [of i q] xy(1,2) M(2) [of j q] M(2) [of i q] inj_onD [OF M(3), of "(j, q)" "(i, q)"] by auto
  qed
  moreover have "q < next_object d" if "(j, q) \<in> M \<union> channels_of d" for j q
    using new [OF that] M(2) [of j q] cd by (auto simp: channel_made_def)
  moreover have "request_of j path \<in> A" if "(j, q) \<in> M \<union> channels_of d" "path \<in> set (m_Items (queues d q))" for j q path
    using new [OF that(1)]
  proof (elim disjE conjE)
    assume j: "(j, q) \<in> M"
    then have "queues d q = queues c q" using cd M(2) by (simp add: channel_made_def)
    then show ?thesis using r(3) [OF j] that(2) by simp
  next
    assume "queues d q = CreateQueue"
    then show ?thesis using that(2) by (simp add: CreateQueue_def)
  qed
  moreover have "m_properties d = b" "m_pendingOffers d = m_pendingOffers c" "m_queuedFiles d = m_queuedFiles c"
    using cd r(1) by (simp_all add: channel_made_def)
  ultimately show ?thesis
    unfolding route_ok_def owners_ok_def using r(4,5) by (intro conjI) (blast | simp)+
qed

section \<open>The operations keep the routing\<close>

lemma same_routing_candidate: "offer_candidate E p v c = Some d \<Longrightarrow> same_routing c d"
  by (auto simp: offer_candidate_def split: option.splits bool.splits)

lemma same_routing_description: "offer_description E p doc c = Some d \<Longrightarrow> same_routing c d"
  using same_routing_trans [OF same_routing_simps(2) same_routing_simps(2)]
  by (auto simp: offer_description_def split: option.splits list.splits bool.splits)

lemma channel_made_OnOffer:
  assumes "OnOffer E doc c = Some d"
  shows "channel_made k c d \<and> channels_of d = channels_of c"
proof (cases "\<exists>peer room. string_at doc ''peer'' = Some peer \<and> string_at doc ''room'' = Some room")
  case False
  with assms have "d = c" by (auto simp: OnOffer_def split: option.splits)
  then show ?thesis using channel_made_same [OF same_routing_refl] by simp
next
  case True
  then obtain peer room where pr: "string_at doc ''peer'' = Some peer" "string_at doc ''room'' = Some room" by blast
  obtain n c1 where n: "make_decision c = (n, c1)" by (cases "make_decision c")
  obtain p c2 where p: "MakePeerConnection peer room c1 = Some (p, c2)"
    using assms pr n by (cases "MakePeerConnection peer room c1") (auto simp: OnOffer_def bind_eq_Some_conv)
  obtain q c3 where q: "CreateStringQueue c2 = (q, c3)" by (cases "CreateStringQueue c2")
  let ?c4 = "c3\<lparr>m_incomingChannels := (m_incomingChannels c3)((peer, room) \<mapsto> \<lparr>pc = p, channel = None, fileQ = Some q,
    fileDecision = n, description = \<lparr>UUID = generateUUID (random_bytes E), descriptions = [], candidates = []\<rparr>\<rparr>)\<rparr>"
  have 4: "channel_made k c ?c4" "channels_of ?c4 = channels_of c"
    using n p q by (auto simp: channel_made_def channels_of_def make_decision_def MakePeerConnection_def
        CreateStringQueue_def Let_def bind_eq_Some_conv)
  obtain c5 where c5: "offer_description E p doc ?c4 = Some c5"
      "(case array_at doc ''candidates'' of None \<Rightarrow> Some c5 | Some vs \<Rightarrow> each (offer_candidate E p) vs c5) = Some d"
    using assms pr n p q by (auto simp: OnOffer_def bind_eq_Some_conv)
  have "same_routing c5 d"
    using c5(2) each_rel [where R = same_routing, OF _ same_routing_candidate same_routing_refl same_routing_trans]
    by (auto split: option.splits)
  with same_routing_description [OF c5(1)] have "same_routing ?c4 d" by (rule same_routing_trans)
  with 4 show ?thesis by (simp add: channel_made_def channels_of_def same_routing_def)
qed

lemma route_ok_OnOffer: "route_ok b A M c \<Longrightarrow> OnOffer E doc c = Some d \<Longrightarrow> route_ok b A M d"
proof -
  assume ok: "route_ok b A M c" and d: "OnOffer E doc c = Some d"
  have "M \<union> channels_of d = M"
    using channel_made_OnOffer [OF d] route_okD(2) [OF ok] by (auto simp: owners_ok_def)
  with route_ok_made [OF ok] channel_made_OnOffer [OF d] show ?thesis by metis
qed

lemma route_ok_TakePendingOffer:
  assumes ok: "route_ok b A M c" and "TakePendingOffer doc c = Some (offer, d)"
  shows "route_ok b A M d \<and> request_of (key offer) (offer_path offer) \<in> A"
proof -
  obtain u where u: "m_pendingOffers c u = Some offer" "d = c\<lparr>m_pendingOffers := (m_pendingOffers c)(u := None)\<rparr>"
    using assms(2) by (auto simp: TakePendingOffer_def split: option.splits)
  have "route_ok b A M d"
    using ok unfolding route_ok_def owners_ok_def channels_of_def u(2) by simp
  with route_okD(4) [OF ok u(1)] show ?thesis by simp
qed

lemma route_ok_OnFileAccept:
  assumes ok: "route_ok b A M c" and "OnFileAccept doc c = Some d"
  shows "route_ok b A M d"
proof (cases "TakePendingOffer doc c")
  case None
  then show ?thesis using assms by (simp add: OnFileAccept_def)
next
  case (Some x)
  obtain offer c1 where x: "x = (offer, c1)" by (cases x)
  have 1: "route_ok b A M c1" "request_of (key offer) (offer_path offer) \<in> A"
    using route_ok_TakePendingOffer [OF ok] Some x by blast+
  show ?thesis
  proof (cases "Option.bind (m_dataChannels c1 (key offer)) fileQ")
    case None
    then show ?thesis using 1 assms(2) Some x by (simp add: OnFileAccept_def)
  next
    case q: (Some q)
    let ?c2 = "c1\<lparr>queues := (queues c1)(q := AddItem (Some (offer_path offer)) (queues c1 q))\<rparr>"
    note r = route_okD [OF 1(1)]
    have kq: "(key offer, q) \<in> M" using q r(2) by (auto simp: owners_ok_def channels_of_def)
    have "request_of k path \<in> A" if "(k, j) \<in> M" "path \<in> set (m_Items (queues ?c2 j))" for k j path
    proof (cases "j = q")
      case True
      then have "k = key offer" using kq that(1) r(2) inj_onD [of snd M "(k, j)" "(key offer, q)"] by (simp add: owners_ok_def)
      then show ?thesis using that(2) True 1(2) r(3) [OF that(1)] by (auto simp: AddItem_def)
    next
      case False
      then show ?thesis using that r(3) by simp
    qed
    then have "route_ok b A M ?c2"
      using r unfolding route_ok_def owners_ok_def channels_of_def by auto
    then show ?thesis
      using assms(2) Some x q route_ok_same [OF _ same_routing_simps(4)] by (auto simp: OnFileAccept_def)
  qed
qed

lemma route_ok_OnFileReject:
  assumes "route_ok b A M c" and "OnFileReject doc c = Some d"
  shows "route_ok b A M d"
  using assms route_ok_TakePendingOffer [OF assms(1)] route_ok_same [OF _ same_routing_simps(4)]
  by (auto simp: OnFileReject_def split: option.splits)

lemma route_ok_handle:
  assumes "route_ok b A M c" and "client_handle E h doc c = Some d"
  shows "route_ok b A M d"
proof (cases h)
  case HJoin
  then have "same_routing c d" using assms(2)
    by (auto simp: OnJoin_def Let_def same_routing_def UpdatePeers_def split: option.splits if_splits)
  then show ?thesis by (rule route_ok_same [OF assms(1)])
next
  case HLeave
  then have "same_routing c d" using assms(2)
    by (auto simp: OnLeave_def Let_def same_routing_def UpdatePeers_def Leave_def split: option.splits)
  then show ?thesis by (rule route_ok_same [OF assms(1)])
next
  case HAnswer
  then have "same_routing c d" using assms(2) by (auto simp: OnAnswer_def split: option.splits bool.splits)
  then show ?thesis by (rule route_ok_same [OF assms(1)])
next
  case HCandidate
  then have "same_routing c d" using assms(2) by (auto simp: OnCandidate_def split: option.splits)
  then show ?thesis by (rule route_ok_same [OF assms(1)])
next
  case HPingPong
  then have "same_routing c d" using assms(2) by (auto simp: OnPingPong_def split: option.splits if_splits)
  then show ?thesis by (rule route_ok_same [OF assms(1)])
next
  case HFileOffer
  then show ?thesis using assms same_routing_OnFileOffer route_ok_same by simp
next
  case HFileAccept
  then show ?thesis using assms route_ok_OnFileAccept by simp
next
  case HFileReject
  then show ?thesis using assms route_ok_OnFileReject by simp
next
  case HOffer
  then show ?thesis using assms route_ok_OnOffer by simp
qed (use assms in \<open>simp add: OnFileComplete_def\<close>)

lemma route_ok_close: "route_ok b A M c \<Longrightarrow> route_ok b A M (OnMessageClose c)"
  by (auto simp: route_ok_def owners_ok_def channels_of_def OnMessageClose_def WakeFileTransferWorkers_def ClearRooms_def)

lemma route_ok_queued:
  assumes "route_ok b A M c" and "set fs \<subseteq> A"
  shows "route_ok b A M (c\<lparr>m_queuedFiles := fs\<rparr>)"
  using assms unfolding route_ok_def owners_ok_def channels_of_def by simp

lemma QueueFile_queued:
  "snd (QueueFile peer room path c) = c\<lparr>m_queuedFiles := m_queuedFiles c\<rparr> \<or>
   snd (QueueFile peer room path c) = c\<lparr>m_queuedFiles := m_queuedFiles c @ [request_of (peer, room) path]\<rparr>"
  by (simp add: QueueFile_def request_of_def)

lemma queue_to_queued:
  "\<exists>fs. snd (queue_to ks path (n, c)) = c\<lparr>m_queuedFiles := m_queuedFiles c @ fs\<rparr> \<and> set fs \<subseteq> (\<lambda>k. request_of k path) ` set ks"
proof (induction ks path "(n, c)" arbitrary: n c rule: queue_to.induct)
  case (1 path n c)
  then show ?case by (intro exI [of _ "[]"]) simp
next
  case (2 p r ks path n c)
  obtain ok c' where q: "QueueFile p r path c = (ok, c')" by (cases "QueueFile p r path c")
  obtain fs where "snd (queue_to ks path (if ok then n + 1 else n, c')) = c'\<lparr>m_queuedFiles := m_queuedFiles c' @ fs\<rparr>"
      "set fs \<subseteq> (\<lambda>k. request_of k path) ` set ks"
    using 2 [OF q [symmetric]] by (cases ok) auto
  then show ?case
    using QueueFile_queued [of p r path c] q
    by (elim disjE) (rule exI [of _ fs], force, rule exI [of _ "request_of (p, r) path # fs"], force)
qed

lemma route_ok_change:
  assumes "route_ok b A M c"
  shows "route_ok b (A \<union> set (requests c path)) M (on_directory_change E path change c)"
proof -
  obtain ok c' where t: "TakeReceivedFile E path c = (ok, c')" by (cases "TakeReceivedFile E path c")
  have same: "same_routing c c'" by (rule same_routing_results(2) [OF t])
  have ok': "route_ok b (A \<union> set (requests c path)) M c'"
    by (rule route_ok_more [OF route_ok_same [OF assms same]]) simp
  obtain fs where fs: "snd (QueueFileToAll path c') = c'\<lparr>m_queuedFiles := m_queuedFiles c' @ fs\<rparr>"
      "set fs \<subseteq> (\<lambda>k. request_of k path) ` set (map_keys (m_dataChannels c'))"
    using queue_to_queued [of "map_keys (m_dataChannels c')" path 0 c'] by (auto simp: QueueFileToAll_def)
  have "(\<lambda>k. request_of k path) ` set (map_keys (m_dataChannels c')) = set (requests c path)"
    using same by (force simp: requests_def request_of_def same_routing_def)
  then have "set (m_queuedFiles c' @ fs) \<subseteq> A \<union> set (requests c path)"
    using fs(2) route_okD(5) [OF ok'] by auto
  then have "route_ok b (A \<union> set (requests c path)) M (snd (QueueFileToAll path c'))"
    unfolding fs(1) by (rule route_ok_queued [OF ok'])
  with ok' t route_ok_more [OF assms] show ?thesis
    by (cases ok) (auto simp: on_directory_change_def)
qed

lemma route_ok_take:
  assumes "route_ok b A M c" and "GetItem (queues c q) = Some (path, q')"
  shows "route_ok b A M (c\<lparr>queues := (queues c)(q := q')\<rparr>)"
proof -
  note r = route_okD [OF assms(1)]
  have sub: "set (m_Items q') \<subseteq> set (m_Items (queues c q))"
    using assms(2) by (auto simp: GetItem_def split: list.splits if_splits)
  have "request_of k p \<in> A" if "(k, j) \<in> M" "p \<in> set (m_Items (((queues c)(q := q')) j))" for k j p
    using r(3) [OF that(1)] that(2) sub by (auto split: if_splits)
  then show ?thesis using r unfolding route_ok_def owners_ok_def channels_of_def by auto
qed

section \<open>The invariant\<close>

definition sys_routed :: "PropertyBag \<Rightarrow> client_sys \<Rightarrow> bool" where
  "sys_routed b s \<longleftrightarrow> route_ok b (asked s) (made s) (cl s) \<and> pc_specs (worker s) \<subseteq> asked s \<and>
     (\<forall>c specs. m_properties c = b \<longrightarrow> initial_specs c = Some (Some specs) \<longrightarrow> set specs \<subseteq> asked s)"

lemma initial_specs_cong:
  assumes "m_properties c = m_properties d"
  shows "initial_specs c = initial_specs d"
  by (simp only: initial_specs_def optional_setting_def setting_def assms)

lemma sys_routed_started: "client_started b s \<Longrightarrow> sys_routed b s"
proof -
  assume s: "client_started b s"
  have "set specs \<subseteq> asked s" if "m_properties c = b" "initial_specs c = Some (Some specs)" for c specs
  proof -
    have "initial_specs (client_init b) = Some (Some specs)"
      using initial_specs_cong [of c "client_init b"] that by (simp add: client_init_def)
    then show ?thesis using s by (auto simp: client_started_def)
  qed
  then show ?thesis
    using s by (auto simp: client_started_def sys_routed_def route_ok_def owners_ok_def channels_of_def client_init_def)
qed

lemma loop_step_routes:
  "loop_step x timed_out c = Next p d \<Longrightarrow> (same_routing c d \<and> pc_specs p = {}) \<or> init_step c = Next p d \<or>
     (p = AtOffer (m_queuedFiles c) \<and> d = c\<lparr>m_queuedFiles := []\<rparr>)"
  by (cases x) (auto split: if_splits)

lemma init_step_routes:
  "init_step c = Next p d \<Longrightarrow> same_routing c d \<and>
     (pc_specs p = {} \<or> (\<exists>specs. initial_specs c = Some (Some specs) \<and> pc_specs p = set specs))"
  by (auto simp: init_step_def split: if_splits option.splits)

lemma route_ok_worker:
  assumes step: "worker_step E timed_out p c = Next p' d" and ok: "route_ok b A M c" and pcs: "pc_specs p \<subseteq> A"
    and ini: "\<And>specs. initial_specs c = Some (Some specs) \<Longrightarrow> set specs \<subseteq> A"
  shows "route_ok b A (M \<union> channels_of d) d \<and> pc_specs p' \<subseteq> A"
proof -
  have same: "route_ok b A (M \<union> channels_of d) d" if "same_routing c d"
    by (rule route_ok_made [OF ok channel_made_same [OF that]])
  have M: "M \<union> channels_of e = M" if "m_dataChannels e = m_dataChannels c" for e
    using route_okD(2) [OF ok] that by (auto simp: owners_ok_def channels_of_def)
  have ensure: "route_ok b A (M \<union> channels_of d') d'" if "ensure_channel E peer room c = Some (r, d')" for peer room r d'
    by (rule route_ok_made [OF ok channel_made_ensure [OF that]])
  show ?thesis
  proof (cases p)
    case AtLoop
    note r = route_okD [OF ok]
    have "loop_step (m_clientState c) timed_out c = Next p' d" using step AtLoop by simp
    then consider (same) "same_routing c d" "pc_specs p' = {}" | (init) "init_step c = Next p' d"
      | (taken) "p' = AtOffer (m_queuedFiles c)" "d = c\<lparr>m_queuedFiles := []\<rparr>"
      using loop_step_routes by blast
    then show ?thesis
    proof cases
      case init
      then show ?thesis using init_step_routes [OF init] ini same by auto
    next
      case taken
      have "route_ok b A M d" unfolding taken(2) by (rule route_ok_queued [OF ok]) simp
      then show ?thesis using M [of d] r(5) taken by simp
    qed (use same in simp)
  next
    case (AtJoin rooms k)
    then show ?thesis using step pcs same join_step_specs [of E rooms k c p' d] by auto
  next
    case (AtJoinWait rs k)
    have "pc_specs (joined False k) = {}" by simp
    then show ?thesis using step pcs same join_step_specs [of E rs k c p' d] AtJoinWait by (auto split: if_splits)
  next
    case (AtConnectMake peer room specs)
    then obtain r e where r: "ensure_channel E peer room c = Some (r, e)"
      using step by (cases "ensure_channel E peer room c") auto
    have "e = d \<and> pc_specs p' \<subseteq> pc_specs p" using step r AtConnectMake by (cases r) auto
    then show ?thesis using ensure [OF r] pcs by auto
  next
    case (AtOffer specs)
    then show ?thesis
      using step pcs same join_step_specs [of E "[fs_room (hd specs)]" "ThenOffer (hd specs) (tl specs)" c p' d]
      by (cases specs) auto
  next
    case (AtOfferMake spec specs)
    then obtain r e where r: "ensure_channel E (fs_peer spec) (fs_room spec) c = Some (r, e)"
      using step by (cases "ensure_channel E (fs_peer spec) (fs_room spec) c") auto
    have "e = d \<and> pc_specs p' \<subseteq> pc_specs p" using step r AtOfferMake by (cases r) auto
    then show ?thesis using ensure [OF r] pcs by auto
  next
    case (AtOfferCommit spec specs fdsc)
    then have d: "d = snd (SendFileOffer_commit E (fs_room spec) (fs_peer spec) (fs_path spec) fdsc c)"
        and p': "p' = AtOfferCheck True specs" and spec: "spec \<in> A" "set specs \<subseteq> A" using step pcs by auto
    note r = route_okD [OF ok]
    have eq: "m_properties d = m_properties c" "m_dataChannels d = m_dataChannels c" "queues d = queues c"
        "m_queuedFiles d = m_queuedFiles c" "next_object d = next_object c"
      unfolding d by (simp_all add: SendFileOffer_commit_def SendMessage_def Let_def)
    have "m_pendingOffers c u = Some offer \<or> offer = \<lparr>key = (fs_peer spec, fs_room spec), offer_path = fs_path spec\<rparr>"
      if "m_pendingOffers d u = Some offer" for u offer
      using that unfolding d by (auto simp: SendFileOffer_commit_def SendMessage_def Let_def split: if_splits)
    then have pend: "request_of (key offer) (offer_path offer) \<in> A" if "m_pendingOffers d u = Some offer" for u offer
      using that r(4) spec(1) by fastforce
    then have "route_ok b A M d"
      using ok unfolding route_ok_def owners_ok_def channels_of_def eq by blast
    moreover have "m_dataChannels d = m_dataChannels c" by (rule eq)
    ultimately show ?thesis using M p' spec(2) by simp
  next
    case AtPing
    then show ?thesis using step same same_routing_results(1) by (auto simp: SendPing_def split: prod.splits)
  qed (use step pcs same in \<open>auto simp: Let_def split: if_splits option.splits\<close>)
qed

lemma sys_routed_same:
  assumes "sys_routed b s" and "same_routing (cl s) (cl t)" and "made t = made s" and "worker t = worker s \<or> pc_specs (worker t) = {}"
    and "asked t = asked s"
  shows "sys_routed b t"
  using assms route_ok_same [OF _ assms(2)] unfolding sys_routed_def by auto

lemma sys_routed_step:
  assumes ok: "sys_routed b s" and "client_step D parse e s t"
  shows "sys_routed b t"
proof -
  have r: "route_ok b (asked s) (made s) (cl s)" and w: "pc_specs (worker s) \<subseteq> asked s"
    and ini: "\<And>c specs. m_properties c = b \<Longrightarrow> initial_specs c = Some (Some specs) \<Longrightarrow> set specs \<subseteq> asked s"
    using ok by (simp_all add: sys_routed_def)
  have set: "sys_routed b (set_cl c s)" if "route_ok b (asked s) (made s) c" for c
    using ok that by (simp add: sys_routed_def set_cl_def)
  have more: "sys_routed b (set_cl c s\<lparr>asked := A\<rparr>)" if "asked s \<subseteq> A" "route_ok b A (made s) c" for c A
  proof -
    have "set specs \<subseteq> A" if "m_properties d = b" "initial_specs d = Some (Some specs)" for d specs
      using order_trans [OF ini [OF that] \<open>asked s \<subseteq> A\<close>] .
    then show ?thesis using that(2) order_trans [OF w that(1)] by (simp add: sys_routed_def set_cl_def)
  qed
  note same = sys_routed_same [OF ok]
  from assms(2) show ?thesis
  proof (cases rule: client_step.cases)
    case (cs_worker E timed_out p c)
    note rw = route_ok_worker [OF cs_worker(4) r w ini [OF route_okD(1) [OF r]]]
    then show ?thesis using ok unfolding cs_worker(2) sys_routed_def by simp
  next
    case (cs_message E input c)
    have "c = cl s \<or> (\<exists>h doc. client_handle E h doc (cl s) = Some c)"
      using cs_message(4) by (auto simp: client_message_def MessageRouter_def split: option.splits json.splits if_splits)
    then have "route_ok b (asked s) (made s) c" using r route_ok_handle by blast
    then show ?thesis unfolding cs_message(2) by (rule set)
  next
    case (cs_close)
    then show ?thesis using set [OF route_ok_close [OF r]] by simp
  next
    case (cs_chunk E k x)
    then show ?thesis using set [OF route_ok_same [OF r same_routing_chunk]] by (simp add: on_channel_message_def)
  next
    case (cs_text E k x)
    then show ?thesis using set [OF r] by (simp add: on_channel_message_def)
  next
    case (cs_queue peer room path)
    let ?A = "insert \<lparr>fs_peer = peer, fs_room = room, fs_path = path\<rparr> (asked s)"
    have ok': "route_ok b ?A (made s) (cl s)" by (rule route_ok_more [OF r subset_insertI])
    have A: "set (m_queuedFiles (cl s)) \<subseteq> ?A" "request_of (peer, room) path \<in> ?A"
      using route_okD(5) [OF r] by (auto simp: request_of_def)
    have "route_ok b ?A (made s) (snd (QueueFile peer room path (cl s)))"
      using QueueFile_queued [of peer room path "cl s"]
    proof (elim disjE)
      assume e: "snd (QueueFile peer room path (cl s)) = (cl s)\<lparr>m_queuedFiles := m_queuedFiles (cl s)\<rparr>"
      show ?thesis unfolding e by (rule route_ok_queued [OF ok' A(1)])
    next
      assume e: "snd (QueueFile peer room path (cl s)) =
        (cl s)\<lparr>m_queuedFiles := m_queuedFiles (cl s) @ [request_of (peer, room) path]\<rparr>"
      show ?thesis unfolding e by (rule route_ok_queued [OF ok']) (use A in simp)
    qed
    then show ?thesis unfolding cs_queue(2) by (rule more [OF subset_insertI])
  next
    case (cs_change E path change)
    show ?thesis unfolding cs_change(2) by (rule more [OF Un_upper1 route_ok_change [OF r]])
  next
    case cs_start
    then show ?thesis using ok set [OF route_ok_same [OF r same_routing_simps(8)]] by (simp add: sys_routed_def)
  next
    case (cs_take k q path q' goes_on)
    have "sys_routed b (set_cl ((cl s)\<lparr>queues := (queues (cl s))(q := q')\<rparr>) s)"
      by (rule set [OF route_ok_take [OF r cs_take(5)]])
    then show ?thesis unfolding cs_take(2) by (simp add: sys_routed_def)
  next
    case (cs_read E q path content fd fs)
    have "sys_routed b (set_files fs s)" using set [OF route_ok_same [OF r same_routing_simps(17)]] by (simp add: set_files_def set_cl_def)
    then show ?thesis unfolding cs_read(2) by (simp add: sys_routed_def)
  next
    case (cs_sent q path fd k c complete E)
    have "same_routing (cl s) c" using cs_sent(5) same_routing_simps(13) by simp
    then have "same_routing (cl s) (c\<lparr>files := LockedIfstream_close (Some fd) (files c)\<rparr>)" by (simp add: same_routing_def)
    from set [OF route_ok_same [OF r this]] show ?thesis unfolding cs_sent(2) by (simp add: sys_routed_def)
  next
    case (cs_lock op p m wait got fd fs)
    have "sys_routed b (set_files fs s)" using set [OF route_ok_same [OF r same_routing_simps(17)]] by (simp add: set_files_def set_cl_def)
    then show ?thesis unfolding cs_lock(2) by (simp add: sys_routed_def)
  next
    case (cs_unlock fd)
    have "sys_routed b (set_files fs s)" for fs using set [OF route_ok_same [OF r same_routing_simps(17)]] by (simp add: set_files_def set_cl_def)
    then show ?thesis unfolding cs_unlock(2) by (simp add: sys_routed_def)
  next
    case (cs_outside p content)
    have "sys_routed b (set_files fs s)" for fs using set [OF route_ok_same [OF r same_routing_simps(17)]] by (simp add: set_files_def set_cl_def)
    then show ?thesis unfolding cs_outside(2) .
  qed (rule same; simp)+
qed

interpretation routing: invariant_system "client_started b" "any_step D parse" "sys_routed b" for b D parse
  by unfold_locales (auto simp: any_step_def intro: sys_routed_started sys_routed_step)

inductive_cases tookE: "client_step D parse (Took k path) s t"

text \<open>
  C6: a file goes to nobody it was not meant for: whenever a sending thread takes a path from the queue of
  its channel, in any run of the client, that path was asked to be sent to that very peer in that room, by
  the command line, by \<open>QueueFile\<close> or by a change of the directory while there was a channel to that peer;
  and the queue it came from belongs to no other peer's channel.
\<close>

theorem files_go_where_asked:
  assumes "reach (client_started b) (any_step D parse) s" and "client_step D parse (Took k path) s t"
  shows "\<lparr>fs_peer = fst k, fs_room = snd k, fs_path = path\<rparr> \<in> asked s \<and>
    (\<exists>q. (k, q) \<in> made s \<and> hd (m_Items (queues (cl s) q)) = path \<and> (\<forall>j. (j, q) \<in> made s \<longrightarrow> j = k))"
proof -
  have r: "route_ok b (asked s) (made s) (cl s)" using routing.inv_reach [OF assms(1)] by (simp add: sys_routed_def)
  from assms(2) obtain q q' where q: "(k, q) \<in> made s" "GetItem (queues (cl s) q) = Some (path, q')"
    by (elim tookE)
  from q(2) have p: "path \<in> set (m_Items (queues (cl s) q))" "hd (m_Items (queues (cl s) q)) = path"
    by (cases "m_Items (queues (cl s) q)"; simp add: GetItem_def)+
  have "\<forall>j. (j, q) \<in> made s \<longrightarrow> j = k"
    using route_okD(2) [OF r] inj_onD [of snd "made s" "(_, q)" "(k, q)"] q(1) by (simp add: owners_ok_def)
  with q(1) p(2) have "\<exists>q. (k, q) \<in> made s \<and> hd (m_Items (queues (cl s) q)) = path \<and> (\<forall>j. (j, q) \<in> made s \<longrightarrow> j = k)"
    by (intro exI [of _ q] conjI)
  moreover have "request_of k path \<in> asked s" by (rule route_okD(3) [OF r q(1) p(1)])
  ultimately show ?thesis by (simp add: request_of_def)
qed

section \<open>A run\<close>

text \<open>Steps of the worker alone are steps of the system.\<close>

lemma reach_run_worker:
  assumes "reach I (any_step D parse) s" and "cwd E = D" and "run_worker E n (worker s) (cl s) = Some (p, c)"
    and "channels_of (cl s) \<subseteq> made s"
  shows "\<exists>M. made s \<subseteq> M \<and> channels_of c \<subseteq> M \<and> reach I (any_step D parse) (s\<lparr>cl := c, worker := p, made := M\<rparr>)"
  using assms
proof (induction n arbitrary: s)
  case 0
  then have "s\<lparr>cl := c, worker := p, made := made s\<rparr> = s" by auto
  then have "reach I (any_step D parse) (s\<lparr>cl := c, worker := p, made := made s\<rparr>)" using "0.prems"(1) by (rule ssubst)
  with 0 show ?case by (intro exI [of _ "made s"]) auto
next
  case (Suc n)
  obtain p1 c1 where w: "worker_step E False (worker s) (cl s) = Next p1 c1" and rest: "run_worker E n p1 c1 = Some (p, c)"
    using Suc.prems(3) by (cases "worker_step E False (worker s) (cl s)") auto
  let ?s1 = "s\<lparr>cl := c1, worker := p1, made := made s \<union> channels_of c1\<rparr>"
  have "any_step D parse s ?s1" using cs_worker [OF Suc.prems(2) w] by (auto simp: any_step_def)
  with Suc.prems(1) have "reach I (any_step D parse) ?s1" by (rule reach_step)
  from Suc.IH [OF this Suc.prems(2)] rest obtain M where "made ?s1 \<subseteq> M" "channels_of c \<subseteq> M"
      "reach I (any_step D parse) (?s1\<lparr>cl := c, worker := p, made := M\<rparr>)" by auto
  then show ?case by (intro exI [of _ M]) auto
qed

definition routing_bag :: PropertyBag where
  "routing_bag = [''directory'' \<mapsto> VString [], ''name'' \<mapsto> VString ''me'', ''maxMessageSize'' \<mapsto> VInt 4,
     ''stunAddress'' \<mapsto> VString ''s'', ''stunPort'' \<mapsto> VInt 1, ''room'' \<mapsto> VString ''r'', ''peer'' \<mapsto> VString ''bob'',
     ''file'' \<mapsto> VString ''f'']"

definition routing_env :: env where
  "routing_env = demo_env\<lparr>creates_channel := (\<lambda>p. Some 7),
     gathering := (\<lambda>p. [OnLocalDescription ''v=0'', GatheringStateChange True])\<rparr>"

definition routing_parse :: "string \<Rightarrow> json option" where
  "routing_parse text = Some (JObj (if text = ''j'' then joined_doc ''r'' ''me'' [''bob'', ''me'']
     else [(''type'', JStr ''file_accept''), (''uuid'', JStr (generateUUID (replicate 16 0)))]))"

abbreviation routing_spec :: FileSpec where
  "routing_spec \<equiv> \<lparr>fs_peer = ''bob'', fs_room = ''r'', fs_path = ''f''\<rparr>"

definition routing_fresh :: client where
  "routing_fresh = (client_init routing_bag)\<lparr>files := fsys_init\<lparr>disk := [[''w'', ''f''] \<mapsto> ''hello'']\<rparr>, m_transportOpen := True\<rparr>"

lemma routing_settings:
  "m_properties c = routing_bag \<Longrightarrow> setting c ''name'' = Some ''me'' \<and> optional_setting c ''peer'' = Some ''bob'' \<and>
     optional_setting c ''room'' = Some ''r'' \<and> setting c ''room'' = Some ''r'' \<and> optional_setting c ''directory'' = Some [] \<and>
     initial_specs c = Some (Some [routing_spec]) \<and> setting_int c ''maxMessageSize'' = Some 4 \<and>
     setting c ''stunAddress'' = Some ''s'' \<and> setting_int c ''stunPort'' = Some 1 \<and> initial_rooms c [routing_spec] = Some [''r'']"
  by (simp add: setting_def optional_setting_def setting_int_def initial_specs_def initial_rooms_def routing_bag_def Contains_def
      Get_string_def Get_int_def path_list_def path_list_from_eq)

definition routing_waiting :: client where
  "routing_waiting = routing_fresh\<lparr>m_room := ''r'', m_clientState := CLIENT_WAITING_FOR_JOIN, sent := [''m'']\<rparr>"

lemma routing_run1:
  "run_worker routing_env 2 AtLoop routing_fresh = Some (AtJoinWait [] (ThenConnect ''bob'' ''r'' [routing_spec]), routing_waiting)"
proof -
  have c: "m_properties routing_fresh = routing_bag" "m_clientState routing_fresh = CLIENT_INIT" "m_transportOpen routing_fresh"
      "m_rooms routing_fresh = Map.empty" "sent routing_fresh = []"
    by (simp_all add: routing_fresh_def client_init_def)
  show ?thesis
    using c(2-) routing_settings [OF c(1)]
    by (simp add: eval_nat_numeral init_step_def join_step_def InRoom_def GetPeers_def JoinRoom_def SendMessage_def
        routing_env_def demo_env_def c_str_def set_state_def routing_waiting_def)
qed

definition routing_joined :: client where
  "routing_joined = routing_waiting\<lparr>m_rooms := [''r'' \<mapsto> {''bob'', ''me''}], m_clientState := CLIENT_JOINED\<rparr>"

lemma routing_join: "client_message routing_env routing_parse ''j'' routing_waiting = Some routing_joined"
proof -
  have "m_properties routing_waiting = routing_bag" by (simp add: routing_waiting_def routing_fresh_def client_init_def)
  then have n: "setting routing_waiting ''name'' = Some ''me''" using routing_settings by blast
  have "string_at (joined_doc ''r'' ''me'' [''bob'', ''me'']) ''type'' = Some ''peer_joined''"
    by (simp add: joined_doc_def string_at_def get_string_def c_str_def)
  moreover have "route ''peer_joined'' = Some HJoin" by simp
  moreover have "routing_parse ''j'' = Some (JObj (joined_doc ''r'' ''me'' [''bob'', ''me'']))" by (simp add: routing_parse_def)
  ultimately have "client_message routing_env routing_parse ''j'' routing_waiting =
      OnJoin (joined_doc ''r'' ''me'' [''bob'', ''me'']) routing_waiting"
    by (simp add: client_message_def MessageRouter_def)
  then show ?thesis
    unfolding OnJoin_joined_doc [OF n]
    by (simp add: UpdatePeers_def routing_joined_def routing_waiting_def routing_fresh_def
        client_init_def c_str_def Let_def)
qed

definition routing_channel :: DataChannel where
  "routing_channel = \<lparr>pc = 1, channel = Some 7, fileQ = Some 2, fileDecision = 0,
     description = \<lparr>UUID = generateUUID (replicate 16 0), descriptions = [''v=0''], candidates = []\<rparr>\<rparr>"

lemma routing_make:
  "\<exists>c. MakeDataChannel routing_env ''bob'' ''r'' routing_joined = Some (True, c) \<and> m_properties c = routing_bag \<and>
     m_rooms c = [''r'' \<mapsto> {''bob'', ''me''}] \<and> m_clientState c = CLIENT_JOINED \<and> files c = files routing_fresh \<and>
     m_dataChannels c = [(''bob'', ''r'') \<mapsto> routing_channel] \<and> m_pendingOffers c = Map.empty \<and> m_Items (queues c 2) = []"
  by (simp add: MakeDataChannel_def make_decision_def MakePeerConnection_def obtainInitialDescription_def LocalDescription_def
      CreateStringQueue_def publish_channel_def SendMessage_def Let_def routing_env_def demo_env_def routing_channel_def
      setting_def setting_int_def Get_string_def Get_int_def Contains_def routing_bag_def)
    (simp add: routing_joined_def routing_waiting_def routing_fresh_def client_init_def CreateQueue_def
      routing_bag_def numeral_2_eq_2)

lemma routing_run2:
  "\<exists>c. run_worker routing_env 8 (AtJoinWait [] (ThenConnect ''bob'' ''r'' [routing_spec])) routing_joined = Some (AtOfferCheck True [], c) \<and>
     m_dataChannels c = [(''bob'', ''r'') \<mapsto> routing_channel] \<and> m_Items (queues c 2) = [] \<and> files c = files routing_fresh \<and>
     m_pendingOffers c = [generateUUID (replicate 16 0) \<mapsto> \<lparr>key = (''bob'', ''r''), offer_path = ''f''\<rparr>]"
proof -
  obtain c where c: "MakeDataChannel routing_env ''bob'' ''r'' routing_joined = Some (True, c)" "m_properties c = routing_bag"
      "m_rooms c = [''r'' \<mapsto> {''bob'', ''me''}]" "m_clientState c = CLIENT_JOINED" "files c = files routing_fresh"
      "m_dataChannels c = [(''bob'', ''r'') \<mapsto> routing_channel]" "m_pendingOffers c = Map.empty" "m_Items (queues c 2) = []"
    using routing_make by blast
  have j: "m_rooms routing_joined = [''r'' \<mapsto> {''bob'', ''me''}]" "m_clientState routing_joined = CLIENT_JOINED"
      "m_dataChannels routing_joined (''bob'', ''r'') = None"
    by (simp_all add: routing_joined_def routing_waiting_def routing_fresh_def client_init_def)
  have p: "present ''bob'' ''r'' routing_joined" "present ''bob'' ''r'' c" "InRoom ''r'' c = Some True"
    using c(3) j(1) routing_settings [OF c(2)] by (simp_all add: present_def GetPeers_def InRoom_def)
  have f: "file_bytes routing_env ''f'' c = Some ''hello''"
    by (simp add: file_bytes_def c(5) routing_fresh_def routing_env_def demo_env_def resolve_def demo_transfer_defs)
  have o: "offered_path (cwd routing_env) [] ''f'' = Some ''/w/f''"
    by (simp add: offered_path_def absolute_path_def routing_env_def demo_env_def demo_transfer_defs)
  obtain fdsc where pre: "SendFileOffer_prepare routing_env ''r'' ''bob'' ''f'' c = Some fdsc"
    using routing_settings [OF c(2)] c(6) f o
    by (simp add: SendFileOffer_prepare_def get_file_info_def get_mime_type_def usable_def routing_channel_def routing_env_def demo_env_def)
  let ?d = "snd (SendFileOffer_commit routing_env ''r'' ''bob'' ''f'' fdsc c)"
  have "run_worker routing_env 8 (AtJoinWait [] (ThenConnect ''bob'' ''r'' [routing_spec])) routing_joined = Some (AtOfferCheck True [], ?d)"
    using c(1,4,6) j p pre by (simp add: eval_nat_numeral stopped_def join_step_def ensure_channel_def)
  moreover have "m_dataChannels ?d = m_dataChannels c \<and> queues ?d = queues c \<and> files ?d = files c \<and>
      m_pendingOffers ?d = [generateUUID (replicate 16 0) \<mapsto> \<lparr>key = (''bob'', ''r''), offer_path = ''f''\<rparr>]"
    using c(7) by (simp add: SendFileOffer_commit_def SendMessage_def Let_def routing_env_def demo_env_def)
  ultimately show ?thesis using c(5,6,8) by auto
qed

lemma set_cl_again: "set_cl d (s\<lparr>cl := c, worker := p, made := M\<rparr>) = s\<lparr>cl := d, worker := p, made := M\<rparr>"
  by (cases s) (simp add: set_cl_def)

text \<open>A file that has been asked for, announced and accepted waits in its channel's queue.\<close>

lemma routing_queued:
  "\<exists>s. reach (client_started routing_bag) (any_step ''/w'' routing_parse) s \<and> ((''bob'', ''r''), 2) \<in> made s \<and> busy s = Map.empty \<and>
     m_Items (queues (cl s) 2) = [''f''] \<and> files (cl s) = files routing_fresh \<and> worker s = AtOfferCheck True []"
proof -
  let ?R = "reach (client_started routing_bag) (any_step ''/w'' routing_parse)"
  have w: "cwd routing_env = ''/w''" by (simp add: routing_env_def demo_env_def)
  define s0 where "s0 = \<lparr>cl = client_init routing_bag, worker = AtDone, made = {}, busy = Map.empty, foreign = {},
     asked = {f. \<exists>specs. initial_specs (client_init routing_bag) = Some (Some specs) \<and> f \<in> set specs}\<rparr>"
  have step: "?R t" if "?R s" "client_step ''/w'' routing_parse e s t" for e s t
    using reach_step [OF that(1)] that(2) by (auto simp: any_step_def)
  have "?R s0" by (rule reach_init) (simp add: client_started_def s0_def)
  from step [OF this cs_outside [where p = "[''w'', ''f'']" and content = "Some ''hello''"]]
  have "?R (s0\<lparr>cl := (client_init routing_bag)\<lparr>files := fsys_init\<lparr>disk := [[''w'', ''f''] \<mapsto> ''hello'']\<rparr>\<rparr>\<rparr>)"
    by (simp add: s0_def set_files_def client_init_def fsys_init_def)
  from step [OF this cs_start] have "?R (s0\<lparr>cl := (client_init routing_bag)\<lparr>files := fsys_init\<lparr>disk := [[''w'', ''f''] \<mapsto> ''hello'']\<rparr>\<rparr>, worker := AtLoop\<rparr>)"
    by (simp add: s0_def set_cl_def Start_session_def client_init_def)
  from step [OF this cs_open] have 1: "?R (s0\<lparr>cl := routing_fresh, worker := AtLoop\<rparr>)"
    by (simp add: s0_def set_cl_def OnMessageOpen_def routing_fresh_def)
  have no: "channels_of routing_fresh = {}" by (simp add: channels_of_def routing_fresh_def client_init_def)
  from reach_run_worker [OF 1 w, of 2] routing_run1 no obtain M where
    "?R (s0\<lparr>cl := routing_waiting, worker := AtJoinWait [] (ThenConnect ''bob'' ''r'' [routing_spec]), made := M\<rparr>)"
    by auto
  from step [OF this cs_message [OF w, of _ "''j''"]] routing_join
  have 2: "?R (s0\<lparr>cl := routing_joined, worker := AtJoinWait [] (ThenConnect ''bob'' ''r'' [routing_spec]), made := M\<rparr>)"
    by (simp add: set_cl_again)
  have no2: "channels_of routing_joined = {}"
    by (simp add: channels_of_def routing_joined_def routing_waiting_def routing_fresh_def client_init_def)
  obtain c where c: "run_worker routing_env 8 (AtJoinWait [] (ThenConnect ''bob'' ''r'' [routing_spec])) routing_joined =
      Some (AtOfferCheck True [], c)" "m_dataChannels c = [(''bob'', ''r'') \<mapsto> routing_channel]" "m_Items (queues c 2) = []"
      "m_pendingOffers c = [generateUUID (replicate 16 0) \<mapsto> \<lparr>key = (''bob'', ''r''), offer_path = ''f''\<rparr>]"
      "files c = files routing_fresh"
    using routing_run2 by blast
  from reach_run_worker [OF 2 w, of 8] c(1) no2 obtain M2 where M2: "channels_of c \<subseteq> M2"
    and 3: "?R (s0\<lparr>cl := c, worker := AtOfferCheck True [], made := M2\<rparr>)" by auto
  have nf: "c_str (generateUUID (replicate 16 0)) = generateUUID (replicate 16 0)"
    using generateUUID_chars [of "replicate 16 0"] by (intro c_str_id) (auto simp: nul_free_def)
  have "route ''file_accept'' = Some HFileAccept" by simp
  then have "client_message routing_env routing_parse ''a'' c =
      OnFileAccept [(''type'', JStr ''file_accept''), (''uuid'', JStr (generateUUID (replicate 16 0)))] c"
    by (simp add: client_message_def MessageRouter_def routing_parse_def string_at_def get_string_def c_str_def)
  moreover obtain d where d: "OnFileAccept [(''type'', JStr ''file_accept''), (''uuid'', JStr (generateUUID (replicate 16 0)))] c = Some d"
      "m_Items (queues d 2) = [''f'']" "files d = files routing_fresh"
    using c(2-5) nf by (simp add: OnFileAccept_def TakePendingOffer_def string_at_def get_string_def routing_channel_def
        AddItem_def release_wait_def)
  ultimately have "client_message routing_env routing_parse ''a'' c = Some d" by simp
  with step [OF 3 cs_message [OF w, of _ "''a''"]]
  have 4: "?R (s0\<lparr>cl := d, worker := AtOfferCheck True [], made := M2\<rparr>)" by (simp add: set_cl_again)
  have "((''bob'', ''r''), 2) \<in> M2" using M2 c(2) by (auto simp: channels_of_def routing_channel_def)
  with 4 d show ?thesis by (intro exI [of _ "s0\<lparr>cl := d, worker := AtOfferCheck True [], made := M2\<rparr>"]) (simp add: s0_def)
qed

theorem files_go_where_asked_witness:
  "\<exists>s t. reach (client_started routing_bag) (any_step ''/w'' routing_parse) s \<and>
     client_step ''/w'' routing_parse (Took (''bob'', ''r'') ''f'') s t \<and> routing_spec \<in> asked s"
proof -
  obtain s where s: "reach (client_started routing_bag) (any_step ''/w'' routing_parse) s" "((''bob'', ''r''), 2) \<in> made s"
      "busy s = Map.empty" "m_Items (queues (cl s) 2) = [''f'']"
    using routing_queued by blast
  have n: "busy s 2 = None" by (simp add: s(3))
  have g: "GetItem (queues (cl s) 2) = Some (''f'', (queues (cl s) 2)\<lparr>m_Items := []\<rparr>)" by (simp add: GetItem_def s(4))
  obtain t where t: "client_step ''/w'' routing_parse (Took (''bob'', ''r'') ''f'') s t" using cs_take [OF s(2) n g] by blast
  from files_go_where_asked [OF s(1) t] have "routing_spec \<in> asked s" by (elim conjE) (simp only: fst_conv snd_conv)
  with s(1) t show ?thesis by (intro exI conjI)
qed

text \<open>The sending thread takes it and opens the file.\<close>

lemma routing_reading:
  "\<exists>s fd. reach (client_started routing_bag) (any_step ''/w'' routing_parse) s \<and> busy s 2 = Some (Reading ''f'' fd) \<and>
     worker s = AtOfferCheck True []"
proof -
  obtain s where s: "reach (client_started routing_bag) (any_step ''/w'' routing_parse) s" "((''bob'', ''r''), 2) \<in> made s"
      "busy s = Map.empty" "m_Items (queues (cl s) 2) = [''f'']" "files (cl s) = files routing_fresh" "worker s = AtOfferCheck True []"
    using routing_queued by blast
  have n: "busy s 2 = None" by (simp add: s(3))
  have g: "GetItem (queues (cl s) 2) = Some (''f'', (queues (cl s) 2)\<lparr>m_Items := []\<rparr>)" by (simp add: GetItem_def s(4))
  have step: "reach (client_started routing_bag) (any_step ''/w'' routing_parse) v"
    if "reach (client_started routing_bag) (any_step ''/w'' routing_parse) u" "client_step ''/w'' routing_parse e u v" for u v e
    using reach_step [OF that(1)] that(2) by (auto simp: any_step_def)
  let ?t = "set_cl ((cl s)\<lparr>queues := (queues (cl s))(2 := (queues (cl s) 2)\<lparr>m_Items := []\<rparr>)\<rparr>) s\<lparr>busy := (busy s)(2 \<mapsto> Taken ''f'')\<rparr>"
  have t: "reach (client_started routing_bag) (any_step ''/w'' routing_parse) ?t"
    using step [OF s(1) cs_take [OF s(2) n g, where goes_on = True]] by simp
  have w: "cwd routing_env = ''/w''" by (simp add: routing_env_def demo_env_def)
  have "files (cl ?t) = fsys_init\<lparr>disk := [[''w'', ''f''] \<mapsto> ''hello'']\<rparr>" using s(5) by (simp add: set_cl_def routing_fresh_def)
  then have "\<exists>content fd fs. LockedIfstream_open (openable routing_env) (resolve ''/w'' ''f'') (files (cl ?t)) = Some (content, Some fd, fs)"
    by (simp add: LockedIfstream_open_def Acquire_def Release_def lock_conflict_def fsys_init_def routing_env_def demo_env_def
        demo_transfer_defs resolve_def)
  then obtain content fd fs where
    opened: "LockedIfstream_open (openable routing_env) (resolve ''/w'' ''f'') (files (cl ?t)) = Some (content, Some fd, fs)" by blast
  have "busy ?t 2 = Some (Taken ''f'')" by simp
  from step [OF t cs_read [OF w this opened]] show ?thesis
    by (intro exI [of _ "set_files fs ?t\<lparr>busy := (busy ?t)(2 := map_option (Reading ''f'') (Some fd))\<rparr>"] exI [of _ fd] conjI)
      (simp_all add: s(6))
qed

end
