(* ===== verification/Main_Program.thy ===== *)
theory Main_Program
  imports Transfer_Isolation File_Routing Stop_Token Port_Client Signal_Server
begin

text \<open>
  \<open>src/CloudNode.cpp\<close>: the program as a whole. \<open>program\<close> is \<open>main\<close>'s place and local objects: the stop
  token, the settings, the client (\<open>Client_System\<close>) with its connecting transport (\<open>Port_Client\<close>), or the
  server (\<open>Signal_Server\<close>) with its listening one, and the directory watcher. \<open>main_step\<close> is the next
  statement of \<open>main\<close>, \<open>None\<close> while it waits in a \<open>join\<close>; \<open>program_step\<close> interleaves it with the threads
  it started (the watcher's, the transport's, the worker, the event loop, the detached senders), the
  callbacks of sockets and peers, and interrupts. \<open>M_broken\<close> is undefined behaviour or \<open>std::terminate\<close>.
\<close>

datatype main_pc =
    M_args
  | M_start
  | M_watch
  | M_poll
  | M_watch_stop
  | M_watch_join
  | M_stop
  | M_port_stop
  | M_port_join
  | M_worker_join
  | M_destroy
  | M_exit int
  | M_broken

text \<open>The watcher's thread: at the head of its loop, in \<open>poll\<close>, before \<open>FlushIfQuiet\<close>, in its callbacks.\<close>

datatype watch_pc = W_none | W_head | W_poll | W_flush | W_calls "(fpath \<times> FileChange) list" | W_done

datatype loop_pc = L_none | L_listen | L_run | L_exit

text \<open>The handler of a socket's event that has set the flags and has yet to call the session.\<close>

datatype socket_call = Opened | Closed

record program =
  main :: main_pc
  token :: stop_token
  props :: PropertyBag
  directory :: string
  is_server :: bool
  node :: client_sys
  link :: port_client
  calling :: "socket_call option"
  srv :: server
  loop :: loop_pc
  deferred :: bool \<comment> \<open>the event loop has the task of \<open>Stop\<close> to run\<close>
  watch :: watcher
  watcher_thread :: watch_pc

text \<open>
  What is outside: the working directory, the JSON library, \<open>getopt_long\<close>'s options, the random name, and
  what \<open>try_lock\<close> answers the thread that owns the mutex. The C++ standard leaves that undefined; POSIX
  lets a default mutex answer \<open>False\<close>.
\<close>

record host =
  h_cwd :: string
  h_parse :: "string \<Rightarrow> json option"
  h_writer :: "json \<Rightarrow> string"
  h_sent :: "ws \<Rightarrow> string \<Rightarrow> bool"
  h_options :: "(cl_option \<times> string) list"
  h_name :: string
  h_own_try :: "bool call"

definition SIGINT :: int where "SIGINT = 2"

definition signalHandler :: "int \<Rightarrow> thread \<Rightarrow> stop_token \<Rightarrow> stop_token call" where
  "signalHandler signalNum t m = (if signalNum = SIGINT then RequestStop t m else Done m)"

text \<open>\<open>StopRequested\<close> where the answer to the owner is given.\<close>

definition poll_stop :: "bool call \<Rightarrow> bool \<Rightarrow> thread \<Rightarrow> stop_token \<Rightarrow> (bool \<times> stop_token) call" where
  "poll_stop own spurious t m = (if m = Some t
     then (case own of Done b \<Rightarrow> Done (b, if b then None else m) | Blocks \<Rightarrow> Blocks | Undefined \<Rightarrow> Undefined)
     else StopRequested spurious t m)"

lemma poll_stop_standard: "poll_stop Undefined spurious t m = StopRequested spurious t m"
  by (simp add: poll_stop_def stop_token_defs)

section \<open>The statements of main\<close>

abbreviation main_thread :: thread where "main_thread \<equiv> 0"

definition fresh_client :: "PropertyBag \<Rightarrow> client_sys" where
  "fresh_client b = \<lparr>cl = client_init b, worker = AtDone, made = {}, busy = Map.empty, foreign = {},
     asked = {f. \<exists>specs. initial_specs (client_init b) = Some (Some specs) \<and> f \<in> set specs}\<rparr>"

text \<open>The token, started, and the handler installed.\<close>

definition program_init :: program where
  "program_init = \<lparr>main = M_args,
     token = (case Start main_thread CreateStopToken of Done m \<Rightarrow> m | _ \<Rightarrow> CreateStopToken),
     props = Map.empty, directory = [], is_server = False, node = fresh_client Map.empty, link = port_client_init,
     calling = None, srv = server_init port_server_init, loop = L_none, deferred = False, watch = watcher_init,
     watcher_thread = W_none\<rparr>"

text \<open>The parser, the settings, \<open>WebRTC::Create\<close> and the callback.\<close>

definition main_configure :: "host \<Rightarrow> program \<Rightarrow> program" where
  "main_configure H p = (case Cmdline (h_options H) of
     Undefined_number \<Rightarrow> p\<lparr>main := M_broken\<rparr>
   | Exited ok \<Rightarrow> p\<lparr>main := M_exit (if ok then 0 else 1)\<rparr>
   | Parsed params \<Rightarrow>
       (let properties = main_properties params (h_name H) in
        case Create_is_server properties of
          Inl e \<Rightarrow> p\<lparr>main := M_broken\<rparr>
        | Inr server \<Rightarrow>
            p\<lparr>main := M_start, props := properties, directory := p_directory params, is_server := server,
              node := fresh_client properties,
              watch := if \<not> server \<and> p_directory params \<noteq> [] then OnFile 10000 watcher_init else watcher_init\<rparr>))"

text \<open>\<open>webRTC->Start()\<close>: an exception of a missing setting is \<open>None\<close>, like assigning to a joinable thread.\<close>

definition WebRTC_Start :: "program \<Rightarrow> (bool \<times> program) option" where
  "WebRTC_Start p = (case start_transport (props p) of
     Inl e \<Rightarrow> None
   | Inr (delay, address, port) \<Rightarrow>
       if is_server p then map_option (\<lambda>(ok, n). (ok, p\<lparr>srv := (srv p)\<lparr>net := n\<rparr>, loop := if ok then L_listen else loop p\<rparr>))
         (PortServer_Start (net (srv p)))
       else map_option (\<lambda>(ok, l). (ok, p\<lparr>link := l\<rparr>))
         (PortClient_Start (case delay of None \<Rightarrow> link p | Some d \<Rightarrow> PortClient_SetReconnectDelay d (link p))))"

definition session_Start :: "program \<Rightarrow> (bool \<times> program) option" where
  "session_Start p = (if is_server p then WebRTC_Start p
     else map_option (\<lambda>(ok, q). (ok, q\<lparr>node := (node q)\<lparr>worker := if ok then AtLoop else worker (node q)\<rparr>\<rparr>))
       (WebRTC_Start (p\<lparr>node := set_cl (Start_session (cl (node p))) (node p)\<rparr>)))"

text \<open>\<open>webRTC->Stop()\<close> of the client up to the transport, the transport's flags, and its join.\<close>

definition session_stop :: "program \<Rightarrow> program" where
  "session_stop p = (if is_server p then p else p\<lparr>node := set_cl (Stop_session (cl (node p))) (node p)\<rparr>)"

definition port_stop :: "program \<Rightarrow> program" where
  "port_stop p = (if is_server p
     then (case PortServer_Stop_flags (net (srv p)) of (already, n) \<Rightarrow>
       p\<lparr>srv := (srv p)\<lparr>net := n\<rparr>, deferred := \<not> already \<and> m_listenSocket n,
         main := if already then M_worker_join else M_port_join\<rparr>)
     else p\<lparr>link := PortClient_Stop_flags (link p), main := M_port_join\<rparr>)"

definition port_join :: "program \<Rightarrow> program option" where
  "port_join p = (if is_server p
     then if \<not> m_serverThread (net (srv p)) then Some (p\<lparr>main := M_worker_join\<rparr>)
       else if loop p = L_exit
       then Some (p\<lparr>srv := (srv p)\<lparr>net := (net (srv p))\<lparr>m_serverThread := False\<rparr>\<rparr>, loop := L_none, main := M_worker_join\<rparr>)
       else None
     else map_option (\<lambda>l. p\<lparr>link := l, main := M_worker_join\<rparr>) (PortClient_Stop_join (link p)))"

text \<open>The outcomes of what \<open>main\<close> asks: the mutex, the kernel, the clock.\<close>

record choice =
  spurious :: bool
  kernel :: world
  now :: int
  root_is_dir :: bool
  inotify_ok :: bool

definition main_step :: "host \<Rightarrow> choice \<Rightarrow> program \<Rightarrow> program option" where
  "main_step H ch p = (case main p of
     M_args \<Rightarrow> Some (main_configure H p)
   | M_start \<Rightarrow> Some (case session_Start p of None \<Rightarrow> p\<lparr>main := M_broken\<rparr>
       | Some (ok, q) \<Rightarrow> q\<lparr>main := if ok then M_watch else M_destroy\<rparr>)
   | M_watch \<Rightarrow> Some (if \<not> is_server p \<and> directory p \<noteq> []
       then (case watcher_start (kernel ch) (now ch) [] (root_is_dir ch) (inotify_ok ch) (watch p) of (ok, w) \<Rightarrow>
         p\<lparr>watch := w, watcher_thread := if ok then W_head else watcher_thread p, main := M_poll\<rparr>)
       else p\<lparr>main := M_poll\<rparr>)
   | M_poll \<Rightarrow> (case poll_stop (h_own_try H) (spurious ch) main_thread (token p) of
       Done (stop, m) \<Rightarrow>
         Some (p\<lparr>token := m, main := if main_goes_on stop (is_server p) (cl (node p)) then M_poll else M_watch_stop\<rparr>)
     | Blocks \<Rightarrow> None
     | Undefined \<Rightarrow> Some (p\<lparr>main := M_broken\<rparr>))
   | M_watch_stop \<Rightarrow> Some (if m_running (watch p)
       then p\<lparr>watch := watcher_stop (watch p), main := M_watch_join\<rparr> else p\<lparr>main := M_stop\<rparr>)
   | M_watch_join \<Rightarrow> if watcher_thread p \<in> {W_none, W_done} then Some (p\<lparr>watcher_thread := W_none, main := M_stop\<rparr>) else None
   | M_stop \<Rightarrow> Some ((session_stop p)\<lparr>main := M_port_stop\<rparr>)
   | M_port_stop \<Rightarrow> Some (port_stop p)
   | M_port_join \<Rightarrow> port_join p
   | M_worker_join \<Rightarrow> if worker (node p) = AtDone then Some (p\<lparr>main := M_destroy\<rparr>) else None
   | M_destroy \<Rightarrow> Some ((port_stop (session_stop p))\<lparr>main := M_exit 0\<rparr>)
   | M_exit n \<Rightarrow> None
   | M_broken \<Rightarrow> None)"

section \<open>The threads\<close>

datatype actor = By_main | By_watcher | By_port | By_worker | By_loop | By_sender | By_outside | By_signal

text \<open>
  The events of the client that neither \<open>main\<close>, its callback, the worker nor the transport causes; they
  come to a started session (the disk is empty before that, and filled by the first of them).
\<close>

fun peer_event :: "sys_event \<Rightarrow> bool" where
  "peer_event (Chunk E k b) = True"
| "peer_event Callback = True"
| "peer_event (Took k path) = True"
| "peer_event Sender = True"
| "peer_event Foreign = True"
| "peer_event (Outside path content) = True"
| "peer_event _ = False"

definition alive :: "program \<Rightarrow> bool" where
  "alive p \<longleftrightarrow> main p \<notin> {M_args, M_start, M_broken} \<and> (\<forall>n. main p \<noteq> M_exit n)"

definition call_back :: "env \<Rightarrow> string \<Rightarrow> FileChange \<Rightarrow> client_sys \<Rightarrow> client_sys" where
  "call_back E path change s = set_cl (on_directory_change E path change (cl s)) s
     \<lparr>asked := asked s \<union> set (requests (cl s) path)\<rparr>"

text \<open>The task \<open>Stop\<close> defers to the event loop: the close handler of every tracked socket runs.\<close>

definition shut_down :: "(json \<Rightarrow> string) \<Rightarrow> server \<Rightarrow> server option" where
  "shut_down writer s = (let connected = clients (net s) in
     each (\<lambda>cid. server_close writer (the (connected cid))) (map_keys connected) (s\<lparr>net := (net s)\<lparr>m_listenSocket := False\<rparr>\<rparr>))"

definition port_name :: "program \<Rightarrow> string" where
  "port_name p = (case Get_string (props p) ''name'' of Inl e \<Rightarrow> [] | Inr n \<Rightarrow> n)"

inductive program_step :: "host \<Rightarrow> actor \<Rightarrow> program \<Rightarrow> program \<Rightarrow> bool" for H :: host where
  ps_main: "main_step H ch p = Some q \<Longrightarrow> program_step H By_main p q"
| ps_signal: "main p \<noteq> M_broken \<Longrightarrow> (\<forall>n. main p \<noteq> M_exit n) \<Longrightarrow>
     program_step H By_signal p (case signalHandler num t (token p) of Done m \<Rightarrow> p\<lparr>token := m\<rparr> | _ \<Rightarrow> p\<lparr>main := M_broken\<rparr>)"
| pw_head: "watcher_thread p = W_head \<Longrightarrow>
     program_step H By_watcher p (p\<lparr>watcher_thread := if m_running (watch p) then W_poll else W_done\<rparr>)"
| pw_woken: "watcher_thread p = W_poll \<Longrightarrow> \<not> m_running (watch p) \<Longrightarrow>
     program_step H By_watcher p (p\<lparr>watcher_thread := W_done\<rparr>)"
| pw_failed: "watcher_thread p = W_poll \<Longrightarrow> program_step H By_outside p (p\<lparr>watcher_thread := if eintr then W_head else W_done\<rparr>)"
| pw_events: "watcher_thread p = W_poll \<Longrightarrow>
     program_step H By_outside p (p\<lparr>watch := HandleEvents W ms evs (watch p), watcher_thread := W_flush\<rparr>)"
| pw_flush: "watcher_thread p = W_flush \<Longrightarrow> w = FlushIfQuiet ms (watch p) \<Longrightarrow>
     program_step H By_watcher p (p\<lparr>watch := w, watcher_thread := W_calls (drop (length (delivered (watch p))) (delivered w))\<rparr>)"
| pw_call: "watcher_thread p = W_calls ((f, change) # rest) \<Longrightarrow> cwd (E :: env) = h_cwd H \<Longrightarrow>
     program_step H By_watcher p
       (p\<lparr>node := call_back E (watched_path (directory p) f) change (node p), watcher_thread := W_calls rest\<rparr>)"
| pw_round: "watcher_thread p = W_calls [] \<Longrightarrow> program_step H By_watcher p (p\<lparr>watcher_thread := W_head\<rparr>)"
| pl_thread: "thread_step waited (link p) = Some l \<Longrightarrow> (at (link p) \<in> {At_stop, At_check} \<longrightarrow> calling p = None) \<Longrightarrow>
     program_step H By_port p
       (p\<lparr>link := l, calling := if at (link p) = At_stop \<and> phase (link p) = Some Ix_open then Some Closed else calling p\<rparr>)"
| pl_open: "phase (link p) = Some Ix_connecting \<Longrightarrow> calling p = None \<Longrightarrow>
     program_step H By_outside p (p\<lparr>link := on_ix_open (link p), calling := Some Opened\<rparr>)"
| pl_error: "phase (link p) = Some Ix_connecting \<Longrightarrow> calling p = None \<Longrightarrow>
     program_step H By_outside p (p\<lparr>link := on_ix_error (link p)\<rparr>)"
| pl_close: "phase (link p) = Some Ix_open \<Longrightarrow> calling p = None \<Longrightarrow>
     program_step H By_outside p (p\<lparr>link := on_ix_close (link p), calling := Some Closed\<rparr>)"
| pl_opened: "calling p = Some Opened \<Longrightarrow>
     program_step H By_port p (p\<lparr>node := set_cl (OnMessageOpen (port_name p) (cl (node p))) (node p), calling := None\<rparr>)"
| pl_closed: "calling p = Some Closed \<Longrightarrow>
     program_step H By_port p (p\<lparr>node := set_cl (OnMessageClose (cl (node p))) (node p), calling := None\<rparr>)"
| pl_message: "phase (link p) = Some Ix_open \<Longrightarrow> calling p = None \<Longrightarrow> cwd E = h_cwd H \<Longrightarrow>
     program_step H By_outside p (case client_message E (h_parse H) input (cl (node p)) of
       None \<Rightarrow> p\<lparr>main := M_broken\<rparr> | Some c \<Rightarrow> p\<lparr>node := set_cl c (node p)\<rparr>)"
| pk_worker: "cwd E = h_cwd H \<Longrightarrow> worker_step E timed_out (worker (node p)) (cl (node p)) = Next w c \<Longrightarrow>
     program_step H By_worker p (p\<lparr>node := (node p)\<lparr>cl := c, worker := w, made := made (node p) \<union> channels_of c\<rparr>\<rparr>)"
| pk_crash: "cwd E = h_cwd H \<Longrightarrow> worker_step E timed_out (worker (node p)) (cl (node p)) = Crashed \<Longrightarrow>
     program_step H By_worker p (p\<lparr>main := M_broken\<rparr>)"
| pk_peer: "alive p \<Longrightarrow> \<not> is_server p \<Longrightarrow> peer_event e \<Longrightarrow> client_step (h_cwd H) (h_parse H) e (node p) s \<Longrightarrow>
     program_step H By_outside p (p\<lparr>node := s\<rparr>)"
| pk_thrown: "alive p \<Longrightarrow> busy (node p) q = Some (Reading path fd) \<Longrightarrow> Get_int (props p) ''maxMessageSize'' = Inr m \<Longrightarrow>
     max_buffer < message_size m \<Longrightarrow> program_step H By_sender p (p\<lparr>main := M_broken\<rparr>)"
| pk_dangling: "main p = M_exit n \<Longrightarrow> busy (node p) q = Some (Reading path fd) \<Longrightarrow>
     program_step H By_sender p (p\<lparr>main := M_broken\<rparr>)"
| pv_listen: "loop p = L_listen \<Longrightarrow>
     program_step H By_loop p
       (p\<lparr>srv := (srv p)\<lparr>net := PortServer_listen ok (net (srv p))\<rparr>, loop := if ok then L_run else L_exit\<rparr>)"
| pv_event: "loop p = L_run \<Longrightarrow> server_step (h_sent H) (h_writer H) (h_parse H) (srv p) s \<Longrightarrow>
     m_listenSocket (net (srv p)) \<or> dom (ws_data (net s)) \<subseteq> dom (ws_data (net (srv p))) \<Longrightarrow>
     program_step H By_outside p (p\<lparr>srv := s\<rparr>)"
| pv_crash: "loop p = L_run \<Longrightarrow> ws_data (net (srv p)) w \<noteq> None \<Longrightarrow>
     server_message (h_sent H) (h_writer H) (h_parse H) w text (srv p) = None \<or> server_close (h_writer H) w (srv p) = None \<Longrightarrow>
     program_step H By_outside p (p\<lparr>main := M_broken\<rparr>)"
| pv_deferred: "loop p = L_run \<Longrightarrow> deferred p \<Longrightarrow>
     program_step H By_loop p (case shut_down (h_writer H) (srv p) of
       None \<Rightarrow> p\<lparr>main := M_broken\<rparr> | Some s \<Rightarrow> p\<lparr>srv := s, deferred := False\<rparr>)"
| pv_exit: "loop p = L_run \<Longrightarrow> \<not> m_listenSocket (net (srv p)) \<Longrightarrow> ws_data (net (srv p)) = Map.empty \<Longrightarrow>
     program_step H By_loop p (p\<lparr>loop := L_exit\<rparr>)"

definition some_step :: "host \<Rightarrow> program \<Rightarrow> program \<Rightarrow> bool" where
  "some_step H p q \<longleftrightarrow> (\<exists>a. program_step H a p q)"

end
