(* ===== verification/Main_Properties.thy ===== *)
theory Main_Properties
  imports Main_Program Server_Facts
begin

text \<open>
  Properties of the program as a whole (\<open>Main_Program\<close>): its client runs as \<open>Client_System\<close> says, the
  threads \<open>main\<close> starts end before the objects they use, an interrupt ends a client, and the runs in
  which the server does not end, or a detached sender uses a destroyed client.
\<close>

section \<open>The listener's flags\<close>

text \<open>No handler of the server touches the flags of its transport.\<close>

definition same_port :: "server \<Rightarrow> server \<Rightarrow> bool" where
  "same_port s t \<longleftrightarrow> m_isRunning (net t) = m_isRunning (net s) \<and> m_stopRequested (net t) = m_stopRequested (net s) \<and>
     m_serverThread (net t) = m_serverThread (net s) \<and> m_listenSocket (net t) = m_listenSocket (net s)"

lemma same_port_refl [simp]: "same_port s s"
  by (simp add: same_port_def)

lemma same_port_trans: "same_port s t \<Longrightarrow> same_port t u \<Longrightarrow> same_port s u"
  by (simp add: same_port_def)

lemma same_port_net: "net t = net s \<Longrightarrow> same_port s t"
  by (simp add: same_port_def)

lemma same_port_send: "send_to w m s = Some t \<Longrightarrow> same_port s t"
  by (auto simp: send_to_def ws_send_def same_port_def split: if_splits)

lemma same_port_rooms [simp]:
  "same_port s (snd (Leave p r s))" "same_port s (snd (Join p r s))" "same_port s (snd (room_index r s))"
  by (auto intro!: same_port_net simp: frame_simps)

lemma same_port_with_client:
  "with_client s k = Some t \<Longrightarrow> (\<And>w cid u. k w cid = Some u \<Longrightarrow> same_port s u) \<Longrightarrow> same_port s t"
  by (auto simp: with_client_def split: option.splits)

lemma same_port_each: "each f xs s = Some t \<Longrightarrow> (\<And>x u v. f x u = Some v \<Longrightarrow> same_port u v) \<Longrightarrow> same_port s t"
  by (rule each_rel [where R = same_port]) (auto intro: same_port_trans)

lemma same_port_Server_Leave: "Server_Leave writer p r s = Some t \<Longrightarrow> same_port s t"
proof -
  assume l: "Server_Leave writer p r s = Some t"
  obtain ps u where u: "room_index r (snd (Leave p r s)) = (ps, u)" by (cases "room_index r (snd (Leave p r s))")
  have "same_port (snd (Leave p r s)) u" using u same_port_rooms(3) [of "snd (Leave p r s)" r] by simp
  moreover have "same_port u t"
    using l u by (auto simp: Server_Leave_def SendLeaveNotification_def elim!: same_port_each
        intro: same_port_send split: option.splits)
  ultimately show ?thesis using same_port_rooms(1) same_port_trans by blast
qed

lemma same_port_HandleFile: "HandleFile sent_ok writer doc s = Some (b, t) \<Longrightarrow> same_port s t"
proof -
  assume h: "HandleFile sent_ok writer doc s = Some (b, t)"
  have r: "same_port s u" if "room_index r s = (ps, u)" for r ps u using that same_port_rooms(3) [of s r] by simp
  from h show ?thesis
    by (auto simp: HandleFile_def split: option.splits if_splits prod.splits
        intro: r same_port_trans [OF r same_port_send])
qed

lemma same_port_Server_OnJoin: "Server_OnJoin writer doc s = Some t \<Longrightarrow> same_port s t"
proof -
  have j: "same_port s u" if "Join p r s = (b, u)" for p r b u using that same_port_rooms(2) [of s p r] by simp
  have e: "same_port u t" if "each (\<lambda>x. SendJoinNotification writer x p r ps) xs (u\<lparr>m_clientDB := db\<rparr>) = Some t" for p r ps xs u db t
  proof -
    have "same_port (u\<lparr>m_clientDB := db\<rparr>) t"
      using that by (rule same_port_each) (auto simp: SendJoinNotification_def intro: same_port_send split: option.splits)
    then show ?thesis by (simp add: same_port_def)
  qed
  assume "Server_OnJoin writer doc s = Some t"
  then show ?thesis
    by (auto simp: Server_OnJoin_def Let_def elim!: same_port_with_client intro: j same_port_trans [OF j e]
        split: option.splits if_splits prod.splits)
qed

lemma same_port_handle: "server_handle sent_ok writer h doc s = Some t \<Longrightarrow> same_port s t"
  by (cases h) (auto simp: Server_OnLeave_def Server_OnFileAccept_def Server_OnFileReject_def Server_OnOffer_def Server_OnAnswer_def
    Server_OnCandidate_def Server_OnFileOffer_def Server_OnFileComplete_def Server_OnPingPong_def
    elim!: same_port_with_client split: option.splits if_splits
    intro: same_port_Server_OnJoin same_port_Server_Leave same_port_HandleFile same_port_send)

lemma same_port_close: "server_close writer w s = Some t \<Longrightarrow> same_port s t"
proof -
  assume "server_close writer w s = Some t"
  then obtain u where u: "Server_OnMessageClose writer (s\<lparr>m_currentWebSocket := Some w, net := PortServer_close w (net s)\<rparr>) = Some u"
      "t = u\<lparr>net := PortServer_free w (net u)\<rparr>" by (auto simp: server_close_def)
  have "same_port (s\<lparr>m_currentWebSocket := Some w, net := PortServer_close w (net s)\<rparr>) u"
    using u(1) by (auto simp: Server_OnMessageClose_def elim!: same_port_with_client same_port_each
        intro: same_port_Server_Leave split: if_splits)
  then show ?thesis by (auto simp: u(2) same_port_def PortServer_free_def PortServer_close_def split: option.splits)
qed

lemma same_port_step: "server_step sent_ok writer parse s t \<Longrightarrow> same_port s t"
proof (induction rule: server_step.induct)
  case (sv_open s w cid)
  then show ?case
    by (auto simp: server_open_def Server_OnMessageOpen_def same_port_def PortServer_open_def PortServer_upgrade_def split: option.splits)
next
  case (sv_message s w input t)
  have "same_port (s\<lparr>m_currentWebSocket := Some w\<rparr>) t"
    using sv_message(2) same_port_handle
    by (auto simp: server_message_def MessageRouter_def split: option.splits json.splits)
  then show ?case by (simp add: same_port_def)
qed (rule same_port_close)

lemma shut_down_port:
  assumes "shut_down writer s = Some t"
  shows "m_isRunning (net t) = m_isRunning (net s) \<and> m_stopRequested (net t) = m_stopRequested (net s) \<and>
    m_serverThread (net t) = m_serverThread (net s) \<and> \<not> m_listenSocket (net t)"
proof -
  have "same_port (s\<lparr>net := (net s)\<lparr>m_listenSocket := False\<rparr>\<rparr>) t"
    using assms unfolding shut_down_def Let_def by (rule same_port_each) (rule same_port_close)
  then show ?thesis by (simp add: same_port_def)
qed

section \<open>The invariant\<close>

definition client_ok :: "host \<Rightarrow> program \<Rightarrow> bool" where
  "client_ok H p \<longleftrightarrow> reach (client_started (props p)) (any_step (h_cwd H) (h_parse H)) (node p)"

abbreviation link_reach :: "port_client \<Rightarrow> bool" where
  "link_reach \<equiv> reach (\<lambda>l. l = port_client_init) port_client_step"

lemma link_reach_step: "link_reach l \<Longrightarrow> port_client_step l l' \<Longrightarrow> link_reach l'"
  by (rule reach_step)

definition link_ok :: "program \<Rightarrow> bool" where
  "link_ok p \<longleftrightarrow> link_reach (link p) \<and>
     (calling p \<noteq> None \<longrightarrow> at (link p) \<in> {At_wait, At_stop, At_check})"

text \<open>While which statements of \<open>main\<close> the watcher's thread, the transport's and the worker may run.\<close>

definition watching :: "main_pc set" where
  "watching = {M_poll, M_watch_stop, M_watch_join}"

definition linked :: "main_pc set" where
  "linked = {M_watch, M_poll, M_watch_stop, M_watch_join, M_stop, M_port_stop, M_port_join}"

definition working :: "main_pc set" where
  "working = insert M_worker_join linked"

lemmas main_pcs = watching_def linked_def working_def

definition threads_ok :: "program \<Rightarrow> bool" where
  "threads_ok p \<longleftrightarrow>
     (watcher_thread p \<noteq> W_none \<longrightarrow> main p \<in> watching) \<and>
     (at (link p) \<noteq> No_thread \<longrightarrow> main p \<in> linked) \<and>
     (worker (node p) \<noteq> AtDone \<longrightarrow> main p \<in> working) \<and>
     (loop p \<noteq> L_none \<longrightarrow> main p \<in> linked \<and> is_server p \<and> m_serverThread (net (srv p))) \<and>
     (watcher_thread p \<noteq> W_none \<and> main p \<noteq> M_watch_join \<longrightarrow> m_running (watch p)) \<and>
     (main p = M_args \<or> main p = M_start \<longrightarrow> link p = port_client_init \<and> net (srv p) = port_server_init \<and> node p = fresh_client (props p)) \<and>
     (is_server p \<longrightarrow> link p = port_client_init \<and> node p = fresh_client (props p) \<and> watcher_thread p = W_none)"

definition program_ok :: "host \<Rightarrow> program \<Rightarrow> bool" where
  "program_ok H p \<longleftrightarrow> client_ok H p \<and> link_ok p \<and> (main p = M_broken \<or> threads_ok p)"

lemma fresh_client_started: "client_started b (fresh_client b)"
  by (simp add: client_started_def fresh_client_def)

lemma fresh_client_reach [simp]: "reach (client_started b) (any_step D parse) (fresh_client b)"
  by (rule reach_init) (rule fresh_client_started)

lemma fresh_client_done [simp]: "worker (fresh_client b) = AtDone"
  by (simp add: fresh_client_def)

lemma port_client_init_at [simp]: "at port_client_init = No_thread" "phase port_client_init = None"
  by (simp_all add: port_client_init_def phase_def)

lemma program_ok_init: "program_ok H program_init"
  by (auto simp: program_ok_def client_ok_def link_ok_def threads_ok_def program_init_def main_pcs server_init_def
      intro: reach_init fresh_client_started)

text \<open>What \<open>main_step\<close> does to the client, and to the transport.\<close>

lemma client_ok_step:
  assumes "client_ok H p" and "client_step (h_cwd H) (h_parse H) e (node p) s" and "props q = props p" and "node q = s"
  shows "client_ok H q"
  using assms reach_step [OF assms(1) [unfolded client_ok_def]] by (auto simp: client_ok_def any_step_def)

lemma client_ok_props: "client_ok H p \<Longrightarrow> m_properties (cl (node p)) = props p"
proof -
  assume "client_ok H p"
  then have "sys_routed (props p) (node p)" unfolding client_ok_def by (rule routing.inv_reach)
  then show ?thesis using route_okD(1) by (auto simp: sys_routed_def)
qed

lemma client_ok_same: "client_ok H p \<Longrightarrow> props q = props p \<Longrightarrow> node q = node p \<Longrightarrow> client_ok H q"
  by (simp add: client_ok_def)

lemma WebRTC_Start_fields:
  "WebRTC_Start p = Some (ok, q) \<Longrightarrow> props q = props p \<and> node q = node p \<and> main q = main p \<and> is_server q = is_server p \<and>
     calling q = calling p \<and> watch q = watch p \<and> watcher_thread q = watcher_thread p"
  by (auto simp: WebRTC_Start_def split: sum.splits if_splits)

lemma WebRTC_Start_client:
  "WebRTC_Start p = Some (ok, q) \<Longrightarrow> link p = port_client_init \<Longrightarrow> \<not> is_server p \<Longrightarrow>
     ok \<and> srv q = srv p \<and> loop q = loop p \<and> at (link q) = At_make \<and>
     link_reach (link q)"
proof -
  assume a: "WebRTC_Start p = Some (ok, q)" "link p = port_client_init" "\<not> is_server p"
  have start: "ok \<and> at l' = At_make \<and> link_reach l'"
    if "PortClient_Start l = Some (ok, l')" "link_reach l" "\<not> m_isRunning l" "\<not> m_serverThread l" for l l'
    using that reach_step [OF that(2) pc_start [OF that(1)]] by (auto simp: PortClient_Start_def)
  have "link_reach port_client_init" by (rule reach_init) simp
  moreover from this have "link_reach (PortClient_SetReconnectDelay d port_client_init)" for d
    by (rule reach_step) (rule pc_delay)
  ultimately show ?thesis
    using a by (auto simp: WebRTC_Start_def PortClient_SetReconnectDelay_def port_client_init_def
        split: sum.splits option.splits dest!: start)
qed

lemma WebRTC_Start_server:
  "WebRTC_Start p = Some (ok, q) \<Longrightarrow> net (srv p) = port_server_init \<Longrightarrow> is_server p \<Longrightarrow>
     ok \<and> link q = link p \<and> loop q = L_listen \<and> m_serverThread (net (srv q))"
  by (auto simp: WebRTC_Start_def PortServer_Start_def port_server_init_def split: sum.splits)

lemma session_Start_client:
  assumes "session_Start p = Some (ok, q)" and "link p = port_client_init" and "\<not> is_server p"
  shows "ok \<and> props q = props p \<and> main q = main p \<and> is_server q = is_server p \<and> calling q = calling p \<and>
    watcher_thread q = watcher_thread p \<and> loop q = loop p \<and> srv q = srv p \<and> at (link q) = At_make \<and>
    link_reach (link q) \<and>
    node q = set_cl (Start_session (cl (node p))) (node p)\<lparr>worker := AtLoop\<rparr>"
proof -
  let ?p = "p\<lparr>node := set_cl (Start_session (cl (node p))) (node p)\<rparr>"
  obtain r where r: "WebRTC_Start ?p = Some (ok, r)" "q = r\<lparr>node := (node r)\<lparr>worker := if ok then AtLoop else worker (node r)\<rparr>\<rparr>"
    using assms(1,3) by (auto simp: session_Start_def)
  from WebRTC_Start_fields [OF r(1)] WebRTC_Start_client [OF r(1)] assms(2,3) show ?thesis by (simp add: r(2))
qed

lemma session_Start_server:
  assumes "session_Start p = Some (ok, q)" and "net (srv p) = port_server_init" and "is_server p"
  shows "ok \<and> props q = props p \<and> main q = main p \<and> is_server q = is_server p \<and> calling q = calling p \<and>
    watcher_thread q = watcher_thread p \<and> loop q = L_listen \<and> m_serverThread (net (srv q)) \<and> link q = link p \<and> node q = node p"
  using assms WebRTC_Start_fields [of p ok q] WebRTC_Start_server [of p ok q] by (simp add: session_Start_def)

lemma session_stop_fields [simp]:
  "main (session_stop p) = main p" "props (session_stop p) = props p" "link (session_stop p) = link p"
  "calling (session_stop p) = calling p" "srv (session_stop p) = srv p" "loop (session_stop p) = loop p"
  "watch (session_stop p) = watch p" "watcher_thread (session_stop p) = watcher_thread p"
  "is_server (session_stop p) = is_server p" "worker (node (session_stop p)) = worker (node p)"
  "is_server p \<Longrightarrow> node (session_stop p) = node p"
  by (simp_all add: session_stop_def)

lemma port_stop_fields [simp]:
  "props (port_stop p) = props p" "node (port_stop p) = node p" "calling (port_stop p) = calling p"
  "loop (port_stop p) = loop p" "watch (port_stop p) = watch p" "watcher_thread (port_stop p) = watcher_thread p"
  "is_server (port_stop p) = is_server p" "at (link (port_stop p)) = at (link p)"
  "m_serverThread (net (srv (port_stop p))) = m_serverThread (net (srv p))" "is_server p \<Longrightarrow> link (port_stop p) = link p"
  by (auto simp: port_stop_def PortServer_Stop_flags_def PortClient_Stop_flags_def)

lemma client_ok_stop: "client_ok H p \<Longrightarrow> client_ok H (session_stop p)"
  using client_ok_step [of H p Session "set_cl (Stop_session (cl (node p))) (node p)" "session_stop p"] cs_stop
  by (auto simp: session_stop_def)

lemma link_ok_stop: "link_ok p \<Longrightarrow> link_ok (port_stop p)"
  using link_reach_step [OF _ pc_stop, of "link p"]
  by (auto simp: link_ok_def port_stop_def PortClient_Stop_flags_def PortServer_Stop_flags_def)

lemma link_ok_same: "link_ok p \<Longrightarrow> link q = link p \<Longrightarrow> calling q = calling p \<Longrightarrow> link_ok q"
  by (simp add: link_ok_def)

lemma client_ok_main:
  assumes "program_ok H p" and "main_step H ch p = Some q"
  shows "client_ok H q"
proof -
  have c: "client_ok H p" using assms(1) by (simp add: program_ok_def)
  note same = client_ok_same [OF c]
  show ?thesis
  proof (cases "main p")
    case M_args
    then show ?thesis using assms(2) c
      by (auto simp: main_step_def main_configure_def Let_def client_ok_def split: parse_result.splits sum.splits)
  next
    case M_start
    then have t: "link p = port_client_init" "net (srv p) = port_server_init" "worker (node p) = AtDone"
      using assms(1) by (auto simp: program_ok_def threads_ok_def)
    show ?thesis
    proof (cases "session_Start p")
      case None
      then have "q = p\<lparr>main := M_broken\<rparr>" using assms(2) M_start by (simp add: main_step_def)
      then show ?thesis using same by simp
    next
      case (Some r)
      then obtain ok r' where r: "session_Start p = Some (ok, r')" by (cases r) auto
      then have q: "q = r'\<lparr>main := if ok then M_watch else M_destroy\<rparr>" using assms(2) M_start by (simp add: main_step_def)
      show ?thesis
      proof (cases "is_server p")
        case True
        with session_Start_server [OF r t(2)] q same show ?thesis by simp
      next
        case False
        from session_Start_client [OF r t(1) False] show ?thesis
          by (intro client_ok_step [OF c cs_start [OF t(3)]]) (simp_all add: q)
      qed
    qed
  next
    case M_stop
    then have "q = (session_stop p)\<lparr>main := M_port_stop\<rparr>" using assms(2) by (simp add: main_step_def)
    then show ?thesis using client_ok_same [OF client_ok_stop [OF c]] by simp
  next
    case M_destroy
    then have "q = (port_stop (session_stop p))\<lparr>main := M_exit 0\<rparr>" using assms(2) by (simp add: main_step_def)
    then show ?thesis using client_ok_same [OF client_ok_stop [OF c]] by simp
  next
    case M_port_stop
    then show ?thesis using assms(2) by (auto simp: main_step_def intro: same)
  qed (use assms(2) in \<open>auto simp: main_step_def port_join_def split: if_splits prod.splits call.splits intro!: same\<close>)
qed

lemma link_ok_main:
  assumes "program_ok H p" and "main_step H ch p = Some q"
  shows "link_ok q"
proof -
  have l: "link_ok p" using assms(1) by (simp add: program_ok_def)
  note same = link_ok_same [OF l]
  show ?thesis
  proof (cases "main p")
    case M_args
    then show ?thesis using assms(2)
      by (auto simp: main_step_def main_configure_def Let_def split: parse_result.splits sum.splits intro: same)
  next
    case M_start
    then have t: "link p = port_client_init" "net (srv p) = port_server_init" "worker (node p) = AtDone"
      using assms(1) by (auto simp: program_ok_def threads_ok_def)
    have n: "calling p = None" using l t(1) by (auto simp: link_ok_def)
    show ?thesis
    proof (cases "session_Start p")
      case None
      then have "q = p\<lparr>main := M_broken\<rparr>" using assms(2) M_start by (simp add: main_step_def)
      then show ?thesis using same by simp
    next
      case (Some r)
      then obtain ok r' where r: "session_Start p = Some (ok, r')" by (cases r) auto
      then have q: "q = r'\<lparr>main := if ok then M_watch else M_destroy\<rparr>" using assms(2) M_start by (simp add: main_step_def)
      show ?thesis
      proof (cases "is_server p")
        case True
        with session_Start_server [OF r t(2)] q same show ?thesis by simp
      next
        case False
        from session_Start_client [OF r t(1) False] n show ?thesis by (simp add: link_ok_def q)
      qed
    qed
  next
    case M_destroy
    then have "q = (port_stop (session_stop p))\<lparr>main := M_exit 0\<rparr>" using assms(2) by (simp add: main_step_def)
    moreover have "link_ok (session_stop p)" using same by simp
    ultimately show ?thesis using link_ok_same [OF link_ok_stop] by simp
  next
    case M_port_stop
    then show ?thesis using assms(2) link_ok_stop [OF l] by (simp add: main_step_def)
  next
    case M_stop
    then show ?thesis using assms(2) by (auto simp: main_step_def intro: same)
  next
    case M_port_join
    show ?thesis
    proof (cases "is_server p")
      case True
      then show ?thesis using assms(2) M_port_join by (auto simp: main_step_def port_join_def split: if_splits intro: same)
    next
      case False
      then obtain l' where l': "PortClient_Stop_join (link p) = Some l'" "q = p\<lparr>link := l', main := M_worker_join\<rparr>"
        using assms(2) M_port_join by (auto simp: main_step_def port_join_def)
      have r: "link_reach (link p)" using l by (simp add: link_ok_def)
      then have i: "port_client_inv (link p)" by (rule pcl.inv_reach)
      show ?thesis
      proof (cases "m_serverThread (link p)")
        case True
        then have e: "at (link p) = At_exit" "at l' = No_thread" using l'(1) by (auto simp: PortClient_Stop_join_def split: if_splits)
        then have "m_stopRequested (link p)" using i by (simp add: port_client_inv_def)
        from link_reach_step [OF r pc_join [OF this l'(1)]] l e show ?thesis by (auto simp: link_ok_def l'(2))
      next
        case False
        then have "l' = link p" using l'(1) by (simp add: PortClient_Stop_join_def)
        then show ?thesis using l by (simp add: link_ok_def l'(2))
      qed
    qed
  qed (use assms(2) in \<open>auto simp: main_step_def split: if_splits prod.splits call.splits intro!: same\<close>)
qed

lemma Notify_running [simp]: "m_running (Notify ms f change w) = m_running w"
  by (simp add: Notify_def)

lemma AddWatchTree_running [simp]:
  "m_running (AddWatchTree aw ms report dir e w) = m_running w" "m_running (add_entries aw ms report dir es w) = m_running w"
  by (induction aw ms report dir e w and aw ms report dir es w rule: AddWatchTree_add_entries.induct)
    (auto split: option.splits)

lemma HandleEvents_running [simp]: "m_running (HandleEvents W ms evs w) = m_running w"
proof -
  have "m_running (handle_event W ms ev w) = m_running w" for ev w
    by (simp add: handle_event_def Let_def split: option.splits)
  then show ?thesis unfolding HandleEvents_def by (induction evs arbitrary: w) simp_all
qed

lemma FlushIfQuiet_running [simp]: "m_running (FlushIfQuiet ms w) = m_running w"
  by (simp add: FlushIfQuiet_def)

lemma watcher_start_running: "watcher_start W ms root d i w = (True, w') \<Longrightarrow> m_running w'"
  by (auto simp: watcher_start_def simp del: AddWatchTree.simps split: if_splits)

lemma threads_ok_main:
  assumes "program_ok H p" and "main_step H ch p = Some q"
  shows "main q = M_broken \<or> threads_ok q"
proof (cases "main p")
  case M_args
  then have t: "threads_ok p" using assms(1) by (simp add: program_ok_def)
  show ?thesis using assms(2) M_args t
    by (auto simp: main_step_def main_configure_def Let_def threads_ok_def main_pcs split: parse_result.splits sum.splits)
next
  case M_start
  then have t: "threads_ok p" using assms(1) by (simp add: program_ok_def)
  with M_start have i: "link p = port_client_init" "net (srv p) = port_server_init" by (simp_all add: threads_ok_def)
  show ?thesis
  proof (cases "session_Start p")
    case None
    then show ?thesis using assms(2) M_start by (auto simp: main_step_def)
  next
    case (Some r)
    then obtain ok r' where r: "session_Start p = Some (ok, r')" by (cases r) auto
    then have q: "q = r'\<lparr>main := if ok then M_watch else M_destroy\<rparr>" using assms(2) M_start by (simp add: main_step_def)
    show ?thesis
    proof (cases "is_server p")
      case True
      with session_Start_server [OF r i(2)] t M_start i show ?thesis by (simp add: q threads_ok_def main_pcs)
    next
      case False
      with session_Start_client [OF r i(1)] t M_start show ?thesis by (simp add: q threads_ok_def main_pcs)
    qed
  qed
next
  case M_watch
  then have t: "threads_ok p" using assms(1) by (simp add: program_ok_def)
  show ?thesis using assms(2) M_watch t
    by (auto simp: main_step_def threads_ok_def main_pcs dest: watcher_start_running split: if_splits prod.splits)
next
  case M_watch_stop
  then have t: "threads_ok p" using assms(1) by (simp add: program_ok_def)
  show ?thesis using assms(2) M_watch_stop t by (auto simp: main_step_def threads_ok_def main_pcs split: if_splits)
next
  case M_port_stop
  then have t: "threads_ok p" using assms(1) by (simp add: program_ok_def)
  have q: "q = port_stop p" using assms(2) M_port_stop by (simp add: main_step_def)
  show ?thesis
  proof (cases "is_server p \<and> \<not> m_serverThread (net (srv p))")
    case True
    then have "loop p = L_none" using t by (auto simp: threads_ok_def)
    with True have "main q = M_worker_join \<or> main q = M_port_join" "loop q = L_none"
      by (auto simp: q port_stop_def PortServer_Stop_flags_def)
    with True t M_port_stop show ?thesis by (elim disjE) (simp_all add: threads_ok_def main_pcs q)
  next
    case False
    then have "main q = M_port_join" by (auto simp: q port_stop_def PortServer_Stop_flags_def)
    with t M_port_stop show ?thesis unfolding q threads_ok_def by (simp add: main_pcs)
  qed
next
  case M_port_join
  then have t: "threads_ok p" using assms(1) by (simp add: program_ok_def)
  have i: "port_client_inv (link p)" using assms(1) pcl.inv_reach by (simp add: program_ok_def link_ok_def)
  have j: "port_join p = Some q" using assms(2) M_port_join by (simp add: main_step_def)
  show ?thesis
  proof (cases "is_server p")
    case True
    then have "loop q = L_none \<and> (\<exists>n. q = p\<lparr>srv := n, loop := L_none, main := M_worker_join\<rparr>) \<or>
        loop p = L_none \<and> q = p\<lparr>main := M_worker_join\<rparr>"
      using j t by (auto simp: port_join_def threads_ok_def split: if_splits)
    with True t M_port_join show ?thesis by (elim disjE conjE exE) (simp_all add: threads_ok_def main_pcs)
  next
    case False
    then obtain l where l: "PortClient_Stop_join (link p) = Some l" "q = p\<lparr>link := l, main := M_worker_join\<rparr>"
      using j by (auto simp: port_join_def)
    then have "at l = No_thread" using i by (auto simp: PortClient_Stop_join_def port_client_inv_def split: if_splits)
    moreover have "loop p = L_none" using t False by (auto simp: threads_ok_def)
    ultimately show ?thesis using t M_port_join False by (simp add: threads_ok_def main_pcs l(2))
  qed
next
  case M_destroy
  then have t: "threads_ok p" using assms(1) by (simp add: program_ok_def)
  have "q = (port_stop (session_stop p))\<lparr>main := M_exit 0\<rparr>" using assms(2) M_destroy by (simp add: main_step_def)
  then show ?thesis using t M_destroy by (simp add: threads_ok_def main_pcs)
next
  case M_poll
  then have t: "threads_ok p" using assms(1) by (simp add: program_ok_def)
  obtain m x where "q = p\<lparr>token := m, main := x\<rparr>" "x = M_poll \<or> x = M_watch_stop \<or> x = M_broken"
    using assms(2) M_poll by (cases p) (auto simp: main_step_def split: call.splits prod.splits)
  then show ?thesis using t M_poll by (elim disjE) (simp_all add: threads_ok_def main_pcs)
next
  case M_stop
  then have t: "threads_ok p" using assms(1) by (simp add: program_ok_def)
  have "q = (session_stop p)\<lparr>main := M_port_stop\<rparr>" using assms(2) M_stop by (simp add: main_step_def)
  then show ?thesis using t M_stop by (simp add: threads_ok_def main_pcs)
next
  case M_watch_join
  then have t: "threads_ok p" using assms(1) by (simp add: program_ok_def)
  have "q = p\<lparr>watcher_thread := W_none, main := M_stop\<rparr>" using assms(2) M_watch_join by (simp add: main_step_def split: if_splits)
  then show ?thesis using t M_watch_join by (simp add: threads_ok_def main_pcs)
next
  case M_worker_join
  then have t: "threads_ok p" using assms(1) by (simp add: program_ok_def)
  have "q = p\<lparr>main := M_destroy\<rparr>" "worker (node p) = AtDone" using assms(2) M_worker_join by (simp_all add: main_step_def split: if_splits)
  then show ?thesis using t M_worker_join by (simp add: threads_ok_def main_pcs)
qed (use assms(2) in \<open>simp_all add: main_step_def\<close>)

lemma program_ok_main: "program_ok H p \<Longrightarrow> main_step H ch p = Some q \<Longrightarrow> program_ok H q"
  using client_ok_main link_ok_main threads_ok_main unfolding program_ok_def by blast

section \<open>The other threads\<close>

text \<open>A step that is not \<open>main\<close>'s: the parts of the state it may touch.\<close>

lemma threads_ok_other:
  assumes "threads_ok p" and "main q = main p" and "watcher_thread p = W_none \<longrightarrow> watcher_thread q = W_none"
    and "at (link p) = No_thread \<longrightarrow> link q = link p" and "worker (node p) = AtDone \<longrightarrow> worker (node q) = AtDone"
    and "loop p = L_none \<longrightarrow> loop q = L_none \<and> net (srv q) = net (srv p)" and "m_serverThread (net (srv q)) = m_serverThread (net (srv p))"
    and "m_running (watch q) = m_running (watch p)" and "is_server q = is_server p" and "props q = props p"
    and "is_server p \<or> main p = M_args \<or> main p = M_start \<longrightarrow> node q = node p"
  shows "threads_ok q"
  using assms(1) unfolding threads_ok_def
proof (elim conjE, intro conjI)
  assume t: "watcher_thread p \<noteq> W_none \<longrightarrow> main p \<in> watching" "at (link p) \<noteq> No_thread \<longrightarrow> main p \<in> linked"
    "worker (node p) \<noteq> AtDone \<longrightarrow> main p \<in> working" "loop p \<noteq> L_none \<longrightarrow> main p \<in> linked \<and> is_server p \<and> m_serverThread (net (srv p))"
    "watcher_thread p \<noteq> W_none \<and> main p \<noteq> M_watch_join \<longrightarrow> m_running (watch p)"
    "main p = M_args \<or> main p = M_start \<longrightarrow> link p = port_client_init \<and> net (srv p) = port_server_init \<and> node p = fresh_client (props p)"
    "is_server p \<longrightarrow> link p = port_client_init \<and> node p = fresh_client (props p) \<and> watcher_thread p = W_none"
  show "watcher_thread q \<noteq> W_none \<longrightarrow> main q \<in> watching" using t(1) assms(2,3) by auto
  show "at (link q) \<noteq> No_thread \<longrightarrow> main q \<in> linked" using t(2) assms(2,4) by auto
  show "worker (node q) \<noteq> AtDone \<longrightarrow> main q \<in> working" using t(3) assms(2,5) by auto
  show "loop q \<noteq> L_none \<longrightarrow> main q \<in> linked \<and> is_server q \<and> m_serverThread (net (srv q))" using t(4) assms(2,6,7,9) by auto
  show "watcher_thread q \<noteq> W_none \<and> main q \<noteq> M_watch_join \<longrightarrow> m_running (watch q)" using t(5) assms(2,3,8) by auto
  show "main q = M_args \<or> main q = M_start \<longrightarrow> link q = port_client_init \<and> net (srv q) = port_server_init \<and> node q = fresh_client (props q)"
  proof
    assume "main q = M_args \<or> main q = M_start"
    then have m: "main p = M_args \<or> main p = M_start" using assms(2) by simp
    then have "main p \<notin> linked" by (auto simp: main_pcs)
    then have "loop p = L_none" using t(4) by blast
    moreover have "at (link p) = No_thread" using m t(6) by auto
    ultimately show "link q = port_client_init \<and> net (srv q) = port_server_init \<and> node q = fresh_client (props q)"
      using m t(6) assms(4,6,10,11) by simp
  qed
  show "is_server q \<longrightarrow> link q = port_client_init \<and> node q = fresh_client (props q) \<and> watcher_thread q = W_none"
    using t(7) assms(3,4,9,10,11) by auto
qed

lemma program_ok_other:
  assumes "program_ok H p" and "client_ok H q" and "link_ok q" and "main q = M_broken \<or> main q = main p"
    and "watcher_thread p = W_none \<longrightarrow> watcher_thread q = W_none"
    and "at (link p) = No_thread \<longrightarrow> link q = link p" and "worker (node p) = AtDone \<longrightarrow> worker (node q) = AtDone"
    and "loop p = L_none \<longrightarrow> loop q = L_none \<and> net (srv q) = net (srv p)" and "m_serverThread (net (srv q)) = m_serverThread (net (srv p))"
    and "m_running (watch q) = m_running (watch p)" and "is_server q = is_server p" and "props q = props p"
    and "main p \<noteq> M_broken \<Longrightarrow> is_server p \<or> main p = M_args \<or> main p = M_start \<Longrightarrow> node q = node p"
  shows "program_ok H q"
proof -
  have "threads_ok q" if "main q \<noteq> M_broken"
  proof -
    have m: "main q = main p" "main p \<noteq> M_broken" using that assms(4) by auto
    then have "threads_ok p" using assms(1) by (simp add: program_ok_def)
    from threads_ok_other [OF this m(1) assms(5-12)] assms(13) [OF m(2)] show ?thesis by blast
  qed
  with assms(2,3) show ?thesis by (auto simp: program_ok_def)
qed

lemma program_ok_same:
  assumes "program_ok H p" and "node q = node p" and "link q = link p" and "calling q = calling p" and "props q = props p"
    and "main q = M_broken \<or> main q = main p" and "watcher_thread p = W_none \<longrightarrow> watcher_thread q = W_none"
    and "loop p = L_none \<longrightarrow> loop q = L_none \<and> net (srv q) = net (srv p)" and "m_serverThread (net (srv q)) = m_serverThread (net (srv p))"
    and "m_running (watch q) = m_running (watch p)" and "is_server q = is_server p"
  shows "program_ok H q"
proof (rule program_ok_other [OF assms(1)])
  show "client_ok H q" using assms(1) client_ok_same [OF _ assms(5,2)] by (simp add: program_ok_def)
  show "link_ok q" using assms(1) link_ok_same [OF _ assms(3,4)] by (simp add: program_ok_def)
qed (use assms in auto)

lemma idle_client:
  assumes "program_ok H p" and "main p \<noteq> M_broken" and "is_server p \<or> main p = M_args \<or> main p = M_start"
  shows "worker (node p) = AtDone \<and> at (link p) = No_thread \<and> calling p = None \<and> watcher_thread p = W_none"
proof -
  have t: "threads_ok p" and l: "link_ok p" using assms(1,2) by (simp_all add: program_ok_def)
  have "is_server p \<or> (main p = M_args \<or> main p = M_start)" using assms(3) by blast
  then have "link p = port_client_init \<and> node p = fresh_client (props p) \<and> watcher_thread p = W_none"
  proof
    assume "main p = M_args \<or> main p = M_start"
    moreover from this have "main p \<notin> watching" by (auto simp: main_pcs)
    ultimately show ?thesis using t unfolding threads_ok_def by blast
  qed (use t in \<open>simp add: threads_ok_def\<close>)
  then show ?thesis using l by (simp add: link_ok_def)
qed

lemma program_ok_props: "program_ok H p \<Longrightarrow> m_properties (cl (node p)) = props p"
  by (rule client_ok_props [of H]) (simp add: program_ok_def)

lemma program_ok_call:
  assumes "program_ok H p" and "client_step (h_cwd H) (h_parse H) e (node p) s" and "worker s = worker (node p)"
    and "\<not> is_server p" and "main p \<noteq> M_args" and "main p \<noteq> M_start" and "node q = s" and "q = p\<lparr>node := s, watcher_thread := wt, calling := cg\<rparr>"
    and "watcher_thread p \<noteq> W_none \<or> wt = W_none" and "cg = None \<or> cg = calling p"
  shows "program_ok H q"
proof (rule program_ok_other [OF assms(1)])
  have c: "client_ok H p" and l: "link_ok p" using assms(1) by (simp_all add: program_ok_def)
  show "client_ok H q" by (rule client_ok_step [OF c assms(2)]) (simp_all add: assms(8))
  show "link_ok q" using l assms(10) by (auto simp: link_ok_def assms(8))
qed (use assms in \<open>simp_all\<close>)

lemma program_ok_link:
  assumes "program_ok H p" and "port_client_step (link p) l" and "at (link p) \<noteq> No_thread"
    and "cg = None \<or> at l \<in> {At_wait, At_stop, At_check}"
  shows "program_ok H (p\<lparr>link := l, calling := cg\<rparr>)"
proof (rule program_ok_other [OF assms(1)])
  have c: "client_ok H p" and l: "link_ok p" using assms(1) by (simp_all add: program_ok_def)
  show "client_ok H (p\<lparr>link := l, calling := cg\<rparr>)" using client_ok_same [OF c] by simp
  show "link_ok (p\<lparr>link := l, calling := cg\<rparr>)"
    using l link_reach_step [OF _ assms(2)] assms(4) by (auto simp: link_ok_def)
qed (use assms in \<open>simp_all\<close>)

lemma socket_event:
  assumes "program_ok H p" and "phase (link p) = Some ph" and "ph = Ix_connecting \<or> ph = Ix_open"
  shows "at (link p) = At_wait \<or> at (link p) = At_stop"
proof -
  have "port_client_inv (link p)" using assms(1) pcl.inv_reach by (simp add: program_ok_def link_ok_def)
  then show ?thesis using inv_phase assms(2,3) by blast
qed

lemma set_phase_at: "at (set_phase ph l) = at l"
  by (simp add: set_phase_def split: option.splits)

lemma calling_client:
  assumes "program_ok H p" and "main p \<noteq> M_broken" and "calling p \<noteq> None \<or> watcher_thread p \<noteq> W_none \<or> at (link p) \<noteq> No_thread"
  shows "\<not> is_server p \<and> main p \<noteq> M_args \<and> main p \<noteq> M_start"
  using idle_client [OF assms(1,2)] assms(3) by blast

lemma program_ok_broken:
  assumes "program_ok H p" and "main p = M_broken" and "main q = M_broken" and "client_ok H q" and "link_ok q"
  shows "program_ok H q"
  using assms by (simp add: program_ok_def)

lemma program_ok_step: "program_ok H p \<Longrightarrow> program_step H a p q \<Longrightarrow> program_ok H q"
proof -
  assume ok: "program_ok H p" and s: "program_step H a p q"
  have c: "client_ok H p" and l: "link_ok p" using ok by (simp_all add: program_ok_def)
  note same = program_ok_same [OF ok]
  have port_step: "at (link p) \<noteq> No_thread" if "phase (link p) = Some Ix_connecting \<or> phase (link p) = Some Ix_open"
    using that socket_event [OF ok] by auto
  have call: "program_ok H (p\<lparr>node := t, watcher_thread := wt, calling := cg\<rparr>)"
    if "client_step (h_cwd H) (h_parse H) e (node p) t" "worker t = worker (node p)"
      "calling p \<noteq> None \<or> watcher_thread p \<noteq> W_none \<or> at (link p) \<noteq> No_thread"
      "watcher_thread p \<noteq> W_none \<or> wt = W_none" "cg = None \<or> cg = calling p" for e t wt cg
  proof (cases "main p = M_broken")
    case True
    have "client_ok H (p\<lparr>node := t, watcher_thread := wt, calling := cg\<rparr>)" by (rule client_ok_step [OF c that(1)]) simp_all
    moreover have "link_ok (p\<lparr>node := t, watcher_thread := wt, calling := cg\<rparr>)" using l that(5) by (auto simp: link_ok_def)
    ultimately show ?thesis using True by (simp add: program_ok_def)
  next
    case False
    with calling_client [OF ok False that(3)] program_ok_call [OF ok that(1,2)] that(4,5) show ?thesis by simp
  qed
  from s show ?thesis
  proof cases
    case (ps_main ch)
    show ?thesis by (rule program_ok_main [OF ok ps_main(2)])
  next
    case (ps_signal num t)
    then show ?thesis by (intro same) (auto split: call.splits)
  next
    case (pw_call f change rest E)
    have "client_step (h_cwd H) (h_parse H) Caller (node p) (call_back E (watched_path (directory p) f) change (node p))"
      unfolding call_back_def by (rule cs_change) (simp add: pw_call)
    from call [where wt = "W_calls rest" and cg = "calling p", OF this] pw_call(2,3) show ?thesis by (simp add: call_back_def)
  next
    case (pl_thread waited l')
    have "at (link p) \<noteq> No_thread" using pl_thread(3) by (auto simp: thread_step_def)
    have e: "at l' = At_check" if "at (link p) = At_stop" using that pl_thread(3) by (auto simp: thread_step_def)
    have w: "at l' \<in> {At_wait, At_stop, At_check}" if "calling p \<noteq> None"
    proof -
      have "at (link p) = At_wait" using that l pl_thread(4) by (auto simp: link_ok_def)
      then show ?thesis using pl_thread(3) by (auto simp: thread_step_def split: if_splits)
    qed
    show ?thesis unfolding pl_thread(2)
      by (rule program_ok_link [OF ok pc_thread [OF pl_thread(3)] \<open>at (link p) \<noteq> No_thread\<close>]) (use e w in auto)
  next
    case pl_open
    have "at (on_ix_open (link p)) = at (link p)" by (simp add: on_ix_open_def set_phase_at)
    then show ?thesis unfolding pl_open(2)
      using program_ok_link [OF ok pc_open] pl_open(3) port_step socket_event [OF ok pl_open(3)] by auto
  next
    case pl_error
    have "at (on_ix_error (link p)) = at (link p)" by (simp add: on_ix_error_def set_phase_at)
    then have "program_ok H (p\<lparr>link := on_ix_error (link p), calling := None\<rparr>)"
      using program_ok_link [OF ok pc_error] pl_error(3) port_step by simp
    moreover have "p\<lparr>link := on_ix_error (link p)\<rparr> = p\<lparr>link := on_ix_error (link p), calling := None\<rparr>" using pl_error(4) by simp
    ultimately show ?thesis unfolding pl_error(2) by (simp only:)
  next
    case pl_close
    have "at (on_ix_close (link p)) = at (link p)" by (simp add: on_ix_close_def set_phase_at)
    then show ?thesis unfolding pl_close(2)
      using program_ok_link [OF ok pc_close] pl_close(3) port_step socket_event [OF ok pl_close(3)] by auto
  next
    case pl_opened
    from call [where wt = "watcher_thread p" and cg = None, OF cs_open] pl_opened show ?thesis by simp
  next
    case pl_closed
    from call [where wt = "watcher_thread p" and cg = None, OF cs_close] pl_closed show ?thesis by simp
  next
    case (pl_message E input)
    show ?thesis
    proof (cases "client_message E (h_parse H) input (cl (node p))")
      case None
      then show ?thesis unfolding pl_message(2) by (intro same) simp_all
    next
      case (Some d)
      have "p\<lparr>node := set_cl d (node p)\<rparr> = p\<lparr>node := set_cl d (node p), watcher_thread := watcher_thread p, calling := calling p\<rparr>"
        by (cases p) simp
      moreover have "program_ok H (p\<lparr>node := set_cl d (node p), watcher_thread := watcher_thread p, calling := calling p\<rparr>)"
        by (rule call [OF cs_message [OF pl_message(5) Some]]) (use port_step pl_message(3) in simp_all)
      ultimately show ?thesis unfolding pl_message(2) Some by simp
    qed
  next
    case (pk_worker E to w d)
    have n: "worker (node p) \<noteq> AtDone" using pk_worker(4) by auto
    show ?thesis
    proof (rule program_ok_other [OF ok])
      show "client_ok H q" by (rule client_ok_step [OF c cs_worker [OF pk_worker(3,4)]]) (simp_all add: pk_worker(2))
      show "link_ok q" using link_ok_same [OF l] by (simp add: pk_worker(2))
      show "node q = node p" if "main p \<noteq> M_broken" "is_server p \<or> main p = M_args \<or> main p = M_start"
        using idle_client [OF ok that] n by blast
    qed (use n in \<open>simp_all add: pk_worker(2)\<close>)
  next
    case (pk_peer e t)
    have "worker t = worker (node p)" using pk_peer(6,5) by cases simp_all
    note w = this
    have q: "q = p\<lparr>node := t, watcher_thread := watcher_thread p, calling := calling p\<rparr>" by (cases p) (simp add: pk_peer(2))
    show ?thesis
      by (rule program_ok_call [OF ok pk_peer(6) w pk_peer(4) _ _ _ q]) (use pk_peer(3) in \<open>simp_all add: alive_def pk_peer(2)\<close>)
  next
    case (pv_listen ok')
    then show ?thesis by (intro same) (auto simp: PortServer_listen_def)
  next
    case (pv_event t)
    then show ?thesis using same_port_step [of "h_sent H" "h_writer H" "h_parse H" "srv p" t]
      by (intro same) (auto simp: same_port_def)
  next
    case pv_deferred
    show ?thesis
    proof (cases "shut_down (h_writer H) (srv p)")
      case None
      then show ?thesis unfolding pv_deferred(2) by (intro same) simp_all
    next
      case (Some t)
      from shut_down_port [OF this] show ?thesis unfolding pv_deferred(2) Some by (intro same) (simp_all add: pv_deferred(3))
    qed
  qed (intro same; simp)+
qed

interpretation prog: invariant_system "\<lambda>p. p = program_init" "some_step H" "program_ok H" for H
  by unfold_locales (auto simp: program_ok_init some_step_def intro: program_ok_step)

abbreviation runs_to :: "host \<Rightarrow> program \<Rightarrow> bool" where
  "runs_to H \<equiv> reach (\<lambda>p. p = program_init) (some_step H)"


lemma exit_idle:
  assumes "program_ok H p" and "main p = M_exit n"
  shows "watcher_thread p = W_none" "at (link p) = No_thread" "worker (node p) = AtDone" "loop p = L_none" "calling p = None"
proof -
  have t: "threads_ok p" and l: "link_ok p" using assms by (simp_all add: program_ok_def)
  then show a: "watcher_thread p = W_none" "at (link p) = No_thread" "worker (node p) = AtDone" "loop p = L_none"
    using assms(2) by (auto simp: threads_ok_def main_pcs)
  then show "calling p = None" using l by (auto simp: link_ok_def)
qed

text \<open>
  C14: no thread outlives what it uses, but one: the watcher's thread and with it the callback runs only
  before \<open>webRTC->Stop()\<close>, the transport's thread and the event loop only until they are joined there, the
  worker until it is; once \<open>main\<close> has returned, the only step left anywhere is that of a detached sender.
\<close>

theorem threads_within_lifetimes:
  assumes "runs_to H p" and "main p \<noteq> M_broken"
  shows "(watcher_thread p \<noteq> W_none \<longrightarrow> main p \<in> {M_poll, M_watch_stop, M_watch_join}) \<and>
    (at (link p) \<noteq> No_thread \<or> loop p \<noteq> L_none \<longrightarrow>
      main p \<in> {M_watch, M_poll, M_watch_stop, M_watch_join, M_stop, M_port_stop, M_port_join}) \<and>
    (worker (node p) \<noteq> AtDone \<longrightarrow>
      main p \<in> {M_watch, M_poll, M_watch_stop, M_watch_join, M_stop, M_port_stop, M_port_join, M_worker_join}) \<and>
    (\<forall>n a q. main p = M_exit n \<and> program_step H a p q \<longrightarrow> a = By_sender)"
proof -
  have ok: "program_ok H p" by (rule prog.inv_reach [OF assms(1)])
  then have t: "threads_ok p" using assms(2) by (simp add: program_ok_def)
  have "a = By_sender" if e: "main p = M_exit n" and s: "program_step H a p q" for n a q
  proof -
    note idle = exit_idle [OF ok e]
    have ph: "phase (link p) \<noteq> Some Ix_connecting" "phase (link p) \<noteq> Some Ix_open"
      using socket_event [OF ok] idle(2) by auto
    from s show ?thesis
      by cases (use e idle ph in \<open>auto simp: main_step_def thread_step_def alive_def\<close>)
  qed
  moreover have "watcher_thread p \<noteq> W_none \<longrightarrow> main p \<in> watching" "at (link p) \<noteq> No_thread \<or> loop p \<noteq> L_none \<longrightarrow> main p \<in> linked"
    "worker (node p) \<noteq> AtDone \<longrightarrow> main p \<in> working" using t unfolding threads_ok_def by blast+
  ultimately show ?thesis by (simp only: main_pcs insert_iff empty_iff) blast
qed

section \<open>Interrupting a client\<close>

lemma other_step_main:
  assumes "program_step H a p q" and "a \<noteq> By_main"
  shows "props q = props p \<and> (main q = main p \<or> main q = M_broken)"
  using assms by cases (simp_all split: call.splits option.splits)

lemma session_Start_props: "session_Start p = Some (ok, q) \<Longrightarrow> props q = props p"
  using WebRTC_Start_fields by (fastforce simp: session_Start_def split: if_splits)

lemma main_step_props:
  assumes "main_step H ch p = Some q"
  shows "main p \<noteq> M_broken \<and> (\<forall>n. main p \<noteq> M_exit n) \<and> (main p \<noteq> M_args \<longrightarrow> props q = props p)"
proof (cases "main p")
  case M_start
  with assms show ?thesis by (auto simp: main_step_def session_Start_props split: option.splits)
next
  case M_port_join
  with assms show ?thesis by (auto simp: main_step_def port_join_def split: if_splits)
qed (use assms in \<open>auto simp: main_step_def split: if_splits call.splits prod.splits\<close>)

lemma configured_props:
  assumes "runs_to H p" and "main p \<noteq> M_args" and "main p \<noteq> M_broken" and "\<forall>n. main p \<noteq> M_exit n"
  shows "\<exists>params. Cmdline (h_options H) = Parsed params \<and> props p = main_properties params (h_name H)"
  using assms
proof (induction rule: reach.induct)
  case (reach_init p)
  then show ?case by (simp add: program_init_def)
next
  case (reach_step p q)
  then obtain a where s: "program_step H a p q" by (auto simp: some_step_def)
  show ?case
  proof (cases "main p = M_args \<and> a = By_main")
    case True
    with s obtain ch where "main_step H ch p = Some q" by (auto elim: program_step.cases)
    with True reach_step.prems show ?thesis
      by (auto simp: main_step_def main_configure_def Let_def split: parse_result.splits sum.splits)
  next
    case False
    have "props q = props p \<and> main p \<noteq> M_args \<and> main p \<noteq> M_broken \<and> (\<forall>n. main p \<noteq> M_exit n)"
    proof (cases "a = By_main")
      case True
      with s obtain ch where "main_step H ch p = Some q" by (auto elim: program_step.cases)
      with main_step_props [OF this] True False show ?thesis by simp
    next
      case False
      with other_step_main [OF s] reach_step.prems show ?thesis by auto
    qed
    with reach_step.IH show ?thesis by simp
  qed
qed

text \<open>The steps of \<open>main\<close> and the threads it has started, with nothing from outside.\<close>

definition own_step :: "host \<Rightarrow> program \<Rightarrow> program \<Rightarrow> bool" where
  "own_step H p q \<longleftrightarrow> (\<exists>a \<in> {By_main, By_watcher, By_port, By_worker}. program_step H a p q)"

definition leads :: "host \<Rightarrow> program \<Rightarrow> program \<Rightarrow> bool" where
  "leads H p q \<longleftrightarrow> (own_step H)\<^sup>*\<^sup>* p q \<and> is_server q = is_server p \<and> busy (node q) = busy (node p) \<and> props q = props p"

lemma leads_refl [simp]: "leads H p p"
  by (simp add: leads_def)

lemma leads_trans: "leads H p q \<Longrightarrow> leads H q r \<Longrightarrow> leads H p r"
  by (auto simp: leads_def)

lemma leads_step:
  "program_step H a p q \<Longrightarrow> a \<in> {By_main, By_watcher, By_port, By_worker} \<Longrightarrow> is_server q = is_server p \<Longrightarrow>
     busy (node q) = busy (node p) \<Longrightarrow> props q = props p \<Longrightarrow> leads H p q"
  by (auto simp: leads_def own_step_def)

lemma leads_ok: "program_ok H p \<Longrightarrow> leads H p q \<Longrightarrow> program_ok H q"
proof -
  assume ok: "program_ok H p" and l: "leads H p q"
  have "own_step H x y \<Longrightarrow> some_step H x y" for x y by (auto simp: own_step_def some_step_def)
  then have "(some_step H)\<^sup>*\<^sup>* p q" using l rtranclp_mono [of "own_step H" "some_step H"] by (auto simp: leads_def)
  with ok show ?thesis by (rule prog.inv_path)
qed

definition host_env :: "host \<Rightarrow> env" where
  "host_env H = demo_env\<lparr>cwd := h_cwd H\<rparr>"

lemma host_env_cwd [simp]: "cwd (host_env H) = h_cwd H"
  by (simp add: host_env_def)

lemma calls_end:
  "watcher_thread p = W_calls cs \<Longrightarrow> \<exists>q. leads H p q \<and> watcher_thread q = W_head \<and> main q = main p \<and>
     watch q = watch p \<and> worker (node q) = worker (node p)"
proof (induction cs arbitrary: p)
  case Nil
  then show ?case by (intro exI [of _ "p\<lparr>watcher_thread := W_head\<rparr>"] conjI leads_step [OF pw_round]) simp_all
next
  case (Cons x cs)
  obtain f change where x: "x = (f, change)" by (cases x)
  let ?q = "p\<lparr>node := call_back (host_env H) (watched_path (directory p) f) change (node p), watcher_thread := W_calls cs\<rparr>"
  have "leads H p ?q" by (rule leads_step [OF pw_call]) (use Cons.prems x in \<open>simp_all add: call_back_def\<close>)
  moreover obtain r where "leads H ?q r" "watcher_thread r = W_head" "main r = main p" "watch r = watch p" "worker (node r) = worker (node p)"
    using Cons.IH [of ?q] by (auto simp: call_back_def)
  ultimately show ?case using leads_trans by blast
qed

lemma watcher_ends:
  assumes "watcher_thread p \<noteq> W_none" and "\<not> m_running (watch p)"
  shows "\<exists>q. leads H p q \<and> watcher_thread q = W_done \<and> main q = main p \<and> worker (node q) = worker (node p)"
proof -
  have head: "\<exists>r. leads H q r \<and> watcher_thread r = W_done \<and> main r = main q \<and> worker (node r) = worker (node q)"
    if "watcher_thread q = W_head" "\<not> m_running (watch q)" for q
    by (intro exI [of _ "q\<lparr>watcher_thread := W_done\<rparr>"] conjI leads_step [OF pw_head [of q H, simplified that(2) if_False]]) (simp_all add: that)
  have calls: "\<exists>r. leads H q r \<and> watcher_thread r = W_done \<and> main r = main q \<and> worker (node r) = worker (node q)"
    if c: "watcher_thread q = W_calls cs" "\<not> m_running (watch q)" for q cs
  proof -
    obtain r where r: "leads H q r" "watcher_thread r = W_head" "main r = main q" "watch r = watch q" "worker (node r) = worker (node q)"
      using calls_end [OF c(1)] by blast
    with head [of r] c(2) leads_trans show ?thesis by metis
  qed
  show ?thesis
  proof (cases "watcher_thread p")
    case W_head
    then show ?thesis using head assms(2) by blast
  next
    case W_poll
    then show ?thesis
      by (intro exI [of _ "p\<lparr>watcher_thread := W_done\<rparr>"] conjI leads_step [OF pw_woken]) (simp_all add: assms(2))
  next
    case W_flush
    let ?w = "FlushIfQuiet 0 (watch p)"
    let ?q = "p\<lparr>watch := ?w, watcher_thread := W_calls (drop (length (delivered (watch p))) (delivered ?w))\<rparr>"
    have "leads H p ?q" by (rule leads_step [OF pw_flush [OF W_flush refl]]) simp_all
    moreover obtain r where "leads H ?q r \<and> watcher_thread r = W_done \<and> main r = main p \<and> worker (node r) = worker (node p)"
      using calls [of ?q] assms(2) by auto
    ultimately show ?thesis using leads_trans by blast
  next
    case (W_calls cs)
    then show ?thesis using calls assms(2) by blast
  next
    case W_done
    then show ?thesis by (intro exI [of _ p]) simp
  qed (use assms(1) in simp)
qed

lemma worker_runs:
  assumes "run_worker E k (worker (node p)) (cl (node p)) = Some (w, c)" and "cwd E = h_cwd H"
  shows "\<exists>q. leads H p q \<and> worker (node q) = w \<and> main q = main p \<and> link q = link p \<and> calling q = calling p"
  using assms(1)
proof (induction k arbitrary: p)
  case 0
  then show ?case by (intro exI [of _ p]) simp
next
  case (Suc k)
  obtain w1 c1 where s: "worker_step E False (worker (node p)) (cl (node p)) = Next w1 c1" "run_worker E k w1 c1 = Some (w, c)"
    using Suc.prems by (cases "worker_step E False (worker (node p)) (cl (node p))") auto
  let ?q = "p\<lparr>node := (node p)\<lparr>cl := c1, worker := w1, made := made (node p) \<union> channels_of c1\<rparr>\<rparr>"
  have "leads H p ?q" by (rule leads_step [OF pk_worker [OF assms(2) s(1)]]) simp_all
  moreover obtain r where "leads H ?q r" "worker (node r) = w" "main r = main p" "link r = link p" "calling r = calling p"
    using Suc.IH [of ?q] s(2) by auto
  ultimately show ?case using leads_trans by blast
qed

text \<open>The transport's thread, once it is to stop.\<close>

lemma port_settles:
  "\<exists>q. leads H p q \<and> calling q = None \<and> link q = link p \<and> main q = main p \<and> worker (node q) = worker (node p)"
proof (cases "calling p")
  case None
  then show ?thesis by (intro exI [of _ p]) simp
next
  case (Some x)
  show ?thesis
  proof (cases x)
    case Opened
    let ?q = "p\<lparr>node := set_cl (OnMessageOpen (port_name p) (cl (node p))) (node p), calling := None\<rparr>"
    have "leads H p ?q" by (rule leads_step [OF pl_opened]) (simp_all add: Some Opened)
    then show ?thesis by (intro exI [of _ ?q]) simp
  next
    case Closed
    let ?q = "p\<lparr>node := set_cl (OnMessageClose (cl (node p))) (node p), calling := None\<rparr>"
    have "leads H p ?q" by (rule leads_step [OF pl_closed]) (simp_all add: Some Closed)
    then show ?thesis by (intro exI [of _ ?q]) simp
  qed
qed

lemma port_thread_runs:
  assumes "thread_run k 0 (link p) = Some l"
  shows "\<exists>q. leads H p q \<and> link q = l \<and> main q = main p \<and> worker (node q) = worker (node p)"
  using assms
proof (induction k arbitrary: p)
  case 0
  then show ?case by (intro exI [of _ p]) simp
next
  case (Suc k)
  obtain l1 where s: "thread_step 0 (link p) = Some l1" "thread_run k 0 l1 = Some l" using Suc.prems by (auto split: option.splits)
  obtain q where q: "leads H p q" "calling q = None" "link q = link p" "main q = main p" "worker (node q) = worker (node p)"
    using port_settles by blast
  let ?r = "q\<lparr>link := l1, calling := if at (link q) = At_stop \<and> phase (link q) = Some Ix_open then Some Closed else calling q\<rparr>"
  have "leads H q ?r" by (rule leads_step [OF pl_thread [where waited = 0]]) (simp_all add: q(2,3) s(1))
  moreover obtain t where t: "leads H ?r t" "link t = l" "main t = main q" "worker (node t) = worker (node q)"
    using Suc.IH [of ?r] s(2) by auto
  ultimately have "leads H p t" using q(1) leads_trans by blast
  with t q(4,5) show ?case by auto
qed

lemma main_leads:
  assumes "main_step H ch p = Some q" and "is_server q = is_server p" and "busy (node q) = busy (node p)" and "props q = props p"
  shows "leads H p q"
  by (rule leads_step [OF ps_main [OF assms(1)]]) (simp_all add: assms)

definition any_choice :: choice where
  "any_choice = \<lparr>spurious = False, kernel = \<lparr>add_watch = \<lambda>f. None, listing = \<lambda>f. []\<rparr>, now = 0, root_is_dir = False, inotify_ok = False\<rparr>"

lemma poll_sees_stop:
  assumes "main p = M_poll" and "token p = None"
  shows "leads H p (p\<lparr>main := M_watch_stop\<rparr>)"
proof (rule main_leads)
  show "main_step H any_choice p = Some (p\<lparr>main := M_watch_stop\<rparr>)"
    using assms by (cases p) (simp add: main_step_def poll_stop_def stop_token_defs main_goes_on_def any_choice_def)
qed simp_all

lemma watcher_stops:
  assumes "main p = M_watch_stop"
  shows "\<exists>q. leads H p q \<and> main q = M_stop \<and> worker (node q) = worker (node p)"
proof (cases "m_running (watch p)")
  case False
  have "leads H p (p\<lparr>main := M_stop\<rparr>)" by (rule main_leads [of _ any_choice]) (simp_all add: main_step_def assms False)
  then show ?thesis by (intro exI [of _ "p\<lparr>main := M_stop\<rparr>"]) simp
next
  case True
  let ?q = "p\<lparr>watch := watcher_stop (watch p), main := M_watch_join\<rparr>"
  have 1: "leads H p ?q" by (rule main_leads [of _ any_choice]) (simp_all add: main_step_def assms True)
  obtain r where r: "leads H ?q r" "watcher_thread r \<in> {W_none, W_done}" "main r = M_watch_join" "worker (node r) = worker (node p)"
  proof (cases "watcher_thread p = W_none")
    case True
    then show ?thesis by (intro that [of ?q]) simp_all
  next
    case False
    then show ?thesis using watcher_ends [of ?q H] that by (auto simp: watcher_stop_def)
  qed
  have "leads H r (r\<lparr>watcher_thread := W_none, main := M_stop\<rparr>)"
    by (rule main_leads [of _ any_choice]) (use r(2) in \<open>simp_all add: main_step_def r(3)\<close>)
  with 1 r(1) have "leads H p (r\<lparr>watcher_thread := W_none, main := M_stop\<rparr>)" using leads_trans by blast
  then show ?thesis using r(4) by (intro exI [of _ "r\<lparr>watcher_thread := W_none, main := M_stop\<rparr>"]) simp
qed

lemma client_stops:
  assumes ok: "program_ok H p" and m: "main p = M_stop" and c: "\<not> is_server p" and conf: "configured (cl (node p))"
    and na: "\<not> announcing (worker (node p))"
  shows "\<exists>q. leads H p q \<and> main q = M_exit 0"
proof -
  let ?a = "p\<lparr>node := set_cl (Stop_session (cl (node p))) (node p), main := M_port_stop\<rparr>"
  have a: "leads H p ?a"
    by (rule main_leads [of _ any_choice]) (simp_all add: main_step_def m session_stop_def c)
  have "configured (Stop_session (cl (node p)))"
    using conf by (simp add: configured_def setting_def setting_int_def Stop_session_def WakeFileTransferWorkers_def)
  from worker_ends [OF _ this na, of "host_env H"] obtain k t where
    "run_worker (host_env H) k (worker (node ?a)) (cl (node ?a)) = Some (AtDone, t)"
    by (auto simp: ends_within_def Stop_session_def WakeFileTransferWorkers_def)
  from worker_runs [OF this host_env_cwd] obtain b where
    b: "leads H ?a b" "worker (node b) = AtDone" "main b = M_port_stop" by auto
  have sb: "\<not> is_server b" using b(1) c by (simp add: leads_def)
  let ?d = "b\<lparr>link := PortClient_Stop_flags (link b), main := M_port_join\<rparr>"
  have d: "leads H b ?d" by (rule main_leads [of _ any_choice]) (simp_all add: main_step_def b(3) port_stop_def sb)
  have okd: "program_ok H ?d" using leads_ok ok a b(1) d by blast
  then have inv: "port_client_inv (link ?d)" using pcl.inv_reach by (simp add: program_ok_def link_ok_def)
  have "\<exists>e l. leads H ?d e \<and> main e = M_port_join \<and> worker (node e) = AtDone \<and> PortClient_Stop_join (link e) = Some l"
  proof (cases "m_serverThread (link ?d)")
    case False
    then show ?thesis using b(2) by (intro exI [of _ ?d]) (simp add: PortClient_Stop_join_def)
  next
    case True
    then obtain n l where l: "thread_run n 0 (link ?d) = Some l" "at l = At_exit"
      using port_thread_exits [OF inv True, of 0] by (auto simp: PortClient_Stop_flags_def)
    obtain e where "leads H ?d e" "link e = l" "main e = M_port_join" "worker (node e) = AtDone"
      using port_thread_runs [OF l(1), of H] b(2) by auto
    then show ?thesis using l(2) by (intro exI [of _ e]) (simp add: PortClient_Stop_join_def)
  qed
  then obtain e l where e: "leads H ?d e" "main e = M_port_join" "worker (node e) = AtDone" "PortClient_Stop_join (link e) = Some l"
    by blast
  have se: "\<not> is_server e" using e(1) sb by (simp add: leads_def)
  let ?f = "e\<lparr>link := l, main := M_worker_join\<rparr>" and ?g = "e\<lparr>link := l, main := M_destroy\<rparr>"
  let ?h = "(port_stop (session_stop ?g))\<lparr>main := M_exit 0\<rparr>"
  have f: "leads H e ?f" by (rule main_leads [of _ any_choice]) (simp_all add: main_step_def e(2,4) port_join_def se)
  have g: "leads H ?f ?g" by (rule main_leads [of _ any_choice]) (simp_all add: main_step_def e(3))
  have "busy (node (session_stop ?g)) = busy (node ?g)" by (simp add: session_stop_def)
  then have h: "leads H ?g ?h" by (intro main_leads [of _ any_choice]) (simp_all add: main_step_def)
  have "leads H p ?h" using a b(1) d e(1) f g h leads_trans by blast
  then show ?thesis by (intro exI [of _ ?h]) simp
qed

lemma interrupt_ends:
  assumes ok: "program_ok H p" and m: "main p = M_poll" and c: "\<not> is_server p" and conf: "configured (cl (node p))"
    and na: "\<not> announcing (worker (node p))" and pr: "m_properties (cl (node p)) = props p"
  shows "\<exists>q. leads H (p\<lparr>token := None\<rparr>) q \<and> main q = M_exit 0"
proof -
  let ?p = "p\<lparr>token := None\<rparr>"
  have ok1: "program_ok H ?p" using program_ok_same [OF ok, of ?p] by simp
  have 1: "leads H ?p (?p\<lparr>main := M_watch_stop\<rparr>)" by (rule poll_sees_stop) (simp_all add: m)
  obtain q where q: "leads H (?p\<lparr>main := M_watch_stop\<rparr>) q" "main q = M_stop" "worker (node q) = worker (node p)"
    using watcher_stops [of "?p\<lparr>main := M_watch_stop\<rparr>" H] by auto
  have okq: "program_ok H q" using leads_ok [OF leads_ok [OF ok1 1] q(1)] .
  have "props q = props p" "\<not> is_server q" using q(1) c by (simp_all add: leads_def)
  moreover have "m_properties (cl (node q)) = props q" by (rule program_ok_props [OF okq])
  ultimately have "configured (cl (node q))"
    using conf pr by (simp add: configured_def setting_def setting_int_def)
  from client_stops [OF okq q(2) \<open>\<not> is_server q\<close> this] na q(3) obtain r where "leads H q r" "main r = M_exit 0" by auto
  then show ?thesis using leads_trans [OF leads_trans [OF 1 q(1)]] by blast
qed


section \<open>Runs\<close>

lemma runs_init: "runs_to H program_init"
  by (rule reach_init) simp

lemma runs_step: "runs_to H p \<Longrightarrow> program_step H a p q \<Longrightarrow> runs_to H q"
  using reach_step [of "\<lambda>p. p = program_init" "some_step H" p q] by (auto simp: some_step_def)

lemma runs_main: "runs_to H p \<Longrightarrow> main_step H ch p = Some q \<Longrightarrow> runs_to H q"
  using runs_step ps_main by blast

text \<open>Every command line that parses gets \<open>main\<close> to its loop (here in a directory that cannot be watched).\<close>

lemma runs_to_poll:
  assumes "Cmdline (h_options H) = Parsed params"
  shows "\<exists>p. runs_to H p \<and> main p = M_poll \<and> is_server p = p_server params \<and> token p = Some main_thread \<and>
    watcher_thread p = W_none \<and> \<not> m_running (watch p) \<and> busy (node p) = Map.empty \<and>
    (p_server params \<longrightarrow> worker (node p) = AtDone \<and> loop p = L_listen \<and> \<not> m_listenSocket (net (srv p)) \<and> m_serverThread (net (srv p)) \<and> ws_data (net (srv p)) = Map.empty) \<and>
    (\<not> p_server params \<longrightarrow> worker (node p) = AtLoop)"
proof -
  let ?P = "main_properties params (h_name H)"
  let ?a = "program_init\<lparr>main := M_start, props := ?P, directory := p_directory params, is_server := p_server params,
      node := fresh_client ?P,
      watch := if \<not> p_server params \<and> p_directory params \<noteq> [] then OnFile 10000 watcher_init else watcher_init\<rparr>"
  have st: "start_transport ?P = Inr (Some (p_timeout params), p_messageAddress params, p_messagePort params)"
    by (simp add: start_transport_def main_settings)
  have a: "runs_to H ?a"
    by (rule runs_main [OF runs_init, of _ any_choice])
      (simp add: main_step_def program_init_def main_configure_def assms Create_is_server_def main_settings Let_def)
  have "\<exists>b. runs_to H b \<and> main b = M_watch \<and> is_server b = p_server params \<and> token b = Some main_thread \<and>
    watcher_thread b = W_none \<and> \<not> m_running (watch b) \<and> busy (node b) = Map.empty \<and>
    (p_server params \<longrightarrow> worker (node b) = AtDone \<and> loop b = L_listen \<and> \<not> m_listenSocket (net (srv b)) \<and> m_serverThread (net (srv b)) \<and> ws_data (net (srv b)) = Map.empty) \<and>
    (\<not> p_server params \<longrightarrow> worker (node b) = AtLoop)"
  proof (cases "p_server params")
    case True
    then have "session_Start ?a = Some (True, ?a\<lparr>srv := (srv ?a)\<lparr>net := port_server_init\<lparr>m_serverThread := True\<rparr>\<rparr>, loop := L_listen\<rparr>)"
      by (simp add: session_Start_def WebRTC_Start_def st PortServer_Start_def program_init_def server_init_def port_server_init_def)
    then have "main_step H any_choice ?a =
        Some (?a\<lparr>srv := (srv ?a)\<lparr>net := port_server_init\<lparr>m_serverThread := True\<rparr>\<rparr>, loop := L_listen, main := M_watch\<rparr>)"
      by (simp add: main_step_def)
    from runs_main [OF a this] True show ?thesis
      by (intro exI conjI) (assumption | simp add: program_init_def stop_token_defs watcher_init_def port_server_init_def fresh_client_def)+
  next
    case False
    let ?l = "port_client_init\<lparr>m_reconnectDelay := p_timeout params, m_serverThread := True, at := At_make\<rparr>"
    let ?n = "set_cl (Start_session (cl (fresh_client ?P))) (fresh_client ?P)\<lparr>worker := AtLoop\<rparr>"
    from False have "session_Start ?a = Some (True, ?a\<lparr>link := ?l, node := ?n\<rparr>)"
      by (simp add: session_Start_def WebRTC_Start_def st PortClient_Start_def PortClient_SetReconnectDelay_def program_init_def
          port_client_init_def set_cl_def)
    then have "main_step H any_choice ?a = Some (?a\<lparr>link := ?l, node := ?n, main := M_watch\<rparr>)" by (simp add: main_step_def)
    from runs_main [OF a this] False show ?thesis
      by (intro exI conjI) (assumption | simp add: program_init_def stop_token_defs watcher_init_def OnFile_def fresh_client_def)+
  qed
  then obtain b where b: "runs_to H b" "main b = M_watch" "is_server b = p_server params" "token b = Some main_thread"
    "watcher_thread b = W_none" "\<not> m_running (watch b)" "busy (node b) = Map.empty"
    "p_server params \<longrightarrow> worker (node b) = AtDone \<and> loop b = L_listen \<and> \<not> m_listenSocket (net (srv b)) \<and> m_serverThread (net (srv b)) \<and> ws_data (net (srv b)) = Map.empty"
    "\<not> p_server params \<longrightarrow> worker (node b) = AtLoop" by blast
  have "\<exists>w. main_step H any_choice b = Some (b\<lparr>watch := w, main := M_poll\<rparr>) \<and> \<not> m_running w"
    using b(2,5,6) by (cases b) (auto simp: main_step_def watcher_start_def any_choice_def)
  then obtain w where w: "main_step H any_choice b = Some (b\<lparr>watch := w, main := M_poll\<rparr>)" "\<not> m_running w" by blast
  from runs_main [OF b(1) w(1)] b w(2) show ?thesis by (intro exI [of _ "b\<lparr>watch := w, main := M_poll\<rparr>"]) simp
qed

text \<open>A command line for a client, and one for a server.\<close>

definition demo_host :: "(cl_option \<times> string) list \<Rightarrow> host" where
  "demo_host options = \<lparr>h_cwd = ''/w'', h_parse = (\<lambda>input. None), h_writer = (\<lambda>doc. []), h_sent = (\<lambda>w m. True),
     h_options = options, h_name = ''FoxAnchorRunningCanyon#427'', h_own_try = Done False\<rparr>"

lemma demo_client_polls:
  "\<exists>p. runs_to (demo_host [(Opt_room, ''r'')]) p \<and> main p = M_poll \<and> \<not> is_server p \<and> token p = Some main_thread \<and>
     worker (node p) = AtLoop"
  using runs_to_poll [of "demo_host [(Opt_room, ''r'')]" "cmdline_defaults\<lparr>p_room := ''r''\<rparr>"]
  by (auto simp: demo_host_def Cmdline_def cmdline_defaults_def)


theorem threads_within_lifetimes_witness:
  "\<exists>p. runs_to (demo_host [(Opt_room, ''r'')]) p \<and> worker (node p) \<noteq> AtDone \<and>
     main p \<in> {M_watch, M_poll, M_watch_stop, M_watch_join, M_stop, M_port_stop, M_port_join, M_worker_join}"
proof -
  obtain p where p: "runs_to (demo_host [(Opt_room, ''r'')]) p" "main p = M_poll" "worker (node p) = AtLoop"
    using demo_client_polls by blast
  then have "main p \<noteq> M_broken" "worker (node p) \<noteq> AtDone" by simp_all
  with threads_within_lifetimes [OF p(1) this(1)] p(1) show ?thesis by blast
qed


section \<open>A sender that is left behind\<close>



text \<open>
  With a negative \<open>--maxMessageSize\<close> on the command line no file can be sent: the first thread that has
  opened one to send it ends the program.
\<close>

lemma negative_size_ends_program:
  assumes "runs_to H p" and "alive p" and "Cmdline (h_options H) = Parsed params"
    and "- (2 ^ 31) \<le> p_maxMessageSize params" and "p_maxMessageSize params < 0"
    and "busy (node p) q = Some (Reading path fd)"
  shows "program_step H By_sender p (p\<lparr>main := M_broken\<rparr>)"
proof -
  have "props p = main_properties params (h_name H)"
    using configured_props [OF assms(1)] assms(2,3) by (auto simp: alive_def)
  then have "Get_int (props p) ''maxMessageSize'' = Inr (p_maxMessageSize params)" by (simp add: main_settings)
  from pk_thrown [OF assms(2,6) this message_size_negative [OF assms(4,5)]] show ?thesis .
qed

section \<open>A server interrupted too early\<close>

definition deaf :: "program \<Rightarrow> bool" where
  "deaf p \<longleftrightarrow> is_server p \<and> loop p = L_run \<and> \<not> deferred p \<and> m_listenSocket (net (srv p)) \<and> m_serverThread (net (srv p)) \<and>
     (main p = M_port_join \<or> main p = M_broken)"

lemma deaf_step:
  assumes "deaf p" and "program_step H a p q"
  shows "deaf q"
  using assms(2)
proof cases
  case (ps_main ch)
  then show ?thesis using assms(1) by (auto simp: deaf_def main_step_def port_join_def)
next
  case (pv_event t)
  then show ?thesis using assms(1) same_port_step [OF pv_event(4)] by (simp add: deaf_def same_port_def)
qed (use assms(1) in \<open>simp_all add: deaf_def split: call.splits option.splits\<close>)

text \<open>
  C38: an interrupt that comes before the event loop listens hangs the server: \<open>Stop\<close> finds no listening
  socket to close and joins a thread that then starts to listen, so \<open>main\<close> stays in the join for ever and the
  port stays open, whatever else happens (a crash of the program aside).
\<close>

theorem early_interrupt_hangs_server:
  assumes "Cmdline (h_options H) = Parsed params" and "p_server params"
  shows "\<exists>r. runs_to H r \<and> main r = M_port_join \<and> m_isRunning (net (srv r)) \<and> m_listenSocket (net (srv r)) \<and>
    (\<forall>t. (some_step H)\<^sup>*\<^sup>* r t \<longrightarrow> m_listenSocket (net (srv t)) \<and> (main t = M_port_join \<or> main t = M_broken))"
proof -
  obtain p where p: "runs_to H p" "main p = M_poll" "is_server p" "token p = Some main_thread" "\<not> m_running (watch p)"
      "loop p = L_listen" "\<not> m_listenSocket (net (srv p))" "m_serverThread (net (srv p))"
    using runs_to_poll [OF assms(1)] assms(2) by auto
  have 1: "runs_to H (p\<lparr>token := None\<rparr>)"
    using runs_step [OF p(1) ps_signal [of p H SIGINT main_thread]] p(2,4) by (simp add: signalHandler_def stop_token_defs)
  have "main_step H any_choice (p\<lparr>token := None\<rparr>) = Some (p\<lparr>token := None, main := M_watch_stop\<rparr>)"
    using p(2) by (simp add: main_step_def poll_stop_def stop_token_defs main_goes_on_def any_choice_def)
  from runs_main [OF 1 this] have 2: "runs_to H (p\<lparr>token := None, main := M_watch_stop\<rparr>)" .
  from runs_main [OF this, of any_choice] p(5) have 3: "runs_to H (p\<lparr>token := None, main := M_stop\<rparr>)" by (simp add: main_step_def)
  from runs_main [OF this, of any_choice] p(3) have 4: "runs_to H (p\<lparr>token := None, main := M_port_stop\<rparr>)"
    by (simp add: main_step_def session_stop_def)
  let ?q = "port_stop (p\<lparr>token := None, main := M_port_stop\<rparr>)"
  have "main_step H any_choice (p\<lparr>token := None, main := M_port_stop\<rparr>) = Some ?q" by (simp add: main_step_def)
  from runs_main [OF 4 this] have 5: "runs_to H ?q" .
  have q: "main ?q = M_port_join" "loop ?q = L_listen" "\<not> deferred ?q" "is_server ?q" "m_serverThread (net (srv ?q))"
    using p by (simp_all add: port_stop_def PortServer_Stop_flags_def)
  let ?r = "?q\<lparr>srv := (srv ?q)\<lparr>net := PortServer_listen True (net (srv ?q))\<rparr>, loop := L_run\<rparr>"
  have r: "runs_to H ?r" using runs_step [OF 5 pv_listen [OF q(2), where ok = True]] by simp
  have d: "deaf ?r" using q by (simp add: deaf_def PortServer_listen_def)
  have "deaf t" if "(some_step H)\<^sup>*\<^sup>* ?r t" for t
    using that d by (induction rule: rtranclp_induct) (auto simp: some_step_def intro: deaf_step)
  then have "m_listenSocket (net (srv t)) \<and> (main t = M_port_join \<or> main t = M_broken)" if "(some_step H)\<^sup>*\<^sup>* ?r t" for t
    using that unfolding deaf_def by blast
  with r q(1) show ?thesis by (intro exI [of _ ?r]) (simp add: PortServer_listen_def)
qed

theorem early_interrupt_hangs_server_witness:
  "\<exists>r. runs_to (demo_host [(Opt_server, [])]) r \<and> main r = M_port_join \<and> m_isRunning (net (srv r))"
proof -
  have "Cmdline (h_options (demo_host [(Opt_server, [])])) = Parsed (cmdline_defaults\<lparr>p_server := True\<rparr>)"
    by (simp add: demo_host_def Cmdline_def)
  from early_interrupt_hangs_server [OF this] show ?thesis by auto
qed

text \<open>
  \<open>main\<close> polls on the thread that owns the token: with the standard's \<open>try_lock\<close> its first look is undefined
  behaviour. With POSIX's answer a server whose port is taken polls on, for nobody.
\<close>

lemma main_polls_undefined:
  "main p = M_poll \<Longrightarrow> token p = Some main_thread \<Longrightarrow> h_own_try H = Undefined \<Longrightarrow> main_step H ch p = Some (p\<lparr>main := M_broken\<rparr>)"
  by (simp add: main_step_def poll_stop_def)

lemma failed_listener_unnoticed:
  "main p = M_poll \<Longrightarrow> is_server p \<Longrightarrow> token p = Some main_thread \<Longrightarrow> h_own_try H = Done False \<Longrightarrow> main_step H ch p = Some p"
  by (cases p) (simp add: main_step_def poll_stop_def main_goes_on_def)

end
