(* ===== verification/Server_Shutdown.thy ===== *)
theory Server_Shutdown
  imports Main_Properties
begin

text \<open>
  How an interrupted server ends (\<open>main\<close>, \<open>MessagePortServer::Stop\<close> and the event loop together): what the
  program keeps of the server's own invariant, what the task deferred to the event loop does to the
  sockets, and when the program returns.
\<close>

section \<open>The server inside the program\<close>

definition early :: "main_pc set" where
  "early = {M_args, M_start, M_watch, M_poll, M_watch_stop, M_watch_join, M_stop, M_port_stop}"

definition server_ok :: "program \<Rightarrow> bool" where
  "server_ok p \<longleftrightarrow> server_inv (srv p) \<and>
     (main p \<in> early \<longrightarrow> \<not> deferred p \<and> (loop p = L_run \<longrightarrow> m_listenSocket (net (srv p))))"

lemma server_inv_same:
  "server_inv s \<Longrightarrow> ws_data n = ws_data (net s) \<Longrightarrow> clients n = clients (net s) \<Longrightarrow> server_inv (s\<lparr>net := n\<rparr>)"
  by (simp add: server_inv_def port_inv_def)

lemma server_step_inv: "server_inv s \<Longrightarrow> server_step sent_ok writer parse s t \<Longrightarrow> server_inv t"
  by (rotate_tac, induction rule: server_step.induct) (auto intro: server_open_inv server_message_inv server_close_inv)

text \<open>The close handlers the deferred task runs end exactly the tracked sockets.\<close>

lemma closes:
  assumes "server_inv s" and "\<forall>cid \<in> set cs. ws_data (net s) (f cid) = Some cid" and "distinct cs"
  shows "\<exists>t. each (\<lambda>cid. server_close writer (f cid)) cs s = Some t \<and> server_inv t \<and>
    ws_data (net t) = (\<lambda>w. if w \<in> f ` set cs then None else ws_data (net s) w)"
  using assms
proof (induction cs arbitrary: s)
  case Nil
  then show ?case by simp
next
  case (Cons c cs)
  have "ws_data (net s) (f c) = Some c" using Cons.prems(2) by simp
  from server_close_Some [OF Cons.prems(1) this, of writer] obtain u where
    u: "server_close writer (f c) s = Some u" "server_inv u" "ws_data (net u) = (ws_data (net s))(f c := None)" by blast
  have "f d \<noteq> f c" if "d \<in> set cs" for d
    using that Cons.prems(2,3) by (metis distinct.simps(2) list.set_intros(1,2) option.inject)
  then have "\<forall>d \<in> set cs. ws_data (net u) (f d) = Some d" using Cons.prems(2) u(3) by simp
  from Cons.IH [OF u(2) this] Cons.prems(3) obtain t where
    t: "each (\<lambda>cid. server_close writer (f cid)) cs u = Some t" "server_inv t"
      "ws_data (net t) = (\<lambda>w. if w \<in> f ` set cs then None else ws_data (net u) w)" by auto
  then show ?case using u(1,3) by (intro exI [of _ t]) (auto simp: fun_eq_iff)
qed

lemma shut_down_Some:
  assumes "server_inv s"
  shows "\<exists>t. shut_down writer s = Some t \<and> server_inv t \<and>
    ws_data (net t) = (\<lambda>w. if w \<in> ran (clients (net s)) then None else ws_data (net s) w)"
proof -
  let ?s = "s\<lparr>net := (net s)\<lparr>m_listenSocket := False\<rparr>\<rparr>"
  have wd: "ws_data (net ?s) = ws_data (net s)" by simp
  have i: "server_inv ?s" using assms by (intro server_inv_same) simp_all
  have f: "finite (dom (clients (net s)))" using server_invD(1) [OF assms] by (simp add: port_inv_def)
  then have k: "set (map_keys (clients (net s))) = dom (clients (net s))" by (simp add: map_keys_def)
  have "\<forall>cid \<in> set (map_keys (clients (net s))). ws_data (net ?s) (the (clients (net s) cid)) = Some cid"
    using server_invD(1) [OF assms] unfolding k by (auto simp: port_inv_def)
  from closes [OF i this, of writer, unfolded wd] obtain t where
    "each (\<lambda>cid. server_close writer (the (clients (net s) cid))) (map_keys (clients (net s))) ?s = Some t" "server_inv t"
    "ws_data (net t) = (\<lambda>w. if w \<in> (\<lambda>cid. the (clients (net s) cid)) ` set (map_keys (clients (net s))) then None else ws_data (net s) w)"
    using f by (auto simp: map_keys_def)
  moreover have "(\<lambda>cid. the (clients (net s) cid)) ` dom (clients (net s)) = ran (clients (net s))"
    by (force simp: ran_def dom_def)
  ultimately show ?thesis by (simp add: shut_down_def Let_def k)
qed

lemma server_ok_init: "server_ok program_init"
  by (simp add: server_ok_def program_init_def server_inv_init)

lemma server_ok_same:
  "server_ok p \<Longrightarrow> srv q = srv p \<Longrightarrow> loop q = loop p \<Longrightarrow> deferred q = deferred p \<Longrightarrow> main q \<in> early \<longrightarrow> main p \<in> early \<Longrightarrow> server_ok q"
  by (simp add: server_ok_def)

lemma net_idle [simp]: "(s :: server)\<lparr>net := net s\<rparr> = s"
  by (cases s) simp

lemma WebRTC_Start_srv:
  assumes "WebRTC_Start p = Some (ok, q)"
  shows "deferred q = deferred p \<and> (loop q = loop p \<and> srv q = srv p \<or> loop q = L_listen \<and> (server_inv (srv p) \<longrightarrow> server_inv (srv q)))"
proof -
  obtain d a port where t: "start_transport (props p) = Inr (d, a, port)"
    using assms by (cases "start_transport (props p)") (auto simp: WebRTC_Start_def)
  show ?thesis
  proof (cases "is_server p")
    case True
    then obtain n where n: "PortServer_Start (net (srv p)) = Some (ok, n)"
        "q = p\<lparr>srv := (srv p)\<lparr>net := n\<rparr>, loop := if ok then L_listen else loop p\<rparr>"
      using assms by (auto simp: WebRTC_Start_def t)
    then have "ok \<and> ws_data n = ws_data (net (srv p)) \<and> clients n = clients (net (srv p)) \<or> \<not> ok \<and> n = net (srv p)"
      by (auto simp: PortServer_Start_def split: if_splits)
    then show ?thesis using server_inv_same [of "srv p" n] by (auto simp: n(2))
  next
    case False
    then show ?thesis using assms by (auto simp: WebRTC_Start_def t split: option.splits)
  qed
qed

lemma session_Start_srv:
  assumes "session_Start p = Some (ok, q)"
  shows "deferred q = deferred p \<and> (loop q = loop p \<and> srv q = srv p \<or> loop q = L_listen \<and> (server_inv (srv p) \<longrightarrow> server_inv (srv q)))"
proof (cases "is_server p")
  case True
  with assms show ?thesis by (intro WebRTC_Start_srv [of p ok]) (simp add: session_Start_def)
next
  case False
  then obtain r where r: "WebRTC_Start (p\<lparr>node := set_cl (Start_session (cl (node p))) (node p)\<rparr>) = Some (ok, r)"
      "srv q = srv r" "loop q = loop r" "deferred q = deferred r"
    using assms by (auto simp: session_Start_def)
  from WebRTC_Start_srv [OF r(1)] r(2-4) show ?thesis by simp
qed

lemma port_stop_srv:
  "server_inv (srv p) \<Longrightarrow> server_inv (srv (port_stop p))" "main (port_stop p) \<notin> early"
  by (simp_all add: port_stop_def PortServer_Stop_flags_def server_inv_same early_def)

lemma server_ok_main:
  assumes "server_ok p" and "main_step H ch p = Some q"
  shows "server_ok q"
proof (cases "main p")
  case M_args
  then show ?thesis using assms
    by (auto simp: main_step_def main_configure_def Let_def early_def server_ok_def split: parse_result.splits sum.splits)
next
  case M_start
  show ?thesis
  proof (cases "session_Start p")
    case None
    then show ?thesis using assms M_start by (auto simp: main_step_def server_ok_def early_def)
  next
    case (Some r)
    then obtain ok r' where r: "session_Start p = Some (ok, r')" by (cases r) auto
    then have q: "q = r'\<lparr>main := if ok then M_watch else M_destroy\<rparr>" using assms(2) M_start by (simp add: main_step_def)
    from session_Start_srv [OF r] assms(1) M_start show ?thesis
      by (auto simp: q server_ok_def early_def intro!: server_inv_same)
  qed
next
  case M_port_stop
  then have "q = port_stop p" using assms(2) by (simp add: main_step_def)
  then show ?thesis using assms(1) by (simp add: server_ok_def port_stop_srv)
next
  case M_destroy
  then have "q = (port_stop (session_stop p))\<lparr>main := M_exit 0\<rparr>" using assms(2) by (simp add: main_step_def)
  then show ?thesis using assms(1) port_stop_srv(1) [of "session_stop p"] by (simp add: server_ok_def early_def)
next
  case M_port_join
  then show ?thesis using assms
    by (auto simp: main_step_def port_join_def server_ok_def early_def intro!: server_inv_same split: if_splits)
next
  case M_poll
  then show ?thesis using assms by (auto simp: main_step_def server_ok_def early_def split: call.splits prod.splits)
next
  case M_stop
  moreover have "deferred (session_stop p) = deferred p" by (simp add: session_stop_def)
  ultimately show ?thesis using assms by (auto simp: main_step_def server_ok_def early_def)
qed (use assms in \<open>auto simp: main_step_def server_ok_def early_def split: if_splits prod.splits\<close>)

lemma server_ok_step: "server_ok p \<Longrightarrow> program_step H a p q \<Longrightarrow> server_ok q"
proof -
  assume ok: "server_ok p" and s: "program_step H a p q"
  from s show ?thesis
  proof cases
    case (ps_main ch)
    show ?thesis by (rule server_ok_main [OF ok ps_main(2)])
  next
    case (pv_listen ok')
    then show ?thesis using ok by (auto simp: server_ok_def PortServer_listen_def intro!: server_inv_same)
  next
    case (pv_event t)
    then show ?thesis
      using ok server_step_inv same_port_step [OF pv_event(4)] by (auto simp: server_ok_def same_port_def)
  next
    case pv_deferred
    then have "main p \<notin> early" using ok by (auto simp: server_ok_def)
    moreover obtain t where "shut_down (h_writer H) (srv p) = Some t" "server_inv t"
      using shut_down_Some ok by (auto simp: server_ok_def)
    ultimately show ?thesis by (simp add: pv_deferred(2) server_ok_def)
  qed (use ok in \<open>auto simp: server_ok_def early_def split: call.splits option.splits\<close>)
qed

interpretation serving: invariant_system "\<lambda>p. p = program_init" "some_step H" server_ok for H
  by unfold_locales (auto simp: server_ok_init some_step_def intro: server_ok_step)

text \<open>So the members of the rooms have live sockets of their own at every moment of the program, its end included.\<close>

lemma program_members_live:
  "runs_to H p \<Longrightarrow> c \<in> members (srv p) r \<Longrightarrow> \<exists>w. m_clientDB (srv p) c = Some w \<and> ws_data (net (srv p)) w = Some c"
  using serving.inv_reach server_invD(4) by (auto simp: server_ok_def)

section \<open>Interrupting a server\<close>

text \<open>The steps of \<open>main\<close> and of the event loop, with no client of the server doing anything.\<close>

definition serving_step :: "host \<Rightarrow> program \<Rightarrow> program \<Rightarrow> bool" where
  "serving_step H p q \<longleftrightarrow> (\<exists>a \<in> {By_main, By_loop}. program_step H a p q)"

lemma serving_main: "main_step H ch p = Some q \<Longrightarrow> (serving_step H)\<^sup>*\<^sup>* p q"
  using ps_main by (auto simp: serving_step_def)

lemma serving_loop: "program_step H By_loop p q \<Longrightarrow> (serving_step H)\<^sup>*\<^sup>* p q"
  by (auto simp: serving_step_def)

definition tracked :: "port_server \<Rightarrow> bool" where
  "tracked n \<longleftrightarrow> (\<forall>w cid. ws_data n w = Some cid \<longrightarrow> clients n cid = Some w)"

lemma server_watch_stops:
  assumes "is_server p" and "main p = M_watch_stop" and "watcher_thread p = W_none"
  shows "\<exists>w. (serving_step H)\<^sup>*\<^sup>* p (p\<lparr>watch := w, main := M_port_stop\<rparr>)"
proof -
  have stop: "(serving_step H)\<^sup>*\<^sup>* (p\<lparr>watch := w, main := M_stop\<rparr>) (p\<lparr>watch := w, main := M_port_stop\<rparr>)" for w
    by (rule serving_main [of _ any_choice]) (simp add: main_step_def session_stop_def assms(1))
  show ?thesis
  proof (cases "m_running (watch p)")
    case True
    let ?w = "watcher_stop (watch p)"
    have "(serving_step H)\<^sup>*\<^sup>* p (p\<lparr>watch := ?w, main := M_watch_join\<rparr>)"
      by (rule serving_main [of _ any_choice]) (simp add: main_step_def assms(2) True)
    moreover have "(serving_step H)\<^sup>*\<^sup>* (p\<lparr>watch := ?w, main := M_watch_join\<rparr>) (p\<lparr>watch := ?w, main := M_stop\<rparr>)"
      by (rule serving_main [of _ any_choice]) (use assms(3) in \<open>cases p; simp add: main_step_def\<close>)
    ultimately show ?thesis using stop [of ?w] by (meson rtranclp_trans)
  next
    case False
    have "(serving_step H)\<^sup>*\<^sup>* p (p\<lparr>watch := watch p, main := M_stop\<rparr>)"
      by (rule serving_main [of _ any_choice]) (use assms(2) False in \<open>cases p; simp add: main_step_def\<close>)
    then show ?thesis using stop [of "watch p"] by (meson rtranclp_trans)
  qed
qed

lemma tracked_server_ends:
  assumes "server_ok p" and "is_server p" and "main p = M_port_stop" and "loop p = L_run" and "m_serverThread (net (srv p))"
    and "worker (node p) = AtDone" and "tracked (net (srv p))"
  shows "\<exists>q. (serving_step H)\<^sup>*\<^sup>* p q \<and> main q = M_exit 0 \<and> ws_data (net (srv q)) = Map.empty"
proof -
  have inv: "server_inv (srv p)" and ls: "m_listenSocket (net (srv p))"
    using assms(1,3,4) by (simp_all add: server_ok_def early_def)
  let ?a = "port_stop p"
  have a: "main ?a = M_port_join" "deferred ?a" "loop ?a = L_run" "is_server ?a" "worker (node ?a) = AtDone"
      "server_inv (srv ?a)" "ws_data (net (srv ?a)) = ws_data (net (srv p))" "clients (net (srv ?a)) = clients (net (srv p))"
      "m_serverThread (net (srv ?a))"
    using assms(2-6) ls port_stop_srv(1) [OF inv] by (simp_all add: port_stop_def PortServer_Stop_flags_def)
  have 1: "(serving_step H)\<^sup>*\<^sup>* p ?a" by (rule serving_main [of _ any_choice]) (simp add: main_step_def assms(3))
  obtain t where t: "shut_down (h_writer H) (srv ?a) = Some t"
      "ws_data (net t) = (\<lambda>w. if w \<in> ran (clients (net (srv ?a))) then None else ws_data (net (srv ?a)) w)"
    using shut_down_Some [OF a(6)] by blast
  have e: "ws_data (net t) = Map.empty"
    using assms(7) a(7,8) by (auto simp: t(2) fun_eq_iff tracked_def ran_def) (metis option.exhaust)
  have f: "\<not> m_listenSocket (net t)" "m_serverThread (net t)" using shut_down_port [OF t(1)] a(9) by simp_all
  let ?b = "?a\<lparr>srv := t, deferred := False\<rparr>"
  have 2: "(serving_step H)\<^sup>*\<^sup>* ?a ?b"
    by (rule serving_loop) (rule pv_deferred [OF a(3,2), of H, unfolded t(1) option.case])
  have 3: "(serving_step H)\<^sup>*\<^sup>* ?b (?b\<lparr>loop := L_exit\<rparr>)"
    by (intro serving_loop pv_exit) (use a(3) e f in simp_all)
  let ?c = "?b\<lparr>srv := t\<lparr>net := (net t)\<lparr>m_serverThread := False\<rparr>\<rparr>, loop := L_none, main := M_worker_join\<rparr>"
  have 4: "(serving_step H)\<^sup>*\<^sup>* (?b\<lparr>loop := L_exit\<rparr>) ?c"
    by (rule serving_main [of _ any_choice]) (simp add: main_step_def a port_join_def f assms(2))
  have 5: "(serving_step H)\<^sup>*\<^sup>* ?c (?c\<lparr>main := M_destroy\<rparr>)"
    by (rule serving_main [of _ any_choice]) (simp add: main_step_def assms(6))
  let ?d = "(port_stop (session_stop (?c\<lparr>main := M_destroy\<rparr>)))\<lparr>main := M_exit 0\<rparr>"
  have 6: "(serving_step H)\<^sup>*\<^sup>* (?c\<lparr>main := M_destroy\<rparr>) ?d"
    by (rule serving_main [of _ any_choice]) (simp add: main_step_def)
  have "(serving_step H)\<^sup>*\<^sup>* p ?d" using 1 2 3 4 5 6 by (meson rtranclp_trans)
  moreover have "ws_data (net (srv ?d)) = Map.empty"
    using e a(4) by (simp add: port_stop_def session_stop_def PortServer_Stop_flags_def)
  ultimately show ?thesis by (intro exI [of _ ?d]) simp
qed

text \<open>A live socket that the listener does not track keeps the loop, and with it \<open>main\<close>.\<close>

definition held_by :: "ws \<Rightarrow> program \<Rightarrow> bool" where
  "held_by w p \<longleftrightarrow> server_ok p \<and> is_server p \<and> loop p = L_run \<and> m_serverThread (net (srv p)) \<and> ws_data (net (srv p)) w \<noteq> None \<and>
     main p \<in> {M_poll, M_watch_stop, M_watch_join, M_stop, M_port_stop, M_port_join, M_broken} \<and>
     (main p \<in> {M_port_join, M_broken} \<and> \<not> deferred p \<or> w \<notin> ran (clients (net (srv p))))"

lemma held_main:
  assumes "held_by w p" and "main_step H ch p = Some q"
  shows "held_by w q"
proof -
  have ok: "server_ok q" by (rule server_ok_main [OF _ assms(2)]) (use assms(1) in \<open>simp add: held_by_def\<close>)
  have m: "main p \<in> {M_poll, M_watch_stop, M_watch_join, M_stop, M_port_stop, M_port_join, M_broken}"
    using assms(1) by (simp add: held_by_def)
  then consider "main p = M_poll" | "main p = M_port_stop" | "main p \<in> {M_watch_stop, M_watch_join}" | "main p = M_stop"
    | "main p \<in> {M_port_join, M_broken}" by blast
  then show ?thesis
  proof cases
    case 1
    then obtain m x where q: "q = p\<lparr>token := m, main := x\<rparr>" "x = M_poll \<or> x = M_watch_stop \<or> x = M_broken"
      using assms(2) by (cases p) (auto simp: main_step_def split: call.splits prod.splits)
    from q(2) 1 assms(1) ok show ?thesis unfolding q(1) by (elim disjE) (simp_all add: held_by_def)
  next
    case 2
    then have "q = port_stop p" using assms(2) by (simp add: main_step_def)
    with 2 assms(1) ok show ?thesis by (simp add: held_by_def port_stop_def PortServer_Stop_flags_def)
  next
    case 3
    then obtain w' wt x where q: "q = p\<lparr>watch := w', watcher_thread := wt, main := x\<rparr>" "x = M_watch_join \<or> x = M_stop"
      using assms(2) by (cases p) (auto simp: main_step_def split: if_splits)
    have "w \<notin> ran (clients (net (srv p)))" using 3 assms(1) by (auto simp: held_by_def)
    with q(2) assms(1) ok show ?thesis unfolding q(1) by (elim disjE) (simp_all add: held_by_def)
  next
    case 4
    then have q: "q = (session_stop p)\<lparr>main := M_port_stop\<rparr>" using assms(2) by (simp add: main_step_def)
    show ?thesis using 4 assms(1) ok unfolding q by (simp add: held_by_def session_stop_def)
  next
    case 5
    with assms show ?thesis by (auto simp: held_by_def main_step_def port_join_def)
  qed
qed

lemma held_loop:
  assumes "held_by w p" and "program_step H By_loop p q"
  shows "held_by w q"
proof -
  have ok: "server_ok q" by (rule server_ok_step [OF _ assms(2)]) (use assms(1) in \<open>simp add: held_by_def\<close>)
  from assms(2) show ?thesis
  proof cases
    case pv_deferred
    obtain t where t: "shut_down (h_writer H) (srv p) = Some t"
        "ws_data (net t) = (\<lambda>w. if w \<in> ran (clients (net (srv p))) then None else ws_data (net (srv p)) w)"
      using shut_down_Some assms(1) by (auto simp: held_by_def server_ok_def)
    have "main p \<in> {M_port_join, M_broken}"
      using assms(1) pv_deferred(3) by (auto simp: held_by_def server_ok_def early_def)
    with assms(1) ok t pv_deferred shut_down_port [OF t(1)] show ?thesis by (auto simp: held_by_def)
  next
    case pv_exit
    then show ?thesis using assms(1) by (simp add: held_by_def)
  qed (use assms(1) in \<open>simp add: held_by_def\<close>)
qed

lemma held_runs: "(serving_step H)\<^sup>*\<^sup>* p q \<Longrightarrow> held_by w p \<Longrightarrow> held_by w q"
proof (induction rule: rtranclp_induct)
  case (step q r)
  then show ?case using held_loop by (auto simp: serving_step_def elim: program_step.cases [where H = H] dest: held_main)
qed

text \<open>
  C15: an interrupt ends a server that listens exactly when it can close its connections: after a \<open>SIGINT\<close>
  on its thread \<open>main\<close> returns with status 0, by its own steps and the event loop's alone, with every socket
  closed, if each live socket is the one tracked for its client; one socket that is not (the second one of
  a client) keeps the event loop alive and \<open>main\<close> in its join, which neither of the two can end.
\<close>

theorem interrupt_ends_server:
  assumes "runs_to H p" and "main p = M_poll" and "is_server p" and "token p = Some main_thread" and "loop p = L_run"
  shows "\<exists>m. signalHandler SIGINT main_thread (token p) = Done m \<and> program_step H By_signal p (p\<lparr>token := m\<rparr>) \<and>
    ((\<exists>q. (serving_step H)\<^sup>*\<^sup>* (p\<lparr>token := m\<rparr>) q \<and> main q = M_exit 0 \<and> ws_data (net (srv q)) = Map.empty) \<longleftrightarrow>
      (\<forall>w cid. ws_data (net (srv p)) w = Some cid \<longrightarrow> clients (net (srv p)) cid = Some w))"
proof -
  have t: "threads_ok p" using prog.inv_reach [OF assms(1)] assms(2) by (simp add: program_ok_def)
  have st: "m_serverThread (net (srv p))" "watcher_thread p = W_none" "worker (node p) = AtDone"
    using t assms(3,5) by (auto simp: threads_ok_def)
  have ok: "server_ok p" by (rule serving.inv_reach [OF assms(1)])
  let ?p = "p\<lparr>token := None\<rparr>"
  have s: "signalHandler SIGINT main_thread (token p) = Done None"
    by (simp add: signalHandler_def assms(4) stop_token_defs)
  have sg: "program_step H By_signal p ?p"
    using ps_signal [of p H SIGINT main_thread] assms(2) by (simp add: s)
  have "\<exists>q. (serving_step H)\<^sup>*\<^sup>* ?p q \<and> main q = M_exit 0 \<and> ws_data (net (srv q)) = Map.empty" if tr: "tracked (net (srv p))"
  proof -
    let ?q = "?p\<lparr>main := M_watch_stop\<rparr>"
    have 1: "(serving_step H)\<^sup>*\<^sup>* ?p ?q"
      by (rule serving_main [of _ any_choice])
        (use assms(2) in \<open>simp add: main_step_def poll_stop_def stop_token_defs main_goes_on_def any_choice_def\<close>)
    obtain w where w: "(serving_step H)\<^sup>*\<^sup>* ?q (?q\<lparr>watch := w, main := M_port_stop\<rparr>)"
      using server_watch_stops [of ?q H] assms(3) st(2) by auto
    have "server_ok (?q\<lparr>watch := w, main := M_port_stop\<rparr>)"
      using ok assms(2) by (intro server_ok_same [OF ok]) (simp_all add: early_def)
    from tracked_server_ends [OF this] assms(3,5) st(1,3) tr obtain q where
      "(serving_step H)\<^sup>*\<^sup>* (?q\<lparr>watch := w, main := M_port_stop\<rparr>) q" "main q = M_exit 0" "ws_data (net (srv q)) = Map.empty" by auto
    with 1 w show ?thesis by (meson rtranclp_trans)
  qed
  moreover have "tracked (net (srv p))" if q: "(serving_step H)\<^sup>*\<^sup>* ?p q" "main q = M_exit 0" for q
  proof (rule ccontr)
    assume "\<not> tracked (net (srv p))"
    then obtain w cid where w: "ws_data (net (srv p)) w = Some cid" "clients (net (srv p)) cid \<noteq> Some w" by (auto simp: tracked_def)
    have "port_inv (net (srv p))" using ok server_invD(1) by (auto simp: server_ok_def)
    with w have "w \<notin> ran (clients (net (srv p)))" by (auto simp: port_inv_def ran_def)
    moreover have "server_ok ?p" by (rule server_ok_same [OF ok]) simp_all
    ultimately have "held_by w ?p" using assms(2,3,5) st(1) w(1) by (simp add: held_by_def)
    from held_runs [OF q(1) this] q(2) show False by (simp add: held_by_def)
  qed
  ultimately have "(\<exists>q. (serving_step H)\<^sup>*\<^sup>* ?p q \<and> main q = M_exit 0 \<and> ws_data (net (srv q)) = Map.empty) \<longleftrightarrow> tracked (net (srv p))"
    by blast
  then show ?thesis unfolding tracked_def by (intro exI [of _ None] conjI s sg)
qed

theorem interrupt_ends_server_witness:
  "\<exists>p m q. runs_to (demo_host [(Opt_server, [])]) p \<and> main p = M_poll \<and>
     (serving_step (demo_host [(Opt_server, [])]))\<^sup>*\<^sup>* (p\<lparr>token := m\<rparr>) q \<and> main q = M_exit 0"
proof -
  let ?H = "demo_host [(Opt_server, [])]"
  have "Cmdline (h_options ?H) = Parsed (cmdline_defaults\<lparr>p_server := True\<rparr>)"
    by (simp add: demo_host_def Cmdline_def)
  from runs_to_poll [OF this] obtain p where p: "runs_to ?H p" "main p = M_poll" "is_server p" "token p = Some main_thread"
      "loop p = L_listen" "ws_data (net (srv p)) = Map.empty" by auto
  let ?q = "p\<lparr>srv := (srv p)\<lparr>net := PortServer_listen True (net (srv p))\<rparr>, loop := L_run\<rparr>"
  have q: "runs_to ?H ?q" using runs_step [OF p(1) pv_listen [OF p(5), where ok = True]] by simp
  have e: "ws_data (net (srv ?q)) = Map.empty" using p(6) by (simp add: PortServer_listen_def)
  from interrupt_ends_server [OF q] p(2-4) obtain m r where
    "(serving_step ?H)\<^sup>*\<^sup>* (?q\<lparr>token := m\<rparr>) r" "main r = M_exit 0" unfolding e by auto
  moreover have "main ?q = M_poll" using p(2) by simp
  ultimately show ?thesis using q by blast
qed

end
